(* ===== verification/Prelude.thy ===== *)
theory Prelude
  imports Main "HOL-Library.Sublist" "HOL-Library.List_Lexorder" "HOL-Library.Char_ord"
    "HOL-Library.Product_Lexorder"
begin

text \<open>
  Shared vocabulary of the development: Go strings as byte strings (\<open>string\<close>, a list of
  8-bit \<open>char\<close>s), the functions of Go's packages \<open>strings\<close>, \<open>strconv\<close>, \<open>path/filepath\<close>
  and \<open>encoding/hex\<close> that the gateway calls, the wrap-around of \<open>int64\<close>, and the generic
  list lemmas and \<open>named_theorems\<close> collections that the component theories use.
\<close>

named_theorems go_str "facts about the byte-string functions"
named_theorems ops "definitions of the small operations of a component"

section \<open>Byte strings\<close>

definition has_prefix :: "string \<Rightarrow> string \<Rightarrow> bool" where
  "has_prefix s p \<longleftrightarrow> take (length p) s = p"

definition has_suffix :: "string \<Rightarrow> string \<Rightarrow> bool" where
  "has_suffix s p \<longleftrightarrow> length p \<le> length s \<and> drop (length s - length p) s = p"

definition trim_prefix :: "string \<Rightarrow> string \<Rightarrow> string" where
  "trim_prefix s p = (if has_prefix s p then drop (length p) s else s)"

definition trim_suffix :: "string \<Rightarrow> string \<Rightarrow> string" where
  "trim_suffix s p = (if has_suffix s p then take (length s - length p) s else s)"

text \<open>\<open>strings.TrimRight(s, c)\<close> for a one-byte cut set.\<close>

definition trim_right :: "char \<Rightarrow> string \<Rightarrow> string" where
  "trim_right c s = rev (dropWhile (\<lambda>x. x = c) (rev s))"

text \<open>\<open>strings.Split(s, c)\<close> for a one-byte separator: never empty.\<close>

fun split_on :: "char \<Rightarrow> string \<Rightarrow> string list" where
  "split_on c [] = [[]]"
| "split_on c (x # xs) =
     (if x = c then [] # split_on c xs
      else case split_on c xs of [] \<Rightarrow> [[x]] | y # ys \<Rightarrow> (x # y) # ys)"

text \<open>\<open>strings.Join(xs, sep)\<close>.\<close>

fun join_with :: "string \<Rightarrow> string list \<Rightarrow> string" where
  "join_with sep [] = []"
| "join_with sep [x] = x"
| "join_with sep (x # y # ys) = x @ sep @ join_with sep (y # ys)"

definition is_ascii :: "char \<Rightarrow> bool" where
  "is_ascii c \<longleftrightarrow> of_char c < (128 :: nat)"

definition ascii_lower :: "char \<Rightarrow> char" where
  "ascii_lower c = (if 65 \<le> (of_char c :: nat) \<and> (of_char c :: nat) \<le> 90
     then char_of (of_char c + 32 :: nat) else c)"

text \<open>
  \<open>strings.ToLower\<close>: byte-wise on ASCII input, else the Unicode case tables. The tables are
  the parameter \<open>uni\<close>.
\<close>

definition to_lower :: "(string \<Rightarrow> string) \<Rightarrow> string \<Rightarrow> string" where
  "to_lower uni s = (if list_all is_ascii s then map ascii_lower s else uni s)"

lemma has_prefix_iff [go_str]: "has_prefix s p \<longleftrightarrow> (\<exists>r. s = p @ r)"
  by (auto simp: has_prefix_def) (metis append_take_drop_id)

lemma has_prefix_append [simp]: "has_prefix (p @ s) p"
  by (simp add: has_prefix_def)

lemma trim_prefix_append [simp]: "trim_prefix (p @ s) p = s"
  by (simp add: trim_prefix_def)

lemma split_on_ne [simp]: "split_on c s \<noteq> []"
  by (induction s) (auto split: list.splits)

lemma join_split [go_str]: "join_with [c] (split_on c s) = s"
proof (induction s)
  case Nil
  then show ?case by simp
next
  case (Cons x xs)
  then show ?case
    by (cases "split_on c xs") (auto split: list.splits, (cases "tl (split_on c xs)"; simp)+)
qed

lemma ascii_lower_not_upper:
  "\<not> (65 \<le> (of_char (ascii_lower c) :: nat) \<and> (of_char (ascii_lower c) :: nat) \<le> 90)"
  by (auto simp: ascii_lower_def of_char_of)

lemma ascii_lower_idem [simp]: "ascii_lower (ascii_lower c) = ascii_lower c"
  using ascii_lower_not_upper [of c] by (simp only: ascii_lower_def [of "ascii_lower c"] if_False)

lemma is_ascii_lower [simp]: "is_ascii (ascii_lower c) = is_ascii c"
  by (auto simp: is_ascii_def ascii_lower_def of_char_of)

lemma to_lower_ascii [go_str]: "list_all is_ascii s \<Longrightarrow> to_lower uni s = map ascii_lower s"
  by (simp add: to_lower_def)

lemma to_lower_idem_ascii [go_str]:
  "list_all is_ascii s \<Longrightarrow> to_lower uni (to_lower uni s) = to_lower uni s"
  by (auto simp: to_lower_def list_all_iff)

section \<open>Decimal and hexadecimal text\<close>

definition digit_char :: "nat \<Rightarrow> char" where
  "digit_char n = char_of (48 + n)"

definition is_digit :: "char \<Rightarrow> bool" where
  "is_digit c \<longleftrightarrow> 48 \<le> (of_char c :: nat) \<and> (of_char c :: nat) \<le> 57"

definition digit_val :: "char \<Rightarrow> nat" where
  "digit_val c = of_char c - 48"

fun show_nat :: "nat \<Rightarrow> string" where
  "show_nat n = (if n < 10 then [digit_char n] else show_nat (n div 10) @ [digit_char (n mod 10)])"

declare show_nat.simps [simp del]

definition show_int :: "int \<Rightarrow> string" where
  "show_int i = (if i < 0 then CHR ''-'' # show_nat (nat (- i)) else show_nat (nat i))"

definition dec_val :: "string \<Rightarrow> nat" where
  "dec_val s = foldl (\<lambda>n c. 10 * n + digit_val c) 0 s"

lemma digit_char_props [simp]:
  "n < 10 \<Longrightarrow> is_digit (digit_char n)" "n < 10 \<Longrightarrow> digit_val (digit_char n) = n"
  by (simp_all add: is_digit_def digit_val_def digit_char_def of_char_of)

lemma show_nat_ne [simp]: "show_nat n \<noteq> []"
  by (subst show_nat.simps) simp

lemma show_nat_digits [go_str]: "list_all is_digit (show_nat n)"
proof (induction n rule: show_nat.induct)
  case (1 n)
  then show ?case by (subst show_nat.simps) (simp add: list_all_iff)
qed

lemma dec_val_snoc: "dec_val (s @ [c]) = 10 * dec_val s + digit_val c"
  by (simp add: dec_val_def)

lemma dec_val_show_nat [go_str]: "dec_val (show_nat n) = n"
proof (induction n rule: show_nat.induct)
  case (1 n)
  show ?case
  proof (cases "n < 10")
    case True
    then show ?thesis by (subst show_nat.simps) (simp add: dec_val_def)
  next
    case False
    then have "dec_val (show_nat n) = 10 * (n div 10) + n mod 10"
      using "1.IH" by (subst show_nat.simps) (simp add: dec_val_snoc)
    then show ?thesis by simp
  qed
qed

definition hex_digit :: "nat \<Rightarrow> char" where
  "hex_digit n = (if n < 10 then char_of (48 + n) else char_of (87 + n))"

definition is_hex :: "char \<Rightarrow> bool" where
  "is_hex c \<longleftrightarrow> (let v = of_char c :: nat in
     (48 \<le> v \<and> v \<le> 57) \<or> (97 \<le> v \<and> v \<le> 102) \<or> (65 \<le> v \<and> v \<le> 70))"

text \<open>\<open>hex.EncodeToString\<close>, and whether \<open>hex.DecodeString\<close> succeeds.\<close>

definition hex_encode :: "string \<Rightarrow> string" where
  "hex_encode s = concat (map (\<lambda>c. [hex_digit (of_char c div 16), hex_digit (of_char c mod 16)]) s)"

definition hex_decodes :: "string \<Rightarrow> bool" where
  "hex_decodes s \<longleftrightarrow> even (length s) \<and> list_all is_hex s"

lemma is_hex_digit [simp]: "n < 16 \<Longrightarrow> is_hex (hex_digit n)"
  by (auto simp: is_hex_def hex_digit_def of_char_of Let_def)

lemma length_hex_encode [simp]: "length (hex_encode s) = 2 * length s"
  by (induction s) (auto simp: hex_encode_def)

lemma of_char_less_256 [simp]: "of_char c < (256 :: nat)"
  by (cases c) (simp add: of_char_def horner_sum_simps)

lemma hex_decodes_encode [go_str]: "hex_decodes (hex_encode s)"
proof -
  have "list_all is_hex (hex_encode s)"
  proof (induction s)
    case Nil
    then show ?case by (simp add: hex_encode_def)
  next
    case (Cons c s)
    have "of_char c div 16 < (16 :: nat)"
      using of_char_less_256 [of c] by linarith
    then show ?case using Cons by (simp add: hex_encode_def)
  qed
  then show ?thesis by (simp add: hex_decodes_def)
qed

section \<open>Signed 64-bit integers\<close>

definition wrap64 :: "int \<Rightarrow> int" where
  "wrap64 x = (x + 2 ^ 63) mod 2 ^ 64 - 2 ^ 63"

definition in64 :: "int \<Rightarrow> bool" where
  "in64 x \<longleftrightarrow> - (2 ^ 63) \<le> x \<and> x < 2 ^ 63"

lemma wrap64_in64 [simp]: "in64 (wrap64 x)"
proof -
  have "0 \<le> (x + 2 ^ 63) mod 2 ^ 64" and "(x + 2 ^ 63) mod 2 ^ 64 < (2 ^ 64 :: int)"
    by (rule pos_mod_sign, simp) (rule pos_mod_bound, simp)
  then show ?thesis by (simp add: in64_def wrap64_def)
qed

lemma wrap64_id: "in64 x \<Longrightarrow> wrap64 x = x"
  by (simp add: in64_def wrap64_def)

text \<open>Go's integer division truncates towards zero (for a positive divisor).\<close>

definition go_div :: "int \<Rightarrow> int \<Rightarrow> int" where
  "go_div n d = (if n < 0 then - ((- n) div d) else n div d)"

lemma go_div_nonneg: "0 \<le> n \<Longrightarrow> go_div n d = n div d"
  by (simp add: go_div_def)

section \<open>File paths\<close>

text \<open>\<open>filepath.Base\<close> and \<open>filepath.Ext\<close> on Unix.\<close>

definition last_elem :: "string \<Rightarrow> string" where
  "last_elem s = rev (takeWhile (\<lambda>c. c \<noteq> CHR ''/'') (rev s))"

definition path_base :: "string \<Rightarrow> string" where
  "path_base s = (if s = [] then ''.''
     else let t = trim_right (CHR ''/'') s in if t = [] then ''/'' else last_elem t)"

definition path_ext :: "string \<Rightarrow> string" where
  "path_ext s = (let e = last_elem s in
     if CHR ''.'' \<in> set e then CHR ''.'' # rev (takeWhile (\<lambda>c. c \<noteq> CHR ''.'') (rev e)) else [])"

lemma last_elem_no_slash [simp]: "CHR ''/'' \<notin> set (last_elem s)"
  by (auto simp: last_elem_def dest: set_takeWhileD)

lemma last_elem_id: "CHR ''/'' \<notin> set s \<Longrightarrow> last_elem s = s"
  unfolding last_elem_def by (subst takeWhile_eq_all_conv [THEN iffD2]) auto

lemma path_ext_no_slash [simp]: "CHR ''/'' \<notin> set (path_ext s)"
proof -
  have "set (rev (takeWhile (\<lambda>c. c \<noteq> CHR ''.'') (rev (last_elem s)))) \<subseteq> set (last_elem s)"
    using set_takeWhileD by fastforce
  then show ?thesis using last_elem_no_slash [of s] by (auto simp: path_ext_def Let_def)
qed

text \<open>
  The files of the gateway live below its data directory under cleaned relative paths. Such a
  path is the list of its components; \<open>filepath.Join\<close> of cleaned parts is list append and
  \<open>filepath.Dir\<close> is \<open>butlast\<close>.
\<close>

type_synonym path = "string list"

definition path_of :: "string \<Rightarrow> path" where
  "path_of s = filter (\<lambda>c. c \<noteq> [] \<and> c \<noteq> ''.'') (split_on (CHR ''/'') s)"

definition slash_path :: "path \<Rightarrow> string" where
  "slash_path p = join_with ''/'' p"

definition plain_component :: "string \<Rightarrow> bool" where
  "plain_component c \<longleftrightarrow> c \<noteq> [] \<and> c \<noteq> ''.'' \<and> CHR ''/'' \<notin> set c"

lemma split_on_no_sep: "c \<notin> set s \<Longrightarrow> split_on c s = [s]"
  by (induction s) auto

lemma split_on_sep: "c \<notin> set s \<Longrightarrow> split_on c (s @ c # t) = s # split_on c t"
  by (induction s) auto

lemma split_join: "xs \<noteq> [] \<Longrightarrow> \<forall>x \<in> set xs. c \<notin> set x \<Longrightarrow> split_on c (join_with [c] xs) = xs"
proof (induction xs rule: induct_list012)
  case (2 x)
  then show ?case by (simp add: split_on_no_sep)
next
  case (3 x y zs)
  then show ?case by (simp add: split_on_sep)
qed simp

lemma path_of_slash_path [go_str]:
  assumes "\<forall>x \<in> set p. plain_component x"
  shows "path_of (slash_path p) = p"
proof (cases "p = []")
  case True
  then show ?thesis by (simp add: path_of_def slash_path_def)
next
  case False
  with assms have "split_on (CHR ''/'') (slash_path p) = p"
    unfolding slash_path_def by (intro split_join) (auto simp: plain_component_def)
  moreover have "filter (\<lambda>c. c \<noteq> [] \<and> c \<noteq> ''.'') p = p"
    using assms by (auto simp: plain_component_def filter_id_conv)
  ultimately show ?thesis by (simp add: path_of_def)
qed

section \<open>Generic list and option lemmas\<close>

text \<open>\<open>holds p r\<close>: there is a value and it satisfies \<open>p\<close>.\<close>

fun holds :: "('a \<Rightarrow> bool) \<Rightarrow> 'a option \<Rightarrow> bool" where
  "holds p None = False"
| "holds p (Some x) = p x"

lemma holds_iff: "holds p r \<longleftrightarrow> (\<exists>x. r = Some x \<and> p x)"
  by (cases r) auto

lemma holdsE: "holds p r \<Longrightarrow> (\<And>x. r = Some x \<Longrightarrow> p x \<Longrightarrow> thesis) \<Longrightarrow> thesis"
  by (cases r) auto

lemma find_Some_iff2: "find P xs = Some x \<Longrightarrow> x \<in> set xs \<and> P x"
  by (induction xs) (auto split: if_splits)

lemma find_None_filter: "find P xs = None \<longleftrightarrow> filter P xs = []"
  by (induction xs) auto

lemma find_filter_hd: "find P xs = (case filter P xs of [] \<Rightarrow> None | x # _ \<Rightarrow> Some x)"
  by (induction xs) auto

lemma distinct_map_filter: "distinct (map f xs) \<Longrightarrow> distinct (map f (filter P xs))"
  by (induction xs) auto

lemma find_distinct:
  assumes "distinct (map key xs)" and "x \<in> set xs" and "P x"
    and "\<And>y. P y \<Longrightarrow> key y = key x"
  shows "find P xs = Some x"
  using assms(1,2)
proof (induction xs)
  case (Cons a xs)
  show ?case
  proof (cases "P a")
    case True
    then have "key a = key x" by (rule assms(4))
    with Cons.prems have "a = x" by (auto simp: rev_image_eqI)
    with True show ?thesis by simp
  next
    case False
    with assms(3) have "a \<noteq> x" by auto
    with Cons False show ?thesis by simp
  qed
qed simp

end
