(* ===== verification/Work_Queue.thy ===== *)
theory Work_Queue
  imports Prelude
begin

text \<open>
  The FIFO queues of \<open>internal/workqueue/queue.go\<close>. A call of a Go method that may block is
  modelled by the list of its possible outcomes: the empty list means that the call is blocked,
  two entries mean that a \<open>select\<close> may take either case. The Boolean \<open>cancelled\<close> says whether
  the context passed to the call is done.

  The interface \<open>Queue\<close> of the source is the locale \<open>work_queue\<close>; the bounded queue, the unbounded
  queue and the value that \<open>New\<close> returns interpret it. The blocking protocol inside the
  unbounded \<open>Get\<close> is modelled at the granularity of its critical sections, with any number of
  consumers.
\<close>

section \<open>The two implementations\<close>

record 'a bounded_queue =
  capacity :: nat
  chan_items :: "'a list"

text \<open>
  The \<open>ready\<close> channel of the unbounded queue is replaced at every \<open>Add\<close>: it is modelled by the
  number of channels made so far, channel \<open>g\<close> being closed iff \<open>g < ready\<close>.
\<close>

record 'a unbounded_queue =
  items :: "'a list"
  ready :: nat

definition bounded_Add :: "bool \<Rightarrow> 'a bounded_queue \<Rightarrow> 'a \<Rightarrow> ('a bounded_queue \<times> bool) list" where
  "bounded_Add cancelled q x =
     (if length (chan_items q) < capacity q
      then [(q\<lparr>chan_items := chan_items q @ [x]\<rparr>, True)] else [])
     @ (if cancelled then [(q, False)] else [])"

definition bounded_Get :: "bool \<Rightarrow> 'a bounded_queue \<Rightarrow> ('a bounded_queue \<times> 'a option) list" where
  "bounded_Get cancelled q =
     (if cancelled then [(q, None)] else [])
     @ (case chan_items q of [] \<Rightarrow> [] | x # xs \<Rightarrow> [(q\<lparr>chan_items := xs\<rparr>, Some x)])"

definition newUnboundedQueue :: "'a unbounded_queue" where
  "newUnboundedQueue = \<lparr>items = [], ready = 0\<rparr>"

definition unbounded_Add :: "bool \<Rightarrow> 'a unbounded_queue \<Rightarrow> 'a \<Rightarrow> ('a unbounded_queue \<times> bool) list" where
  "unbounded_Add cancelled q x =
     (if cancelled then [(q, False)]
      else [(q\<lparr>items := items q @ [x], ready := Suc (ready q)\<rparr>, True)])"

text \<open>
  \<open>Get\<close> of the unbounded queue. \<open>get_locked\<close> is the section under the mutex: it pops an item or
  captures the current channel. \<open>get_select\<close> is the \<open>select\<close> that follows: it may quit when the
  context is done, and may go round the loop when the captured channel is closed.
\<close>

datatype 'a locked_result = Popped 'a | Captured nat

definition get_locked :: "'a unbounded_queue \<Rightarrow> 'a unbounded_queue \<times> 'a locked_result" where
  "get_locked q = (case items q of
     x # xs \<Rightarrow> (q\<lparr>items := xs\<rparr>, Popped x)
   | [] \<Rightarrow> (q, Captured (ready q)))"

datatype select_result = QuitSelected | ReadySelected

definition get_select :: "bool \<Rightarrow> 'a unbounded_queue \<Rightarrow> nat \<Rightarrow> select_result list" where
  "get_select cancelled q g =
     (if cancelled then [QuitSelected] else []) @ (if g < ready q then [ReadySelected] else [])"

text \<open>A call of \<open>Get\<close> that runs without interference from other goroutines.\<close>

definition unbounded_Get :: "bool \<Rightarrow> 'a unbounded_queue \<Rightarrow> ('a unbounded_queue \<times> 'a option) list" where
  "unbounded_Get cancelled q = (case get_locked q of
     (q', Popped x) \<Rightarrow> [(q', Some x)]
   | (q', Captured g) \<Rightarrow> map (\<lambda>_. (q', None)) (filter ((=) QuitSelected) (get_select cancelled q' g)))"

text \<open>\<open>New\<close> picks the implementation; the interface value dispatches to it.\<close>

datatype 'a queue = Bounded "'a bounded_queue" | Unbounded "'a unbounded_queue"

definition new_queue :: "int \<Rightarrow> 'a queue" where
  "new_queue cap = (if cap > 0 then Bounded \<lparr>capacity = nat cap, chan_items = []\<rparr>
     else Unbounded newUnboundedQueue)"

fun queue_Add :: "bool \<Rightarrow> 'a queue \<Rightarrow> 'a \<Rightarrow> ('a queue \<times> bool) list" where
  "queue_Add c (Bounded q) x = map (\<lambda>(q', ok). (Bounded q', ok)) (bounded_Add c q x)"
| "queue_Add c (Unbounded q) x = map (\<lambda>(q', ok). (Unbounded q', ok)) (unbounded_Add c q x)"

fun queue_Get :: "bool \<Rightarrow> 'a queue \<Rightarrow> ('a queue \<times> 'a option) list" where
  "queue_Get c (Bounded q) = map (\<lambda>(q', r). (Bounded q', r)) (bounded_Get c q)"
| "queue_Get c (Unbounded q) = map (\<lambda>(q', r). (Unbounded q', r)) (unbounded_Get c q)"

fun contents :: "'a queue \<Rightarrow> 'a list" where
  "contents (Bounded q) = chan_items q"
| "contents (Unbounded q) = items q"

lemmas queue_ops [ops] = bounded_Add_def bounded_Get_def unbounded_Add_def unbounded_Get_def
  get_locked_def get_select_def newUnboundedQueue_def

section \<open>Histories of a queue\<close>

datatype 'a queue_event = Added 'a | Dropped 'a | Got 'a | Quit

fun added :: "'a queue_event list \<Rightarrow> 'a list" where
  "added [] = []"
| "added (Added x # es) = x # added es"
| "added (_ # es) = added es"

fun got :: "'a queue_event list \<Rightarrow> 'a list" where
  "got [] = []"
| "got (Got x # es) = x # got es"
| "got (_ # es) = got es"

lemma added_append [simp]: "added (es @ fs) = added es @ added fs"
  by (induction es rule: added.induct) auto

lemma got_append [simp]: "got (es @ fs) = got es @ got fs"
  by (induction es rule: got.induct) auto

inductive history ::
  "(bool \<Rightarrow> 'q \<Rightarrow> 'a \<Rightarrow> ('q \<times> bool) list) \<Rightarrow> (bool \<Rightarrow> 'q \<Rightarrow> ('q \<times> 'a option) list)
   \<Rightarrow> 'q \<Rightarrow> 'a queue_event list \<Rightarrow> 'q \<Rightarrow> bool"
  for add get where
  none: "history add get q [] q"
| add_ok: "history add get q es q' \<Longrightarrow> (q'', True) \<in> set (add c q' x)
    \<Longrightarrow> history add get q (es @ [Added x]) q''"
| add_drop: "history add get q es q' \<Longrightarrow> (q'', False) \<in> set (add c q' x)
    \<Longrightarrow> history add get q (es @ [Dropped x]) q''"
| get_item: "history add get q es q' \<Longrightarrow> (q'', Some x) \<in> set (get c q')
    \<Longrightarrow> history add get q (es @ [Got x]) q''"
| get_quit: "history add get q es q' \<Longrightarrow> (q'', None) \<in> set (get c q')
    \<Longrightarrow> history add get q (es @ [Quit]) q''"

section \<open>The interface\<close>

locale work_queue =
  fixes add :: "bool \<Rightarrow> 'q \<Rightarrow> 'a \<Rightarrow> ('q \<times> bool) list"
    and get :: "bool \<Rightarrow> 'q \<Rightarrow> ('q \<times> 'a option) list"
    and list :: "'q \<Rightarrow> 'a list"
    and invar :: "'q \<Rightarrow> bool"
  assumes add_accepted: "invar q \<Longrightarrow> (q', True) \<in> set (add c q x) \<Longrightarrow> list q' = list q @ [x] \<and> invar q'"
    and add_rejected: "(q', False) \<in> set (add c q x) \<Longrightarrow> q' = q \<and> c"
    and get_accepted: "invar q \<Longrightarrow> (q', Some x) \<in> set (get c q) \<Longrightarrow> list q = x # list q' \<and> invar q'"
    and get_rejected: "(q', None) \<in> set (get c q) \<Longrightarrow> q' = q \<and> c"
    and get_available: "list q \<noteq> [] \<Longrightarrow> \<exists>q' x. (q', Some x) \<in> set (get c q)"
    and get_cancel: "c \<Longrightarrow> get c q \<noteq> []"
    and add_cancel: "c \<Longrightarrow> add c q x \<noteq> []"
begin

lemma history_fifo:
  assumes "history add get q es q'" and "invar q"
  shows "list q @ added es = got es @ list q' \<and> invar q'"
  using assms
proof (induction rule: history.induct)
  case (add_ok q es q' q'' c x)
  then show ?case using add_accepted [of q' q'' c x] by auto
next
  case (add_drop q es q' q'' c x)
  then show ?case using add_rejected [of q'' c q' x] by auto
next
  case (get_item q es q' q'' x c)
  then show ?case using get_accepted [of q' q'' x c] by auto
next
  case (get_quit q es q' q'' c)
  then show ?case using get_rejected [of q'' c q'] by auto
qed simp

lemma drop_needs_cancel: "(\<And>y. (y, False) \<notin> set (add False q x))"
  using add_rejected by blast

lemma get_total: "c \<or> list q \<noteq> [] \<Longrightarrow> get c q \<noteq> []"
  using get_available [of q c] get_cancel by force

end

lemma list_nonempty_conv: "xs \<noteq> [] \<longleftrightarrow> (\<exists>y ys. y # ys = xs)"
  by (cases xs) auto

lemma Cons_length_le: "y # ys = xs \<Longrightarrow> length xs \<le> n \<Longrightarrow> length ys \<le> n"
  by auto

interpretation bounded: work_queue bounded_Add bounded_Get chan_items
  "\<lambda>q. capacity q = n \<and> length (chan_items q) \<le> n" for n
  by unfold_locales
    (auto simp: ops list_nonempty_conv split: list.splits if_splits dest: Cons_length_le)

interpretation unbounded: work_queue unbounded_Add unbounded_Get items "\<lambda>_. True"
  by unfold_locales (auto simp: ops split: list.splits if_splits)

text \<open>The invariant of a queue made by \<open>New(cap)\<close>: its kind and capacity never change, and a
  bounded queue never holds more than its capacity.\<close>

fun queue_inv :: "int \<Rightarrow> 'a queue \<Rightarrow> bool" where
  "queue_inv cap (Bounded q) \<longleftrightarrow> cap > 0 \<and> capacity q = nat cap \<and> length (chan_items q) \<le> nat cap"
| "queue_inv cap (Unbounded q) \<longleftrightarrow> cap \<le> 0"

interpretation either: work_queue queue_Add queue_Get contents "queue_inv cap" for cap
proof
  fix q q' :: "'a queue" and c x
  show "queue_inv cap q \<Longrightarrow> (q', True) \<in> set (queue_Add c q x) \<Longrightarrow> contents q' = contents q @ [x] \<and> queue_inv cap q'"
    by (cases q) (auto simp: ops split: if_splits)
  show "(q', False) \<in> set (queue_Add c q x) \<Longrightarrow> q' = q \<and> c"
    by (cases q) (auto dest: bounded.add_rejected unbounded.add_rejected)
  show "queue_inv cap q \<Longrightarrow> (q', Some x) \<in> set (queue_Get c q) \<Longrightarrow> contents q = x # contents q' \<and> queue_inv cap q'"
    by (cases q) (auto simp: ops split: if_splits list.splits dest: Cons_length_le)
  show "(q', None) \<in> set (queue_Get c q) \<Longrightarrow> q' = q \<and> c"
    by (cases q) (auto dest: bounded.get_rejected unbounded.get_rejected)
  show "contents q \<noteq> [] \<Longrightarrow> \<exists>q' x. (q', Some x) \<in> set (queue_Get c q)"
    by (cases q) (force simp: ops neq_Nil_conv)+
  show "c \<Longrightarrow> queue_Get c q \<noteq> []"
    by (cases q) (auto simp: ops split: list.splits)
  show "c \<Longrightarrow> queue_Add c q x \<noteq> []"
    by (cases q) (auto simp: ops)
qed

lemma new_queue_empty [simp]: "contents (new_queue cap) = []" "queue_inv cap (new_queue cap)"
  by (simp_all add: new_queue_def newUnboundedQueue_def)

lemma queue_inv_length: "queue_inv cap q \<Longrightarrow> cap > 0 \<Longrightarrow> int (length (contents q)) \<le> cap"
  by (cases q) auto

text \<open>C14. Whatever its capacity, a queue made by \<open>New\<close> hands out the accepted items in the order
  they were accepted, each exactly once: the items handed out so far are a prefix of the items
  accepted so far, and the rest is what the queue still holds. A queue with a positive capacity
  never holds more items than that.\<close>

theorem queue_fifo:
  assumes "history queue_Add queue_Get (new_queue cap) es q"
  shows "added es = got es @ contents q \<and> (cap > 0 \<longrightarrow> int (length (contents q)) \<le> cap)"
  using either.history_fifo [OF assms, of cap] queue_inv_length [of cap q] by simp

theorem queue_fifo_witness:
  "history queue_Add queue_Get (new_queue 2) [Added (7::nat), Added 8, Got 7]
     (Bounded \<lparr>capacity = 2, chan_items = [8]\<rparr>)
   \<and> added [Added (7::nat), Added 8, Got 7] = got [Added 7, Added 8, Got 7] @ [8]
   \<and> int (length (contents (Bounded \<lparr>capacity = 2, chan_items = [8::nat]\<rparr>))) \<le> 2"
proof -
  let ?A = "queue_Add :: bool \<Rightarrow> nat queue \<Rightarrow> _" and ?G = "queue_Get :: bool \<Rightarrow> nat queue \<Rightarrow> _"
  have "history ?A ?G (new_queue 2) ([] @ [Added 7]) (Bounded \<lparr>capacity = 2, chan_items = [7]\<rparr>)"
    by (rule history.add_ok [where c = False, OF history.none]) (simp add: new_queue_def ops)
  then have "history ?A ?G (new_queue 2) (([] @ [Added 7]) @ [Added 8])
      (Bounded \<lparr>capacity = 2, chan_items = [7, 8]\<rparr>)"
    by (rule history.add_ok [where c = False]) (simp add: ops)
  then have h: "history ?A ?G (new_queue 2) ((([] @ [Added 7]) @ [Added 8]) @ [Got 7])
      (Bounded \<lparr>capacity = 2, chan_items = [8]\<rparr>)"
    by (rule history.get_item [where c = False]) (simp add: ops)
  show ?thesis using h queue_fifo [OF h] by simp
qed

section \<open>The blocking protocol of the unbounded queue\<close>

datatype 'a getter = Outside | AtLock | Waiting nat | Returned 'a | QuitLoop

record 'a getters =
  uq :: "'a unbounded_queue"
  pc :: "nat \<Rightarrow> 'a getter"
  stopped :: bool

inductive getter_step :: "'a getters \<Rightarrow> 'a getters \<Rightarrow> bool" where
  producer: "(q', ok) \<in> set (unbounded_Add c (uq s) x) \<Longrightarrow> getter_step s (s\<lparr>uq := q'\<rparr>)"
| cancel: "getter_step s (s\<lparr>stopped := True\<rparr>)"
| enter: "pc s t \<in> {Outside, Returned y, QuitLoop} \<Longrightarrow> getter_step s (s\<lparr>pc := (pc s)(t := AtLock)\<rparr>)"
| pop: "pc s t = AtLock \<Longrightarrow> get_locked (uq s) = (q', Popped x)
    \<Longrightarrow> getter_step s (s\<lparr>uq := q', pc := (pc s)(t := Returned x)\<rparr>)"
| capture: "pc s t = AtLock \<Longrightarrow> get_locked (uq s) = (q', Captured g)
    \<Longrightarrow> getter_step s (s\<lparr>uq := q', pc := (pc s)(t := Waiting g)\<rparr>)"
| wake: "pc s t = Waiting g \<Longrightarrow> ReadySelected \<in> set (get_select (stopped s) (uq s) g)
    \<Longrightarrow> getter_step s (s\<lparr>pc := (pc s)(t := AtLock)\<rparr>)"
| quit: "pc s t = Waiting g \<Longrightarrow> QuitSelected \<in> set (get_select (stopped s) (uq s) g)
    \<Longrightarrow> getter_step s (s\<lparr>pc := (pc s)(t := QuitLoop)\<rparr>)"

definition getters_init :: "'a getters" where
  "getters_init = \<lparr>uq = newUnboundedQueue, pc = (\<lambda>_. Outside), stopped = False\<rparr>"

inductive getters_reach :: "'a getters \<Rightarrow> bool" where
  start: "getters_reach getters_init"
| step: "getters_reach s \<Longrightarrow> getter_step s s' \<Longrightarrow> getters_reach s'"

definition no_lost_wakeup :: "'a getters \<Rightarrow> bool" where
  "no_lost_wakeup s \<longleftrightarrow> (\<forall>t g. pc s t = Waiting g \<longrightarrow>
     g \<le> ready (uq s) \<and> (g = ready (uq s) \<longrightarrow> items (uq s) = []))"

lemma getter_step_wakeup: "getter_step s s' \<Longrightarrow> no_lost_wakeup s \<Longrightarrow> no_lost_wakeup s'"
proof (induction rule: getter_step.induct)
  case (producer q' ok c s x)
  then show ?case by (fastforce simp: no_lost_wakeup_def ops split: if_splits)
next
  case (pop s t q' x)
  then have "\<exists>xs. items (uq s) = x # xs \<and> q' = (uq s)\<lparr>items := xs\<rparr>"
    by (auto simp: get_locked_def split: list.splits)
  with pop show ?case by (fastforce simp: no_lost_wakeup_def)
next
  case (capture s t q' g)
  then have "items (uq s) = [] \<and> q' = uq s \<and> g = ready (uq s)"
    by (auto simp: get_locked_def split: list.splits)
  with capture show ?case by (auto simp: no_lost_wakeup_def)
qed (auto simp: no_lost_wakeup_def)

lemma getters_reach_wakeup: "getters_reach s \<Longrightarrow> no_lost_wakeup s"
proof (induction rule: getters_reach.induct)
  case start
  show ?case by (simp add: no_lost_wakeup_def getters_init_def)
qed (blast intro: getter_step_wakeup)

text \<open>C15. No wake-up is lost in the unbounded queue: in every reachable state with any number of
  consumers, if the queue holds an item then every consumer blocked in \<open>Get\<close> can leave its wait
  and, running alone from there, returns the item at the head of the queue.\<close>

theorem unbounded_no_lost_wakeup:
  assumes "getters_reach s" and "pc s t = Waiting g" and "items (uq s) = x # xs"
  shows "\<exists>s1 s2. getter_step s s1 \<and> getter_step s1 s2 \<and> pc s2 t = Returned x \<and> items (uq s2) = xs"
proof -
  from getters_reach_wakeup [OF assms(1)] assms(2,3) have "g < ready (uq s)"
    by (auto simp: no_lost_wakeup_def le_less)
  then have w: "getter_step s (s\<lparr>pc := (pc s)(t := AtLock)\<rparr>)"
    using assms(2) by (intro getter_step.wake) (auto simp: get_select_def)
  have "getter_step (s\<lparr>pc := (pc s)(t := AtLock)\<rparr>)
     (s\<lparr>pc := (pc s)(t := AtLock), uq := (uq s)\<lparr>items := xs\<rparr>, pc := (pc s)(t := AtLock, t := Returned x)\<rparr>)"
    using getter_step.pop [of "s\<lparr>pc := (pc s)(t := AtLock)\<rparr>" t "(uq s)\<lparr>items := xs\<rparr>" x] assms(3)
    by (simp add: get_locked_def)
  with w show ?thesis
    by (intro exI [of _ "s\<lparr>pc := (pc s)(t := AtLock)\<rparr>"] exI conjI) auto
qed

theorem unbounded_no_lost_wakeup_witness:
  "\<exists>s. getters_reach s \<and> pc s 0 = Waiting 0 \<and> items (uq s) = [5 :: nat] \<and>
     (\<exists>s1 s2. getter_step s s1 \<and> getter_step s1 s2 \<and> pc s2 0 = Returned 5 \<and> items (uq s2) = [])"
proof -
  let ?q = "newUnboundedQueue :: nat unbounded_queue"
  let ?s1 = "getters_init\<lparr>pc := (pc getters_init)(0 := AtLock)\<rparr> :: nat getters"
  let ?s2 = "?s1\<lparr>uq := ?q, pc := (pc ?s1)(0 := Waiting 0)\<rparr>"
  let ?s3 = "?s2\<lparr>uq := \<lparr>items = [5], ready = 1\<rparr>\<rparr>"
  have "getters_reach ?s1"
    by (rule getters_reach.step [OF getters_reach.start]) (rule getter_step.enter, simp add: getters_init_def)
  moreover have "getter_step ?s1 ?s2"
    by (rule getter_step.capture) (simp_all add: getters_init_def ops)
  moreover have "getter_step ?s2 ?s3"
    by (rule getter_step.producer [where c = False and x = 5 and ok = True]) (simp add: ops)
  ultimately have r: "getters_reach ?s3" by (blast intro: getters_reach.step)
  have "pc ?s3 0 = Waiting 0" and "items (uq ?s3) = [5]" by simp_all
  with r unbounded_no_lost_wakeup [OF r, of 0 0 5 "[]"] show ?thesis by blast
qed

end
