(* ===== verification/Errors.thy ===== *)
theory Errors
  imports Prelude
begin

text \<open>
  Go error values and the package \<open>internal/apierror\<close>. An \<open>error\<close> of the source is a value of
  \<open>go_error\<close>: the error types the gateway defines or inspects are constructors, every other error
  of the standard library, the SQLite driver or the renderer is an \<open>Opaque\<close> one, and
  \<open>fmt.Errorf("...: %w", err)\<close> is \<open>Wrapped\<close>, a wrapping error
  with another text \<open>WrappedAs\<close>. \<open>err_is\<close> and \<open>err_as\<close> follow the wrapping chain, as
  \<open>errors.Is\<close> and \<open>errors.As\<close> do.
\<close>

section \<open>API errors\<close>

record api_error =
  err_Status :: int
  err_Code :: string
  err_Message :: string
  err_Param :: string

definition api_New :: "int \<Rightarrow> string \<Rightarrow> string \<Rightarrow> string \<Rightarrow> api_error" where
  "api_New status code message param =
     \<lparr>err_Status = status, err_Code = code, err_Message = message, err_Param = param\<rparr>"

text \<open>The parameter \<open>fmt_g n d\<close> stands for the \<open>%g\<close> rendering of \<open>float64(n)/d\<close>.\<close>

definition FileTooLarge :: "(int \<Rightarrow> int \<Rightarrow> string) \<Rightarrow> int \<Rightarrow> string \<Rightarrow> api_error" where
  "FileTooLarge fmt_g maxBytes param =
     (let display = show_int maxBytes @ '' bytes'' @
        (if maxBytes \<ge> 1024 * 1024 then '' ('' @ fmt_g maxBytes (1024 * 1024) @ '' MiB)''
         else if maxBytes \<ge> 1024 then '' ('' @ fmt_g maxBytes 1024 @ '' KiB)'' else [])
      in api_New 400 ''file_too_large''
           (''File exceeds the configured limit of '' @ display @ ''.'') param)"

definition RequestBodyTooLarge :: "int \<Rightarrow> api_error" where
  "RequestBodyTooLarge maxBytes = api_New 400 ''request_too_large''
     (''Request body exceeds the configured limit of '' @ show_int maxBytes @ '' bytes.'') []"

section \<open>Error values\<close>

datatype go_error =
    Opaque string
  | Canceled
  | DeadlineExceeded
  | NetTimeout string
  | MaxBytesError int
  | OsDeadlineExceeded
  | ApiError api_error
  | PageLimitError int
  | TextLimitError int
  | ValidationError string
  | ErrConverterNotFound
  | RendererPageLimit int
  | RendererCharacterLimit int
  | Wrapped string go_error
  | WrappedAs string go_error

fun root :: "go_error \<Rightarrow> go_error" where
  "root (Wrapped _ e) = root e"
| "root (WrappedAs _ e) = root e"
| "root e = e"

definition err_is :: "go_error \<Rightarrow> go_error \<Rightarrow> bool" where
  "err_is e target \<longleftrightarrow> root e = target"

definition as_api :: "go_error \<Rightarrow> api_error option" where
  "as_api e = (case root e of ApiError a \<Rightarrow> Some a | _ \<Rightarrow> None)"

definition as_page_limit :: "go_error \<Rightarrow> int option" where
  "as_page_limit e = (case root e of PageLimitError n \<Rightarrow> Some n | _ \<Rightarrow> None)"

definition as_text_limit :: "go_error \<Rightarrow> int option" where
  "as_text_limit e = (case root e of TextLimitError n \<Rightarrow> Some n | _ \<Rightarrow> None)"

definition as_validation :: "go_error \<Rightarrow> string option" where
  "as_validation e = (case root e of ValidationError m \<Rightarrow> Some m | _ \<Rightarrow> None)"

definition as_max_bytes :: "go_error \<Rightarrow> int option" where
  "as_max_bytes e = (case root e of MaxBytesError n \<Rightarrow> Some n | _ \<Rightarrow> None)"

text \<open>\<open>context.DeadlineExceeded\<close> implements \<open>net.Error\<close> with \<open>Timeout() = true\<close>.\<close>

definition net_timeout :: "go_error \<Rightarrow> bool" where
  "net_timeout e = (case root e of NetTimeout _ \<Rightarrow> True | DeadlineExceeded \<Rightarrow> True
     | OsDeadlineExceeded \<Rightarrow> True | _ \<Rightarrow> False)"

fun err_text :: "go_error \<Rightarrow> string" where
  "err_text (Opaque m) = m"
| "err_text Canceled = ''context canceled''"
| "err_text DeadlineExceeded = ''context deadline exceeded''"
| "err_text (NetTimeout m) = m"
| "err_text (MaxBytesError _) = ''http: request body too large''"
| "err_text OsDeadlineExceeded = ''i/o timeout''"
| "err_text (ApiError a) = err_Message a"
| "err_text (PageLimitError n) = ''document exceeds the '' @ show_int n @ ''-page limit''"
| "err_text (TextLimitError n) = ''document exceeds the '' @ show_int n @ ''-character text limit''"
| "err_text (ValidationError m) = m"
| "err_text ErrConverterNotFound = ''converter not found''"
| "err_text (RendererPageLimit n) = ''page limit exceeded''"
| "err_text (RendererCharacterLimit n) = ''character limit exceeded''"
| "err_text (Wrapped m e) = m @ err_text e"
| "err_text (WrappedAs m e) = m"

text \<open>Whether a conversion error may succeed when retried (\<open>converter.IsRetryable\<close>).\<close>

definition IsRetryable :: "go_error \<Rightarrow> bool" where
  "IsRetryable e = (if as_page_limit e \<noteq> None then False
     else if as_text_limit e \<noteq> None then False
     else as_validation e = None)"

type_synonym 'a result = "go_error + 'a"

lemma root_not_wrapped [simp]: "root e \<noteq> Wrapped m e'" "root e \<noteq> WrappedAs m e'"
  by (induction e; simp)+

lemma root_idem [simp]: "root (root e) = root e"
  by (induction e) auto

lemma IsRetryable_root: "IsRetryable e = IsRetryable (root e)"
  by (simp add: IsRetryable_def as_page_limit_def as_text_limit_def as_validation_def)

lemma IsRetryable_simps [simp]:
  "IsRetryable (Wrapped m e) = IsRetryable e" "IsRetryable (WrappedAs m e) = IsRetryable e"
  "\<not> IsRetryable (PageLimitError n)" "\<not> IsRetryable (TextLimitError n)"
  "\<not> IsRetryable (ValidationError m)"
  "IsRetryable Canceled" "IsRetryable DeadlineExceeded" "IsRetryable (Opaque m)"
  by (simp_all add: IsRetryable_def as_page_limit_def as_text_limit_def as_validation_def)

end
