(* ===== verification/Store.thy ===== *)
theory Store
  imports Errors
begin

text \<open>
  The SQLite store of \<open>internal/store/store.go\<close>. The table \<open>files\<close> is the list of its rows in
  insertion order. A method takes the table and what the driver answers (\<open>db_fault\<close>): either no
  fault, or the failure of the statement, which then has changed nothing, or a failure while its
  result is read. Writing methods return the new table with their result.

  The locale \<open>file_store\<close> states what the file service relies on, in terms of the row stored under
  an id; the SQL statements of the model interpret it.
\<close>

section \<open>Rows\<close>

record File =
  ID :: string
  TenantID :: string
  Filename :: string
  MediaType :: string
  Purpose :: string
  Bytes :: int
  SHA256 :: string
  Status :: string
  SourcePath :: string
  ManifestPath :: "string option"
  ErrorMessage :: "string option"
  CreatedAt :: int
  ExpiresAt :: int
  DeletedAt :: "int option"

type_synonym table = "File list"

datatype db_fault = NoFault | ExecFault go_error | RowsFault go_error

definition SharedTenantID :: string where
  "SharedTenantID = ''shared''"

text \<open>The condition \<open>deleted_at IS NULL AND (expires_at = 0 OR expires_at > now)\<close>.\<close>

definition live :: "int \<Rightarrow> File \<Rightarrow> bool" where
  "live now f \<longleftrightarrow> DeletedAt f = None \<and> (ExpiresAt f = 0 \<or> ExpiresAt f > now)"

text \<open>\<open>NULLIF(x, '')\<close>.\<close>

definition nullif :: "string \<Rightarrow> string option" where
  "nullif s = (if s = [] then None else Some s)"

text \<open>The \<open>SET\<close> clause of \<open>UpdateStatus\<close>.\<close>

definition set_status :: "string \<Rightarrow> string \<Rightarrow> string \<Rightarrow> File \<Rightarrow> File" where
  "set_status status manifestPath errorMessage f =
     f\<lparr>Status := status, ManifestPath := nullif manifestPath, ErrorMessage := nullif errorMessage\<rparr>"

section \<open>Statements\<close>

definition store_Add :: "db_fault \<Rightarrow> table \<Rightarrow> File \<Rightarrow> table \<times> unit result" where
  "store_Add flt db f = (case flt of
     NoFault \<Rightarrow> if ID f \<in> ID ` set db
       then (db, Inl (Wrapped ''insert file: '' (Opaque ''UNIQUE constraint failed'')))
       else (db @ [f], Inr ())
   | ExecFault e \<Rightarrow> (db, Inl (Wrapped ''insert file: '' e))
   | RowsFault e \<Rightarrow> (db, Inl (Wrapped ''insert file: '' e)))"

text \<open>A query of one row: \<open>sql.ErrNoRows\<close> is the result None, any other failure an error.\<close>

definition query_row :: "string \<Rightarrow> db_fault \<Rightarrow> table \<Rightarrow> (File \<Rightarrow> bool) \<Rightarrow> File option result" where
  "query_row label flt db p = (case flt of
     NoFault \<Rightarrow> Inr (find p db) | ExecFault e \<Rightarrow> Inl (Wrapped label e) | RowsFault e \<Rightarrow> Inl (Wrapped label e))"

definition store_Get :: "db_fault \<Rightarrow> int \<Rightarrow> table \<Rightarrow> string \<Rightarrow> string \<Rightarrow> File option result" where
  "store_Get flt now db i tenant =
     query_row ''get file: '' flt db (\<lambda>f. ID f = i \<and> TenantID f = tenant \<and> live now f)"

definition store_GetInternal :: "db_fault \<Rightarrow> table \<Rightarrow> string \<Rightarrow> File option result" where
  "store_GetInternal flt db i = query_row ''get internal file: '' flt db (\<lambda>f. ID f = i)"

definition store_SourcePaths :: "db_fault \<Rightarrow> table \<Rightarrow> string list result" where
  "store_SourcePaths flt db = (case flt of
     NoFault \<Rightarrow> Inr (map SourcePath db)
   | ExecFault e \<Rightarrow> Inl (Wrapped ''list file source paths: '' e)
   | RowsFault e \<Rightarrow> Inl e)"

text \<open>An \<open>UPDATE\<close> or \<open>DELETE\<close> and the test \<open>count == 1\<close> on the rows it affected.\<close>

definition affect :: "string \<Rightarrow> string \<Rightarrow> db_fault \<Rightarrow> table \<Rightarrow> (File \<Rightarrow> bool) \<Rightarrow> table \<Rightarrow> table \<times> bool result" where
  "affect label rows_label flt db hit db' = (case flt of
     NoFault \<Rightarrow> (db', Inr (length (filter hit db) = 1))
   | ExecFault e \<Rightarrow> (db, Inl (Wrapped label e))
   | RowsFault e \<Rightarrow> (db', Inl (Wrapped rows_label e)))"

definition store_UpdateStatus ::
  "db_fault \<Rightarrow> table \<Rightarrow> string \<Rightarrow> string \<Rightarrow> string \<Rightarrow> string \<Rightarrow> table \<times> bool result" where
  "store_UpdateStatus flt db i status manifestPath errorMessage =
     (let hit = (\<lambda>f. ID f = i \<and> DeletedAt f = None)
      in affect ''update file status: '' ''update file status rows: '' flt db hit
        (map (\<lambda>f. if hit f then set_status status manifestPath errorMessage f else f) db))"

definition set_deleted :: "int \<Rightarrow> File \<Rightarrow> File" where
  "set_deleted now f = f\<lparr>DeletedAt := Some now\<rparr>"

definition store_MarkDeleted :: "db_fault \<Rightarrow> int \<Rightarrow> table \<Rightarrow> string \<Rightarrow> string \<Rightarrow> table \<times> bool result" where
  "store_MarkDeleted flt now db i tenant =
     (let hit = (\<lambda>f. ID f = i \<and> TenantID f = tenant \<and> DeletedAt f = None)
      in affect ''mark file deleted: '' ''mark file deleted rows: '' flt db hit
        (map (\<lambda>f. if hit f then set_deleted now f else f) db))"

definition store_Delete :: "db_fault \<Rightarrow> table \<Rightarrow> string \<Rightarrow> string \<Rightarrow> table \<times> bool result" where
  "store_Delete flt db i tenant =
     (let hit = (\<lambda>f. ID f = i \<and> TenantID f = tenant)
      in affect ''delete file: '' [] flt db hit (filter (\<lambda>f. \<not> hit f) db))"

definition store_ConsolidateTenants :: "db_fault \<Rightarrow> table \<Rightarrow> table \<times> unit result" where
  "store_ConsolidateTenants flt db = (case flt of
     NoFault \<Rightarrow> (map (\<lambda>f. if TenantID f \<noteq> SharedTenantID then f\<lparr>TenantID := SharedTenantID\<rparr> else f) db, Inr ())
   | ExecFault e \<Rightarrow> (db, Inl (Wrapped ''consolidate file tenants: '' e))
   | RowsFault e \<Rightarrow> (db, Inl (Wrapped ''consolidate file tenants: '' e)))"

definition pending :: "int \<Rightarrow> File \<Rightarrow> bool" where
  "pending now f \<longleftrightarrow> (Status f = ''uploaded'' \<or> Status f = ''processing'') \<and> live now f"

definition store_Pending :: "db_fault \<Rightarrow> int \<Rightarrow> table \<Rightarrow> string list result" where
  "store_Pending flt now db = (case flt of
     NoFault \<Rightarrow> Inr (map ID (filter (pending now) db))
   | ExecFault e \<Rightarrow> Inl e | RowsFault e \<Rightarrow> Inl e)"

definition expired :: "int \<Rightarrow> File \<Rightarrow> bool" where
  "expired now f \<longleftrightarrow> DeletedAt f \<noteq> None \<or> (ExpiresAt f > 0 \<and> ExpiresAt f \<le> now)"

definition store_Expired :: "db_fault \<Rightarrow> int \<Rightarrow> table \<Rightarrow> File list result" where
  "store_Expired flt now db = (case flt of
     NoFault \<Rightarrow> Inr (filter (expired now) db)
   | ExecFault e \<Rightarrow> Inl (Wrapped ''list expired files: '' e) | RowsFault e \<Rightarrow> Inl e)"

text \<open>
  \<open>List\<close>: the key \<open>(created_at, id)\<close> orders the rows; SQLite compares \<open>id\<close> byte by byte, as the
  lexicographic order on byte strings does. A negative \<open>LIMIT\<close> would mean no limit.
\<close>

definition list_key :: "File \<Rightarrow> int \<times> string" where
  "list_key f = (CreatedAt f, ID f)"

definition order_rows :: "string \<Rightarrow> File list \<Rightarrow> File list" where
  "order_rows order rows =
     (if order = ''asc'' then sort_key list_key rows else rev (sort_key list_key rows))"

definition past_cursor :: "string \<Rightarrow> File option \<Rightarrow> File \<Rightarrow> bool" where
  "past_cursor order cursor f = (case cursor of None \<Rightarrow> True
     | Some c \<Rightarrow> if order = ''asc''
         then CreatedAt f > CreatedAt c \<or> (CreatedAt f = CreatedAt c \<and> ID f > ID c)
         else CreatedAt f < CreatedAt c \<or> (CreatedAt f = CreatedAt c \<and> ID f < ID c))"

definition listable :: "int \<Rightarrow> string \<Rightarrow> string \<Rightarrow> File \<Rightarrow> bool" where
  "listable now tenant purpose f \<longleftrightarrow>
     TenantID f = tenant \<and> live now f \<and> (purpose = [] \<or> Purpose f = purpose)"

definition limit_rows :: "int \<Rightarrow> File list \<Rightarrow> File list" where
  "limit_rows limit rows = (if limit < 0 then rows else take (nat limit) rows)"

definition store_List ::
  "db_fault \<Rightarrow> db_fault \<Rightarrow> int \<Rightarrow> table \<Rightarrow> string \<Rightarrow> string \<Rightarrow> int \<Rightarrow> string \<Rightarrow> string \<Rightarrow> File list result" where
  "store_List cursor_flt flt now db tenant purpose limit order after =
     (case (if after = [] then Inr None
            else query_row ''get list cursor: '' cursor_flt db (\<lambda>f. ID f = after \<and> TenantID f = tenant)) of
        Inl e \<Rightarrow> Inl e
      | Inr cursor \<Rightarrow>
          (case flt of
             NoFault \<Rightarrow> Inr (limit_rows limit (order_rows order
               (filter (\<lambda>f. listable now tenant purpose f \<and> past_cursor order cursor f) db)))
           | ExecFault e \<Rightarrow> Inl (Wrapped ''list files: '' e)
           | RowsFault e \<Rightarrow> Inl e))"

section \<open>The row of an id\<close>

definition row :: "table \<Rightarrow> string \<Rightarrow> File option" where
  "row db i = find (\<lambda>f. ID f = i) db"

definition db_inv :: "table \<Rightarrow> bool" where
  "db_inv db \<longleftrightarrow> distinct (map ID db)"

lemma row_SomeD: "row db i = Some f \<Longrightarrow> f \<in> set db \<and> ID f = i"
  unfolding row_def by (drule find_Some_iff2) auto

lemma row_None_iff: "row db i = None \<longleftrightarrow> i \<notin> ID ` set db"
  by (auto simp: row_def find_None_iff)

lemma row_SomeI: "db_inv db \<Longrightarrow> f \<in> set db \<Longrightarrow> row db (ID f) = Some f"
  unfolding row_def db_inv_def by (rule find_distinct [where key = ID]) auto

lemma row_Some_iff: "db_inv db \<Longrightarrow> row db i = Some f \<longleftrightarrow> f \<in> set db \<and> ID f = i"
  using row_SomeD row_SomeI by blast

lemma db_inv_unique: "db_inv db \<Longrightarrow> f \<in> set db \<Longrightarrow> g \<in> set db \<Longrightarrow> ID f = ID g \<Longrightarrow> f = g"
  by (metis row_SomeI option.inject)

lemma row_map:
  assumes "\<And>f. ID (g f) = ID f"
  shows "row (map g db) i = map_option g (row db i)"
  unfolding row_def by (induction db) (auto simp: assms)

lemma row_append: "row (db @ [f]) i = (case row db i of Some g \<Rightarrow> Some g | None \<Rightarrow> if ID f = i then Some f else None)"
  unfolding row_def by (induction db) auto

lemma row_Cons: "row (a # db) i = (if ID a = i then Some a else row db i)"
  by (simp add: row_def)

lemma row_filter:
  assumes "db_inv db"
  shows "row (filter p db) i = (case row db i of Some f \<Rightarrow> if p f then Some f else None | None \<Rightarrow> None)"
  using assms
proof (induction db)
  case Nil
  then show ?case by (simp add: row_def)
next
  case (Cons a db)
  then have IH: "row (filter p db) i = (case row db i of Some f \<Rightarrow> if p f then Some f else None | None \<Rightarrow> None)"
    and new: "ID a = i \<Longrightarrow> row db i = None"
    by (auto simp: db_inv_def row_None_iff)
  show ?case using IH new by (auto simp: row_Cons)
qed

lemma filter_key_le_one:
  "distinct (map key xs) \<Longrightarrow> (\<And>x. hit x \<Longrightarrow> key x = k) \<Longrightarrow> length (filter hit xs) \<le> 1"
proof (induction xs)
  case (Cons a xs)
  show ?case
  proof (cases "hit a")
    case True
    then have "key a = k" by (rule Cons.prems)
    then have "\<forall>x \<in> set xs. \<not> hit x"
      using Cons.prems by (metis distinct.simps(2) image_eqI list.set_map list.simps(9))
    then have "filter hit xs = []" by simp
    with True show ?thesis by simp
  next
    case False
    with Cons show ?thesis by simp
  qed
qed simp

lemma count_one:
  assumes "db_inv db" and "\<And>f. hit f \<Longrightarrow> ID f = i"
  shows "length (filter hit db) = 1 \<longleftrightarrow> holds hit (row db i)"
proof -
  have le: "length (filter hit db) \<le> 1"
    using assms by (intro filter_key_le_one [where key = ID and k = i]) (auto simp: db_inv_def)
  have "length (filter hit db) = 1 \<longleftrightarrow> filter hit db \<noteq> []"
    using le by (cases "filter hit db") auto
  also have "\<dots> \<longleftrightarrow> (\<exists>f \<in> set db. hit f)"
    by (auto simp: filter_empty_conv)
  also have "\<dots> \<longleftrightarrow> holds hit (row db i)"
    using assms by (auto simp: row_Some_iff holds_iff)
  finally show ?thesis .
qed

section \<open>The contract of the store\<close>

lemma set_status_simps [simp]:
  "ID (set_status s m e f) = ID f" "TenantID (set_status s m e f) = TenantID f"
  "DeletedAt (set_status s m e f) = DeletedAt f" "Status (set_status s m e f) = s"
  "SourcePath (set_status s m e f) = SourcePath f" "ManifestPath (set_status s m e f) = nullif m"
  "ErrorMessage (set_status s m e f) = nullif e" "ExpiresAt (set_status s m e f) = ExpiresAt f"
  "CreatedAt (set_status s m e f) = CreatedAt f" "live now (set_status s m e f) = live now f"
  by (simp_all add: set_status_def live_def)

lemma set_deleted_simps [simp]:
  "ID (set_deleted n f) = ID f" "TenantID (set_deleted n f) = TenantID f"
  "DeletedAt (set_deleted n f) = Some n" "Status (set_deleted n f) = Status f"
  "SourcePath (set_deleted n f) = SourcePath f" "ManifestPath (set_deleted n f) = ManifestPath f"
  "\<not> live now (set_deleted n f)"
  by (simp_all add: set_deleted_def live_def)

text \<open>What a write has done to the row of \<open>i\<close>: \<open>step\<close> where the statement hit it. The third
  argument of \<open>wrote\<close> says whether the statement was executed, which a failure while reading the
  count of affected rows does not tell.\<close>

definition wrote :: "(File \<Rightarrow> bool) \<Rightarrow> (File \<Rightarrow> File option) \<Rightarrow> bool \<Rightarrow> File option \<Rightarrow> File option" where
  "wrote hit step executed r = (case r of
     Some f \<Rightarrow> if executed \<and> hit f then step f else Some f | None \<Rightarrow> None)"

definition executed :: "db_fault \<Rightarrow> bool" where
  "executed flt = (case flt of NoFault \<Rightarrow> True | ExecFault _ \<Rightarrow> False | RowsFault _ \<Rightarrow> True)"

locale file_store =
  fixes at :: "'db \<Rightarrow> string \<Rightarrow> File option"
    and inv :: "'db \<Rightarrow> bool"
    and add :: "db_fault \<Rightarrow> 'db \<Rightarrow> File \<Rightarrow> 'db \<times> unit result"
    and update :: "db_fault \<Rightarrow> 'db \<Rightarrow> string \<Rightarrow> string \<Rightarrow> string \<Rightarrow> string \<Rightarrow> 'db \<times> bool result"
    and mark :: "db_fault \<Rightarrow> int \<Rightarrow> 'db \<Rightarrow> string \<Rightarrow> string \<Rightarrow> 'db \<times> bool result"
    and delete :: "db_fault \<Rightarrow> 'db \<Rightarrow> string \<Rightarrow> string \<Rightarrow> 'db \<times> bool result"
  assumes add_inv: "inv db \<Longrightarrow> inv (fst (add flt db f))"
    and add_at: "inv db \<Longrightarrow> at (fst (add flt db f)) i =
      (if snd (add flt db f) = Inr () \<and> ID f = i then Some f else at db i)"
    and add_fresh: "inv db \<Longrightarrow> snd (add flt db f) = Inr () \<Longrightarrow> at db (ID f) = None"
    and update_inv: "inv db \<Longrightarrow> inv (fst (update flt db i s m e))"
    and update_at: "inv db \<Longrightarrow> at (fst (update flt db i s m e)) j =
      wrote (\<lambda>f. j = i \<and> DeletedAt f = None) (\<lambda>f. Some (set_status s m e f)) (executed flt) (at db j)"
    and update_result: "inv db \<Longrightarrow> snd (update flt db i s m e) = Inr b \<Longrightarrow>
      flt = NoFault \<and> b = holds (\<lambda>f. DeletedAt f = None) (at db i)"
    and mark_inv: "inv db \<Longrightarrow> inv (fst (mark flt now db i t))"
    and mark_at: "inv db \<Longrightarrow> at (fst (mark flt now db i t)) j =
      wrote (\<lambda>f. j = i \<and> TenantID f = t \<and> DeletedAt f = None)
        (\<lambda>f. Some (set_deleted now f)) (executed flt) (at db j)"
    and mark_result: "inv db \<Longrightarrow> snd (mark flt now db i t) = Inr b \<Longrightarrow>
      flt = NoFault \<and> b = holds (\<lambda>f. TenantID f = t \<and> DeletedAt f = None) (at db i)"
    and delete_inv: "inv db \<Longrightarrow> inv (fst (delete flt db i t))"
    and delete_at: "inv db \<Longrightarrow> at (fst (delete flt db i t)) j =
      wrote (\<lambda>f. j = i \<and> TenantID f = t) (\<lambda>f. None) (executed flt) (at db j)"
    and delete_result: "inv db \<Longrightarrow> snd (delete flt db i t) = Inr b \<Longrightarrow>
      flt = NoFault \<and> b = holds (\<lambda>f. TenantID f = t) (at db i)"
begin

text \<open>The row of \<open>i\<close> is gone or logically deleted.\<close>

lemma update_keeps_gone:
  assumes "inv db" and "\<not> holds (\<lambda>f. DeletedAt f = None) (at db i)"
  shows "at (fst (update flt db j s m e)) i = at db i"
  using assms by (cases "at db i") (auto simp: update_at wrote_def)

lemma mark_keeps_gone:
  assumes "inv db" and "\<not> holds (\<lambda>f. DeletedAt f = None) (at db i)"
  shows "at (fst (mark flt now db j t)) i = at db i"
  using assms by (cases "at db i") (auto simp: mark_at wrote_def)

lemma delete_keeps_gone:
  assumes "inv db" and "\<not> holds (\<lambda>f. DeletedAt f = None) (at db i)"
  shows "at (fst (delete flt db j t)) i \<in> {at db i, None}"
  using assms by (cases "at db i") (auto simp: delete_at wrote_def)

lemma mark_marks:
  assumes "inv db" and "snd (mark flt now db i t) = Inr True"
  shows "holds (\<lambda>f. DeletedAt f = Some now) (at (fst (mark flt now db i t)) i)"
  using mark_result [OF assms] assms(1) by (auto simp: mark_at wrote_def executed_def elim: holdsE)

lemma delete_other_tenant:
  assumes "inv db" and "at db i = Some f" and "TenantID f \<noteq> t"
  shows "at (fst (delete flt db j t)) i = Some f" and "at (fst (mark flt now db j t)) i = Some f"
  using assms by (auto simp: delete_at mark_at wrote_def)

end

lemma affect_fst: "fst (affect l l' flt db hit db') = (if executed flt then db' else db)"
  by (simp add: affect_def executed_def split: db_fault.splits)

lemma affect_snd: "snd (affect l l' flt db hit db') = Inr b \<longleftrightarrow>
   flt = NoFault \<and> b = (length (filter hit db) = 1)"
  by (auto simp: affect_def split: db_fault.splits)

lemma db_inv_map: "(\<And>f. ID (g f) = ID f) \<Longrightarrow> db_inv (map g db) = db_inv db"
  by (simp add: db_inv_def comp_def)

lemmas store_writes = store_Add_def store_UpdateStatus_def store_MarkDeleted_def store_Delete_def

lemma store_Add_fst: "fst (store_Add flt db f) = (if flt = NoFault \<and> row db (ID f) = None then db @ [f] else db)"
  by (simp add: store_Add_def row_None_iff split: db_fault.splits)

lemma store_Add_snd: "snd (store_Add flt db f) = Inr () \<longleftrightarrow> flt = NoFault \<and> row db (ID f) = None"
  by (simp add: store_Add_def row_None_iff split: db_fault.splits)

interpretation sql: file_store row db_inv store_Add store_UpdateStatus store_MarkDeleted store_Delete
proof
  fix db flt f i j s m e b now t
  assume inv: "db_inv db"
  show "db_inv (fst (store_Add flt db f))"
    using inv by (auto simp: store_Add_fst db_inv_def row_None_iff)
  show "row (fst (store_Add flt db f)) i =
      (if snd (store_Add flt db f) = Inr () \<and> ID f = i then Some f else row db i)"
    by (auto simp: store_Add_fst store_Add_snd row_append split: option.splits)
  show "snd (store_Add flt db f) = Inr () \<Longrightarrow> row db (ID f) = None"
    by (simp add: store_Add_snd)
  show "db_inv (fst (store_UpdateStatus flt db i s m e))"
    using inv by (simp add: store_UpdateStatus_def Let_def affect_fst db_inv_map)
  show "row (fst (store_UpdateStatus flt db i s m e)) j =
      wrote (\<lambda>f. j = i \<and> DeletedAt f = None) (\<lambda>f. Some (set_status s m e f)) (executed flt) (row db j)"
    by (auto simp: store_UpdateStatus_def Let_def affect_fst row_map wrote_def dest: row_SomeD split: option.splits)
  show "snd (store_UpdateStatus flt db i s m e) = Inr b \<Longrightarrow>
      flt = NoFault \<and> b = holds (\<lambda>f. DeletedAt f = None) (row db i)"
    using count_one [OF inv, of "\<lambda>f. ID f = i \<and> DeletedAt f = None" i]
    by (cases "row db i") (auto simp: store_UpdateStatus_def Let_def affect_snd dest: row_SomeD)
  show "db_inv (fst (store_MarkDeleted flt now db i t))"
    using inv by (simp add: store_MarkDeleted_def Let_def affect_fst db_inv_map)
  show "row (fst (store_MarkDeleted flt now db i t)) j =
      wrote (\<lambda>f. j = i \<and> TenantID f = t \<and> DeletedAt f = None)
        (\<lambda>f. Some (set_deleted now f)) (executed flt) (row db j)"
    by (auto simp: store_MarkDeleted_def Let_def affect_fst row_map wrote_def dest: row_SomeD split: option.splits)
  show "snd (store_MarkDeleted flt now db i t) = Inr b \<Longrightarrow>
      flt = NoFault \<and> b = holds (\<lambda>f. TenantID f = t \<and> DeletedAt f = None) (row db i)"
    using count_one [OF inv, of "\<lambda>f. ID f = i \<and> TenantID f = t \<and> DeletedAt f = None" i]
    by (cases "row db i") (auto simp: store_MarkDeleted_def Let_def affect_snd dest: row_SomeD)
  show "db_inv (fst (store_Delete flt db i t))"
    using inv by (simp add: store_Delete_def Let_def affect_fst db_inv_def distinct_map_filter)
  show "row (fst (store_Delete flt db i t)) j =
      wrote (\<lambda>f. j = i \<and> TenantID f = t) (\<lambda>f. None) (executed flt) (row db j)"
    using inv by (auto simp: store_Delete_def Let_def affect_fst row_filter wrote_def dest: row_SomeD split: option.splits)
  show "snd (store_Delete flt db i t) = Inr b \<Longrightarrow>
      flt = NoFault \<and> b = holds (\<lambda>f. TenantID f = t) (row db i)"
    using count_one [OF inv, of "\<lambda>f. ID f = i \<and> TenantID f = t" i]
    by (cases "row db i") (auto simp: store_Delete_def Let_def affect_snd dest: row_SomeD)
qed

lemma find_at_row:
  assumes "db_inv db"
  shows "find (\<lambda>f. ID f = i \<and> p f) db = (case row db i of Some f \<Rightarrow> if p f then Some f else None | None \<Rightarrow> None)"
proof (cases "find (\<lambda>f. ID f = i \<and> p f) db")
  case None
  then show ?thesis by (auto simp: find_None_iff dest!: row_SomeD split: option.splits)
next
  case (Some g)
  then have "g \<in> set db" "ID g = i" "p g" by (auto dest: find_Some_iff2)
  with assms have "row db i = Some g" by (simp add: row_Some_iff)
  with Some \<open>p g\<close> show ?thesis by simp
qed

lemma store_Get_row:
  "db_inv db \<Longrightarrow> store_Get NoFault now db i t =
     Inr (case row db i of Some f \<Rightarrow> if TenantID f = t \<and> live now f then Some f else None | None \<Rightarrow> None)"
  using find_at_row [of db i "\<lambda>f. TenantID f = t \<and> live now f"] by (simp add: store_Get_def query_row_def)

lemma store_Get_Some:
  "store_Get flt now db i t = Inr (Some f) \<Longrightarrow> f \<in> set db \<and> ID f = i \<and> TenantID f = t \<and> live now f"
  by (auto simp: store_Get_def query_row_def split: db_fault.splits dest: find_Some_iff2)

lemma store_GetInternal_row: "store_GetInternal NoFault db i = Inr (row db i)"
  by (simp add: store_GetInternal_def query_row_def row_def)

section \<open>Histories of the table\<close>

text \<open>Any sequence of the writing methods, with any faults, that never inserts the id \<open>i\<close>.\<close>

inductive store_run :: "string \<Rightarrow> table \<Rightarrow> table \<Rightarrow> bool" for i where
  refl: "store_run i db db"
| add: "store_run i db db' \<Longrightarrow> ID f \<noteq> i \<Longrightarrow> store_run i db (fst (store_Add flt db' f))"
| update: "store_run i db db' \<Longrightarrow> store_run i db (fst (store_UpdateStatus flt db' j s m e))"
| mark: "store_run i db db' \<Longrightarrow> store_run i db (fst (store_MarkDeleted flt now db' j t))"
| delete: "store_run i db db' \<Longrightarrow> store_run i db (fst (store_Delete flt db' j t))"

definition gone :: "table \<Rightarrow> string \<Rightarrow> bool" where
  "gone db i \<longleftrightarrow> \<not> holds (\<lambda>f. DeletedAt f = None) (row db i)"

lemma store_run_inv: "store_run i db db' \<Longrightarrow> db_inv db \<Longrightarrow> db_inv db'"
  by (induction rule: store_run.induct) (blast intro: sql.add_inv sql.update_inv sql.mark_inv sql.delete_inv)+

lemma store_run_gone: "store_run i db db' \<Longrightarrow> db_inv db \<Longrightarrow> gone db i \<Longrightarrow> gone db' i"
proof (induction rule: store_run.induct)
  case (add db db' f flt)
  then show ?case using store_run_inv [OF add.hyps(1)] by (simp add: gone_def sql.add_at)
next
  case (update db db' flt j s m e)
  then show ?case using store_run_inv [OF update.hyps(1)] sql.update_keeps_gone [of db' i flt j s m e]
    by (simp add: gone_def)
next
  case (mark db db' flt now j t)
  then show ?case using store_run_inv [OF mark.hyps(1)] sql.mark_keeps_gone [of db' i flt now j t]
    by (simp add: gone_def)
next
  case (delete db db' flt j t)
  then show ?case using store_run_inv [OF delete.hyps(1)] sql.delete_keeps_gone [of db' i flt j t]
    by (auto simp: gone_def)
qed simp

lemma gone_invisible: "db_inv db \<Longrightarrow> gone db i \<Longrightarrow> store_Get NoFault now db i t = Inr None"
  by (cases "row db i") (auto simp: store_Get_row gone_def live_def)

text \<open>C12. Once \<open>MarkDeleted\<close> has reported that it marked a file, no later sequence of status
  updates, deletions, markings and insertions of other files, whatever faults the database has,
  makes the file visible again, to any tenant, at any time; and no status update reports success
  on it.\<close>

theorem no_resurrection:
  assumes "db_inv db" and "store_MarkDeleted flt now db i tenant = (db1, Inr True)"
    and "store_run i db1 db2"
  shows "store_Get NoFault now' db2 i tenant' = Inr None
    \<and> snd (store_UpdateStatus flt' db2 i status manifest msg) \<noteq> Inr True"
proof -
  have inv1: "db_inv db1" using sql.mark_inv [OF assms(1)] assms(2) by (metis fst_conv)
  have "holds (\<lambda>f. DeletedAt f = Some now) (row db1 i)"
    using sql.mark_marks [OF assms(1), of flt now i tenant] unfolding assms(2) by simp
  then have "gone db1 i" by (cases "row db1 i") (simp_all add: gone_def)
  then have g: "gone db2 i" by (rule store_run_gone [OF assms(3) inv1])
  have inv2: "db_inv db2" using store_run_inv [OF assms(3) inv1] .
  show ?thesis
    using gone_invisible [OF inv2 g] sql.update_result [OF inv2, of flt' i status manifest msg True] g
    by (auto simp: gone_def)
qed

definition sample_file :: File where
  "sample_file = \<lparr>ID = ''file_a'', TenantID = ''shared'', Filename = ''a.txt'', MediaType = ''text/plain'',
     Purpose = ''user_data'', Bytes = 5, SHA256 = ''00'', Status = ''uploaded'',
     SourcePath = ''files/shared/file_a/source.txt'', ManifestPath = None, ErrorMessage = None,
     CreatedAt = 100, ExpiresAt = 400, DeletedAt = None\<rparr>"

theorem no_resurrection_witness:
  "db_inv [sample_file]
   \<and> store_Get NoFault 200 [sample_file] ''file_a'' ''shared'' = Inr (Some sample_file)
   \<and> store_Get NoFault 200 (fst (store_UpdateStatus NoFault
        (fst (store_MarkDeleted NoFault 200 [sample_file] ''file_a'' ''shared''))
        ''file_a'' ''processed'' ''m'' [])) ''file_a'' ''shared'' = Inr None"
proof -
  have inv: "db_inv [sample_file]" by (simp add: db_inv_def)
  have mark: "store_MarkDeleted NoFault 200 [sample_file] ''file_a'' ''shared''
      = ([set_deleted 200 sample_file], Inr True)"
    by (simp add: store_MarkDeleted_def affect_def sample_file_def)
  have run: "store_run ''file_a'' [set_deleted 200 sample_file]
      (fst (store_UpdateStatus NoFault [set_deleted 200 sample_file] ''file_a'' ''processed'' ''m'' []))"
    by (rule store_run.update [OF store_run.refl])
  show ?thesis
    using inv no_resurrection [OF inv mark run, of 200 "''shared''" NoFault "[]" "[]" "[]"] mark
    by (simp add: store_Get_row) (simp add: sample_file_def row_def live_def set_deleted_def)
qed

text \<open>C13. Tenants are isolated: reads with a tenant id only return live rows of that tenant, and
  writes with a tenant id leave every row of another tenant as it was, whatever faults occur.\<close>

theorem tenant_isolation:
  assumes "db_inv db" and "row db i = Some f" and "TenantID f \<noteq> t"
  shows "store_Get flt now db i t \<noteq> Inr (Some g)
    \<and> (\<forall>fs. store_List cflt flt now db t purpose limit order after = Inr fs \<longrightarrow> f \<notin> set fs)
    \<and> row (fst (store_MarkDeleted flt now db j t)) i = Some f
    \<and> row (fst (store_Delete flt db j t)) i = Some f"
proof (intro conjI)
  show "store_Get flt now db i t \<noteq> Inr (Some g)"
  proof
    assume "store_Get flt now db i t = Inr (Some g)"
    then have "g \<in> set db" "ID g = i" "TenantID g = t" by (auto dest: store_Get_Some)
    with assms show False by (auto simp: row_Some_iff dest: db_inv_unique)
  qed
  show "\<forall>fs. store_List cflt flt now db t purpose limit order after = Inr fs \<longrightarrow> f \<notin> set fs"
    using assms(3) by (auto simp: store_List_def limit_rows_def order_rows_def listable_def
        split: sum.splits db_fault.splits if_splits dest!: in_set_takeD)
qed (use sql.delete_other_tenant [OF assms] in auto)

theorem tenant_isolation_witness:
  "row [sample_file] ''file_a'' = Some sample_file
   \<and> store_Get NoFault 200 [sample_file] ''file_a'' ''other'' \<noteq> Inr (Some sample_file)
   \<and> row (fst (store_Delete NoFault [sample_file] ''file_a'' ''other'')) ''file_a'' = Some sample_file"
proof -
  have inv: "db_inv [sample_file]" by (simp add: db_inv_def)
  have r: "row [sample_file] ''file_a'' = Some sample_file" by (simp add: row_def sample_file_def)
  have t: "TenantID sample_file \<noteq> ''other''" by (simp add: sample_file_def)
  show ?thesis using r tenant_isolation [OF inv r t] by blast
qed

end
