(* ===== verification/Lifecycle.thy ===== *)
theory Lifecycle
  imports Work_Queue Store
begin

text \<open>
  The concurrency of \<open>internal/files/service.go\<close>: the registers of in-flight conversions, read leases
  and deletions, their operations, and the goroutines that use them (uploads, readers, \<open>Delete\<close>, the
  janitor, the conversion workers, the retry timers), interleaved at the granularity of the critical
  sections and of the single calls of the store and the file system.

  A Go pointer (\<open>*fileLifecycle\<close>, \<open>*fileLease\<close>, a channel) is a number into a heap; \<open>next_handle\<close>
  numbers the objects made so far. A \<open>done\<close> channel is the Boolean that says whether it is closed.
\<close>

section \<open>The registers\<close>

record fileLifecycle =
  active :: bool
  lc_done :: bool
  lc_cancelled :: bool

record fileLease =
  refs :: int
  lease_done :: bool
  closed :: bool

record registers =
  conversions :: "string \<Rightarrow> nat option"
  leases :: "string \<Rightarrow> nat option"
  deleting :: "string \<Rightarrow> nat option"
  lifecycle_at :: "nat \<Rightarrow> fileLifecycle"
  lease_at :: "nat \<Rightarrow> fileLease"
  next_handle :: nat

definition no_lifecycle :: fileLifecycle where
  "no_lifecycle = \<lparr>active = False, lc_done = True, lc_cancelled = False\<rparr>"

definition no_lease :: fileLease where
  "no_lease = \<lparr>refs = 0, lease_done = True, closed = True\<rparr>"

definition registers_init :: registers where
  "registers_init = \<lparr>conversions = (\<lambda>_. None), leases = (\<lambda>_. None), deleting = (\<lambda>_. None),
     lifecycle_at = (\<lambda>_. no_lifecycle), lease_at = (\<lambda>_. no_lease), next_handle = 0\<rparr>"

text \<open>\<open>acquireLease\<close> returns the lease that the release function captures.\<close>

definition acquireLease :: "registers \<Rightarrow> string \<Rightarrow> registers \<times> nat result" where
  "acquireLease r i =
     (if deleting r i \<noteq> None then (r, Inl (Opaque ''file is being deleted''))
      else let (r1, h) = (case leases r i of
             Some h \<Rightarrow> (r, h)
           | None \<Rightarrow> (let h = next_handle r in
               (r\<lparr>lease_at := (lease_at r)(h := \<lparr>refs = 0, lease_done = False, closed = False\<rparr>),
                  leases := (leases r)(i := Some h), next_handle := Suc h\<rparr>, h)))
        in (r1\<lparr>lease_at := (lease_at r1)(h := (lease_at r1 h)\<lparr>refs := refs (lease_at r1 h) + 1\<rparr>)\<rparr>, Inr h))"

definition releaseLease :: "registers \<Rightarrow> string \<Rightarrow> nat \<Rightarrow> registers" where
  "releaseLease r i h =
     (let l = (lease_at r h)\<lparr>refs := refs (lease_at r h) - 1\<rparr>
      in if refs l = 0 \<and> \<not> closed l
         then r\<lparr>lease_at := (lease_at r)(h := l\<lparr>closed := True, lease_done := True\<rparr>),
                leases := (leases r)(i := None)\<rparr>
         else r\<lparr>lease_at := (lease_at r)(h := l)\<rparr>)"

text \<open>\<open>waitForLease\<close>: the lookup, the check under the lease's own mutex, and the wait for \<open>done\<close>.\<close>

definition waitForLease_lookup :: "registers \<Rightarrow> string \<Rightarrow> nat option" where
  "waitForLease_lookup r i = leases r i"

definition waitForLease_check :: "registers \<Rightarrow> nat \<Rightarrow> bool" where
  "waitForLease_check r h \<longleftrightarrow> refs (lease_at r h) \<noteq> 0"

definition waitForLease_done :: "registers \<Rightarrow> nat \<Rightarrow> bool" where
  "waitForLease_done r h \<longleftrightarrow> lease_done (lease_at r h)"

definition beginDeletion :: "registers \<Rightarrow> string \<Rightarrow> registers \<times> nat option" where
  "beginDeletion r i = (if deleting r i \<noteq> None then (r, None)
     else (r\<lparr>deleting := (deleting r)(i := Some (next_handle r)), next_handle := Suc (next_handle r)\<rparr>,
           Some (next_handle r)))"

definition endDeletion :: "registers \<Rightarrow> string \<Rightarrow> nat \<Rightarrow> registers" where
  "endDeletion r i ch = (if deleting r i = Some ch then r\<lparr>deleting := (deleting r)(i := None)\<rparr> else r)"

definition beginConversion :: "registers \<Rightarrow> string \<Rightarrow> registers \<times> nat" where
  "beginConversion r i =
     (r\<lparr>lifecycle_at := (lifecycle_at r)(next_handle r := \<lparr>active = True, lc_done = False, lc_cancelled = False\<rparr>),
        conversions := (conversions r)(i := Some (next_handle r)), next_handle := Suc (next_handle r)\<rparr>,
      next_handle r)"

definition cancelConversion :: "registers \<Rightarrow> nat \<Rightarrow> registers" where
  "cancelConversion r h =
     r\<lparr>lifecycle_at := (lifecycle_at r)(h := (lifecycle_at r h)\<lparr>lc_cancelled := True\<rparr>)\<rparr>"

text \<open>\<open>endConversion\<close>: cancel and unregister under \<open>lifecycleMu\<close>, then close \<open>done\<close> under the
  lifecycle's own mutex.\<close>

definition endConversion_unregister :: "registers \<Rightarrow> string \<Rightarrow> nat \<Rightarrow> registers" where
  "endConversion_unregister r i h =
     (let r1 = cancelConversion r h
      in if conversions r1 i = Some h then r1\<lparr>conversions := (conversions r1)(i := None)\<rparr> else r1)"

definition endConversion_finish :: "registers \<Rightarrow> nat \<Rightarrow> registers" where
  "endConversion_finish r h =
     r\<lparr>lifecycle_at := (lifecycle_at r)(h := (lifecycle_at r h)\<lparr>active := False, lc_done := True\<rparr>)\<rparr>"

text \<open>\<open>waitForConversion\<close>: the lookup, the check that cancels an active conversion, the wait.\<close>

definition waitForConversion_lookup :: "registers \<Rightarrow> string \<Rightarrow> nat option" where
  "waitForConversion_lookup r i = conversions r i"

definition waitForConversion_check :: "registers \<Rightarrow> nat \<Rightarrow> registers \<times> bool" where
  "waitForConversion_check r h =
     (if active (lifecycle_at r h) then (cancelConversion r h, True) else (r, False))"

definition waitForConversion_done :: "registers \<Rightarrow> nat \<Rightarrow> bool" where
  "waitForConversion_done r h \<longleftrightarrow> lc_done (lifecycle_at r h)"

section \<open>Retries\<close>

definition maxRetries :: nat where "maxRetries = 3"

text \<open>Seconds.\<close>

definition backoffDelay :: "nat \<Rightarrow> nat" where
  "backoffDelay retry = 2 ^ retry"

datatype err_action = Forget | FailAndForget go_error | Retry nat

definition handleErr :: "go_error option \<Rightarrow> nat \<Rightarrow> bool \<Rightarrow> err_action" where
  "handleErr err retries isActive = (case err of
     None \<Rightarrow> Forget
   | Some e \<Rightarrow>
       if \<not> IsRetryable e then FailAndForget e
       else if retries \<ge> maxRetries then FailAndForget e
       else if \<not> isActive then Forget
       else Retry (backoffDelay retries))"

definition fileActive :: "db_fault \<Rightarrow> table \<Rightarrow> string \<Rightarrow> bool" where
  "fileActive flt db i = (case store_GetInternal flt db i of
     Inl _ \<Rightarrow> False | Inr None \<Rightarrow> False | Inr (Some f) \<Rightarrow> DeletedAt f = None)"

definition truncate_string :: "string \<Rightarrow> nat \<Rightarrow> string" where
  "truncate_string s n = (if length s \<le> n then s else take n s)"

definition markFailed :: "db_fault \<Rightarrow> table \<Rightarrow> string \<Rightarrow> go_error \<Rightarrow> table" where
  "markFailed flt db i e = fst (store_UpdateStatus flt db i ''failed'' [] (truncate_string (err_text e) 1000))"

section \<open>Goroutines\<close>

record conversionJob =
  job_id :: string
  has_converter :: bool

text \<open>The directory of a file and the path of its manifest, relative to the data directory.\<close>

definition file_dir :: "File \<Rightarrow> path" where
  "file_dir f = butlast (path_of (SourcePath f))"

definition manifest_path :: "File \<Rightarrow> string" where
  "manifest_path f = slash_path (file_dir f @ [''manifest.json''])"

text \<open>The program counters. \<open>Cleaning\<close> is the code that \<open>Delete\<close> and \<open>deleteExpired\<close> share: its last
  argument is None for \<open>Delete\<close> and the rest of the expired files for the janitor.\<close>

datatype clean_pc = CMark | CConvLookup | CConvCheck nat | CConvWait nat
  | CLeaseLookup | CLeaseCheck nat | CLeaseWait nat | CRemove | CDeleteRow | CEnd

datatype work_pc = WStart | WResolve | WConvert | WFinish

datatype proc =
    Idle
  | Starter "string list"
  | CreateAdd File
  | CreateCleanup File
  | CreateEnqueue conversionJob
  | ReadAcquire File
  | Reading File nat
  | DeleteBegin File "File list option"
  | Cleaning clean_pc File nat "File list option"
  | JanitorNext "File list"
  | WorkBegin conversionJob
  | WorkLookup conversionJob nat
  | Working work_pc conversionJob nat File
  | WorkUnregister conversionJob nat "go_error option"
  | WorkDone conversionJob nat "go_error option"
  | HandleErr conversionJob "go_error option"

record sys =
  db :: table
  disk :: "path set"
  regs :: registers
  jobs :: "conversionJob queue"
  timers :: "conversionJob list"
  retryCount :: "string \<Rightarrow> nat"
  clock :: int
  stopping :: bool
  used :: "string set"
  procs :: "nat \<Rightarrow> proc"

definition goto :: "nat \<Rightarrow> proc \<Rightarrow> sys \<Rightarrow> sys" where
  "goto t p s = s\<lparr>procs := (procs s)(t := p)\<rparr>"

fun after_clean :: "File list option \<Rightarrow> proc" where
  "after_clean None = Idle"
| "after_clean (Some fs) = JanitorNext fs"

text \<open>A stored file lives in its own directory \<open>files/<tenant>/<id>\<close>.\<close>

definition file_wf :: "File \<Rightarrow> bool" where
  "file_wf f \<longleftrightarrow> length (file_dir f) = 3 \<and> last (file_dir f) = ID f"

text \<open>The record that \<open>Create\<close> inserts.\<close>

definition new_record :: "File \<Rightarrow> bool" where
  "new_record f \<longleftrightarrow> file_wf f \<and> DeletedAt f = None \<and> Status f = ''uploaded'' \<and> ManifestPath f = None"

text \<open>The decisions of \<open>convert\<close> on what the store returned: \<open>Inl\<close> is an early return.\<close>

definition convert_lookup :: "File option result \<Rightarrow> go_error option + File" where
  "convert_lookup r = (case r of
     Inl e \<Rightarrow> Inl (Some (Wrapped ''queued file lookup: '' e))
   | Inr None \<Rightarrow> Inl None
   | Inr (Some f) \<Rightarrow> if DeletedAt f \<noteq> None then Inl None else Inr f)"

definition convert_started :: "bool result \<Rightarrow> go_error option + unit" where
  "convert_started r = (case r of
     Inl e \<Rightarrow> Inl (Some (Wrapped ''document processing status update: '' e))
   | Inr updated \<Rightarrow> if updated then Inr () else Inl None)"

definition convert_finished :: "bool result \<Rightarrow> go_error option" where
  "convert_finished r = (case r of
     Inl e \<Rightarrow> Some (Wrapped ''document conversion status update: '' e) | Inr _ \<Rightarrow> None)"

text \<open>
  The steps. The upload steps are those of \<open>Create\<close> after the input has been accepted; a new id is one
  not used before, as \<open>newFileID\<close> draws 128 random bits. \<open>flt\<close> is what the database answers, and a
  removal or an open of a file may fail.
\<close>

inductive step :: "sys \<Rightarrow> sys \<Rightarrow> bool" where
  tick: "clock s \<le> n \<Longrightarrow> step s (s\<lparr>clock := n\<rparr>)"
| stop: "step s (s\<lparr>stopping := True\<rparr>)"
| run_enqueue: "procs s t = Starter (i # is) \<Longrightarrow>
    (q', ok) \<in> set (queue_Add (stopping s) (jobs s) \<lparr>job_id = i, has_converter = False\<rparr>) \<Longrightarrow>
    step s (goto t (Starter is) (s\<lparr>jobs := q'\<rparr>))"
| run_done: "procs s t = Starter [] \<Longrightarrow> step s (goto t Idle s)"
| create_files: "procs s t = Idle \<Longrightarrow> ID f \<notin> used s \<Longrightarrow> new_record f \<Longrightarrow>
    step s (goto t (CreateAdd f) (s\<lparr>disk := insert (file_dir f) (disk s), used := insert (ID f) (used s)\<rparr>))"
| create_reject: "procs s t = CreateAdd f \<Longrightarrow> step s (goto t (CreateCleanup f) s)"
| create_add: "procs s t = CreateAdd f \<Longrightarrow> store_Add flt (db s) f = (db', Inr ()) \<Longrightarrow>
    step s (goto t (CreateEnqueue \<lparr>job_id = ID f, has_converter = True\<rparr>) (s\<lparr>db := db'\<rparr>))"
| create_add_fails: "procs s t = CreateAdd f \<Longrightarrow> store_Add flt (db s) f = (db', Inl e) \<Longrightarrow>
    step s (goto t (CreateCleanup f) (s\<lparr>db := db'\<rparr>))"
| create_cleanup: "procs s t = CreateCleanup f \<Longrightarrow> d \<in> {disk s, disk s - {file_dir f}} \<Longrightarrow>
    step s (goto t Idle (s\<lparr>disk := d\<rparr>))"
| create_enqueue: "procs s t = CreateEnqueue j \<Longrightarrow>
    (q', ok) \<in> set (queue_Add (stopping s) (jobs s) j) \<Longrightarrow> step s (goto t Idle (s\<lparr>jobs := q'\<rparr>))"
| read_get: "procs s t = Idle \<Longrightarrow> store_Get flt (clock s) (db s) i tenant = Inr (Some f) \<Longrightarrow>
    step s (goto t (ReadAcquire f) s)"
| read_acquire: "procs s t = ReadAcquire f \<Longrightarrow> acquireLease (regs s) (ID f) = (r', Inr h) \<Longrightarrow>
    step s (goto t (Reading f h) (s\<lparr>regs := r'\<rparr>))"
| read_refused: "procs s t = ReadAcquire f \<Longrightarrow> acquireLease (regs s) (ID f) = (r', Inl e) \<Longrightarrow>
    step s (goto t Idle (s\<lparr>regs := r'\<rparr>))"
| read_release: "procs s t = Reading f h \<Longrightarrow>
    step s (goto t Idle (s\<lparr>regs := releaseLease (regs s) (ID f) h\<rparr>))"
| delete_get: "procs s t = Idle \<Longrightarrow> store_Get flt (clock s) (db s) i tenant = Inr (Some f) \<Longrightarrow>
    step s (goto t (DeleteBegin f None) s)"
| janitor_scan: "procs s t = Idle \<Longrightarrow> store_Expired flt (clock s) (db s) = Inr fs \<Longrightarrow>
    step s (goto t (JanitorNext fs) s)"
| janitor_next: "procs s t = JanitorNext (f # fs) \<Longrightarrow> step s (goto t (DeleteBegin f (Some fs)) s)"
| janitor_done: "procs s t = JanitorNext [] \<Longrightarrow> step s (goto t Idle s)"
| delete_claim: "procs s t = DeleteBegin f rest \<Longrightarrow> beginDeletion (regs s) (ID f) = (r', Some ch) \<Longrightarrow>
    step s (goto t (Cleaning (if rest \<noteq> None \<and> DeletedAt f \<noteq> None then CConvLookup else CMark) f ch rest)
      (s\<lparr>regs := r'\<rparr>))"
| delete_refused: "procs s t = DeleteBegin f rest \<Longrightarrow> beginDeletion (regs s) (ID f) = (r', None) \<Longrightarrow>
    step s (goto t (after_clean rest) (s\<lparr>regs := r'\<rparr>))"
| clean_mark: "procs s t = Cleaning CMark f ch rest \<Longrightarrow>
    store_MarkDeleted flt (clock s) (db s) (ID f) (TenantID f) = (db', res) \<Longrightarrow>
    step s (goto t (Cleaning (if res = Inr True then CConvLookup else CEnd) f ch rest) (s\<lparr>db := db'\<rparr>))"
| clean_conv_lookup: "procs s t = Cleaning CConvLookup f ch rest \<Longrightarrow>
    step s (goto t (Cleaning (case waitForConversion_lookup (regs s) (ID f) of
      None \<Rightarrow> CLeaseLookup | Some h \<Rightarrow> CConvCheck h) f ch rest) s)"
| clean_conv_check: "procs s t = Cleaning (CConvCheck h) f ch rest \<Longrightarrow>
    waitForConversion_check (regs s) h = (r', wait) \<Longrightarrow>
    step s (goto t (Cleaning (if wait then CConvWait h else CLeaseLookup) f ch rest) (s\<lparr>regs := r'\<rparr>))"
| clean_conv_wait: "procs s t = Cleaning (CConvWait h) f ch rest \<Longrightarrow> waitForConversion_done (regs s) h \<Longrightarrow>
    step s (goto t (Cleaning CLeaseLookup f ch rest) s)"
| clean_lease_lookup: "procs s t = Cleaning CLeaseLookup f ch rest \<Longrightarrow>
    step s (goto t (Cleaning (case waitForLease_lookup (regs s) (ID f) of
      None \<Rightarrow> CRemove | Some h \<Rightarrow> CLeaseCheck h) f ch rest) s)"
| clean_lease_check: "procs s t = Cleaning (CLeaseCheck h) f ch rest \<Longrightarrow>
    step s (goto t (Cleaning (if waitForLease_check (regs s) h then CLeaseWait h else CRemove) f ch rest) s)"
| clean_lease_wait: "procs s t = Cleaning (CLeaseWait h) f ch rest \<Longrightarrow> waitForLease_done (regs s) h \<Longrightarrow>
    step s (goto t (Cleaning CRemove f ch rest) s)"
| clean_remove: "procs s t = Cleaning CRemove f ch rest \<Longrightarrow>
    step s (goto t (Cleaning CDeleteRow f ch rest) (s\<lparr>disk := disk s - {file_dir f}\<rparr>))"
| clean_remove_fails: "procs s t = Cleaning CRemove f ch rest \<Longrightarrow> d \<in> {disk s, disk s - {file_dir f}} \<Longrightarrow>
    step s (goto t (Cleaning CEnd f ch rest) (s\<lparr>disk := d\<rparr>))"
| clean_delete_row: "procs s t = Cleaning CDeleteRow f ch rest \<Longrightarrow>
    store_Delete flt (db s) (ID f) (TenantID f) = (db', res) \<Longrightarrow>
    step s (goto t (Cleaning CEnd f ch rest) (s\<lparr>db := db'\<rparr>))"
| clean_end: "procs s t = Cleaning CEnd f ch rest \<Longrightarrow>
    step s (goto t (after_clean rest) (s\<lparr>regs := endDeletion (regs s) (ID f) ch\<rparr>))"
| work_take: "procs s t = Idle \<Longrightarrow> (q', Some j) \<in> set (queue_Get (stopping s) (jobs s)) \<Longrightarrow>
    step s (goto t (WorkBegin j) (s\<lparr>jobs := q'\<rparr>))"
| work_begin: "procs s t = WorkBegin j \<Longrightarrow> beginConversion (regs s) (job_id j) = (r', h) \<Longrightarrow>
    step s (goto t (WorkLookup j h) (s\<lparr>regs := r'\<rparr>))"
| work_lookup_return: "procs s t = WorkLookup j h \<Longrightarrow>
    convert_lookup (store_GetInternal flt (db s) (job_id j)) = Inl res \<Longrightarrow>
    step s (goto t (WorkUnregister j h res) s)"
| work_lookup: "procs s t = WorkLookup j h \<Longrightarrow>
    convert_lookup (store_GetInternal flt (db s) (job_id j)) = Inr f \<Longrightarrow>
    step s (goto t (Working WStart j h f) s)"
| work_start_return: "procs s t = Working WStart j h f \<Longrightarrow>
    store_UpdateStatus flt (db s) (job_id j) ''processing'' [] [] = (db', r) \<Longrightarrow>
    convert_started r = Inl res \<Longrightarrow> step s (goto t (WorkUnregister j h res) (s\<lparr>db := db'\<rparr>))"
| work_start: "procs s t = Working WStart j h f \<Longrightarrow>
    store_UpdateStatus flt (db s) (job_id j) ''processing'' [] [] = (db', r) \<Longrightarrow>
    convert_started r = Inr () \<Longrightarrow>
    step s (goto t (Working (if has_converter j then WConvert else WResolve) j h f) (s\<lparr>db := db'\<rparr>))"
| work_resolve: "procs s t = Working WResolve j h f \<Longrightarrow> step s (goto t (Working WConvert j h f) s)"
| work_resolve_fails: "procs s t = Working WResolve j h f \<Longrightarrow>
    step s (goto t (WorkUnregister j h None) (s\<lparr>db := markFailed flt (db s) (job_id j) e\<rparr>))"
| work_write: "procs s t = Working WConvert j h f \<Longrightarrow>
    step s (s\<lparr>disk := insert (file_dir f) (disk s)\<rparr>)"
| work_convert_fails: "procs s t = Working WConvert j h f \<Longrightarrow>
    step s (goto t (WorkUnregister j h (Some (Wrapped ''document conversion: '' e))) s)"
| work_convert: "procs s t = Working WConvert j h f \<Longrightarrow> step s (goto t (Working WFinish j h f) s)"
| work_finish: "procs s t = Working WFinish j h f \<Longrightarrow>
    store_UpdateStatus flt (db s) (job_id j) ''processed'' (manifest_path f) [] = (db', r) \<Longrightarrow>
    step s (goto t (WorkUnregister j h (convert_finished r)) (s\<lparr>db := db'\<rparr>))"
| work_unregister: "procs s t = WorkUnregister j h res \<Longrightarrow>
    step s (goto t (WorkDone j h res) (s\<lparr>regs := endConversion_unregister (regs s) (job_id j) h\<rparr>))"
| work_done: "procs s t = WorkDone j h res \<Longrightarrow>
    step s (goto t (HandleErr j res) (s\<lparr>regs := endConversion_finish (regs s) h\<rparr>))"
| err_forget: "procs s t = HandleErr j res \<Longrightarrow>
    handleErr res (retryCount s (job_id j)) (fileActive flt (db s) (job_id j)) = Forget \<Longrightarrow>
    step s (goto t Idle (s\<lparr>retryCount := (retryCount s)(job_id j := 0)\<rparr>))"
| err_fail: "procs s t = HandleErr j res \<Longrightarrow>
    handleErr res (retryCount s (job_id j)) (fileActive flt (db s) (job_id j)) = FailAndForget e \<Longrightarrow>
    step s (goto t Idle (s\<lparr>db := markFailed flt' (db s) (job_id j) e,
      retryCount := (retryCount s)(job_id j := 0)\<rparr>))"
| err_retry: "procs s t = HandleErr j res \<Longrightarrow>
    handleErr res (retryCount s (job_id j)) (fileActive flt (db s) (job_id j)) = Retry delay \<Longrightarrow>
    step s (goto t Idle (s\<lparr>timers := timers s @ [j],
      retryCount := (retryCount s)(job_id j := Suc (retryCount s (job_id j)))\<rparr>))"
| timer_fires: "timers s = xs @ j # ys \<Longrightarrow> (q', ok) \<in> set (queue_Add (stopping s) (jobs s) j) \<Longrightarrow>
    step s (s\<lparr>timers := xs @ ys, jobs := q'\<rparr>)"

text \<open>
  The service starts on a table of wellformed rows, the directory of every row that is not logically
  deleted being present, with an empty queue and with \<open>Run\<close> about to re-enqueue the pending files.
\<close>

definition start_ok :: "table \<Rightarrow> path set \<Rightarrow> bool" where
  "start_ok rows dirs \<longleftrightarrow> db_inv rows \<and> list_all file_wf rows \<and>
     list_all (\<lambda>f. DeletedAt f = None \<longrightarrow> file_dir f \<in> dirs) rows"

definition boot :: "int \<Rightarrow> int \<Rightarrow> table \<Rightarrow> path set \<Rightarrow> sys" where
  "boot cap now rows dirs = \<lparr>db = rows, disk = dirs, regs = registers_init, jobs = new_queue cap,
     timers = [], retryCount = (\<lambda>_. 0), clock = now, stopping = False, used = ID ` set rows,
     procs = (\<lambda>_. Idle)(0 := Starter (map ID (filter (pending now) rows)))\<rparr>"

inductive reach :: "int \<Rightarrow> int \<Rightarrow> table \<Rightarrow> path set \<Rightarrow> sys \<Rightarrow> bool" for cap now rows dirs where
  boot: "start_ok rows dirs \<Longrightarrow> reach cap now rows dirs (boot cap now rows dirs)"
| step: "reach cap now rows dirs s \<Longrightarrow> step s s' \<Longrightarrow> reach cap now rows dirs s'"

end
