(* ===== verification/Lifecycle_Safety.thy ===== *)
theory Lifecycle_Safety
  imports Lifecycle "HOL-Library.Multiset"
begin

text \<open>
  The invariants of the concurrent file service of \<^verbatim>\<open>Lifecycle\<close>, each proved to be kept by every
  step, and the safety theorems that follow: artifacts are never removed under a reader or a running
  conversion, a visible file has its directory, one conversion and one cleanup per file at a time.
\<close>

section \<open>What a goroutine holds\<close>

lemma goto_simps [simp]:
  "db (goto t p s) = db s" "disk (goto t p s) = disk s" "regs (goto t p s) = regs s"
  "jobs (goto t p s) = jobs s" "timers (goto t p s) = timers s" "retryCount (goto t p s) = retryCount s"
  "clock (goto t p s) = clock s" "stopping (goto t p s) = stopping s" "used (goto t p s) = used s"
  "procs (goto t p s) = (procs s)(t := p)"
  by (simp_all add: goto_def)

text \<open>The ids for which a goroutine has, or is about to enqueue, the conversion job.\<close>

fun carries :: "proc \<Rightarrow> string list" where
  "carries (Starter is) = is"
| "carries (CreateAdd f) = [ID f]"
| "carries (CreateCleanup f) = [ID f]"
| "carries (CreateEnqueue j) = [job_id j]"
| "carries (WorkBegin j) = [job_id j]"
| "carries (WorkLookup j _) = [job_id j]"
| "carries (Working _ j _ _) = [job_id j]"
| "carries (WorkUnregister j _ _) = [job_id j]"
| "carries (WorkDone j _ _) = [job_id j]"
| "carries (HandleErr j _) = [job_id j]"
| "carries _ = []"

text \<open>The records that a goroutine has read from the table.\<close>

fun rest_files :: "File list option \<Rightarrow> File list" where
  "rest_files None = []"
| "rest_files (Some fs) = fs"

fun records :: "proc \<Rightarrow> File list" where
  "records (ReadAcquire f) = [f]"
| "records (Reading f _) = [f]"
| "records (DeleteBegin f rest) = f # rest_files rest"
| "records (Cleaning _ f _ rest) = f # rest_files rest"
| "records (JanitorNext fs) = fs"
| "records (Working _ _ _ f) = [f]"
| "records _ = []"

fun fresh_file :: "proc \<Rightarrow> File option" where
  "fresh_file (CreateAdd f) = Some f"
| "fresh_file (CreateCleanup f) = Some f"
| "fresh_file _ = None"

fun owns :: "proc \<Rightarrow> (string \<times> nat) option" where
  "owns (Cleaning _ f ch _) = Some (ID f, ch)"
| "owns _ = None"

fun marked :: "proc \<Rightarrow> string option" where
  "marked (Cleaning c f _ _) = (if c = CMark \<or> c = CEnd then None else Some (ID f))"
| "marked _ = None"

fun janitor_files :: "proc \<Rightarrow> File list" where
  "janitor_files (DeleteBegin f (Some fs)) = f # fs"
| "janitor_files (Cleaning _ _ _ (Some fs)) = fs"
| "janitor_files (JanitorNext fs) = fs"
| "janitor_files _ = []"

fun reading :: "proc \<Rightarrow> (string \<times> nat) option" where
  "reading (Reading f h) = Some (ID f, h)"
| "reading _ = None"

fun lease_wait :: "proc \<Rightarrow> (string \<times> nat) option" where
  "lease_wait (Cleaning (CLeaseCheck h) f _ _) = Some (ID f, h)"
| "lease_wait (Cleaning (CLeaseWait h) f _ _) = Some (ID f, h)"
| "lease_wait _ = None"

fun past_lease :: "proc \<Rightarrow> string option" where
  "past_lease (Cleaning CRemove f _ _) = Some (ID f)"
| "past_lease (Cleaning CDeleteRow f _ _) = Some (ID f)"
| "past_lease _ = None"

fun registered :: "proc \<Rightarrow> (string \<times> nat) option" where
  "registered (WorkLookup j h) = Some (job_id j, h)"
| "registered (Working _ j h _) = Some (job_id j, h)"
| "registered (WorkUnregister j h _) = Some (job_id j, h)"
| "registered _ = None"

fun busy :: "proc \<Rightarrow> (string \<times> nat) option" where
  "busy (Working _ j h _) = Some (job_id j, h)"
| "busy _ = None"

fun conv_wait :: "proc \<Rightarrow> (string \<times> nat) option" where
  "conv_wait (Cleaning (CConvCheck h) f _ _) = Some (ID f, h)"
| "conv_wait (Cleaning (CConvWait h) f _ _) = Some (ID f, h)"
| "conv_wait _ = None"

fun past_conv :: "proc \<Rightarrow> string option" where
  "past_conv (Cleaning c f _ _) =
     (case c of CLeaseLookup \<Rightarrow> Some (ID f) | CLeaseCheck _ \<Rightarrow> Some (ID f) | CLeaseWait _ \<Rightarrow> Some (ID f)
      | CRemove \<Rightarrow> Some (ID f) | CDeleteRow \<Rightarrow> Some (ID f) | _ \<Rightarrow> None)"
| "past_conv _ = None"

lemma after_clean_views [simp]:
  "carries (after_clean rest) = []" "records (after_clean rest) = rest_files rest"
  "fresh_file (after_clean rest) = None" "owns (after_clean rest) = None"
  "marked (after_clean rest) = None" "janitor_files (after_clean rest) = rest_files rest"
  "reading (after_clean rest) = None" "lease_wait (after_clean rest) = None"
  "past_lease (after_clean rest) = None" "registered (after_clean rest) = None"
  "busy (after_clean rest) = None" "conv_wait (after_clean rest) = None"
  "past_conv (after_clean rest) = None"
  by (cases rest; simp)+

section \<open>The table during a step\<close>

text \<open>All writes but an insertion only shrink the table: rows keep their source path and are never
  undeleted.\<close>

definition keeps :: "File option \<Rightarrow> File option \<Rightarrow> bool" where
  "keeps old new \<longleftrightarrow> (case new of None \<Rightarrow> True | Some f' \<Rightarrow>
     holds (\<lambda>f. SourcePath f' = SourcePath f \<and> (DeletedAt f' = None \<longrightarrow> DeletedAt f = None)) old)"

definition shrinks :: "table \<Rightarrow> table \<Rightarrow> bool" where
  "shrinks rows rows' \<longleftrightarrow> (db_inv rows \<longrightarrow> db_inv rows' \<and> (\<forall>i. keeps (row rows i) (row rows' i)))"

lemma keeps_refl [simp]: "keeps r r"
  by (cases r) (simp_all add: keeps_def)

lemma keeps_wrote:
  assumes "\<And>f f'. upd f = Some f' \<Longrightarrow> SourcePath f' = SourcePath f \<and> (DeletedAt f' = None \<longrightarrow> DeletedAt f = None)"
  shows "keeps r (wrote hit upd ex r)"
  using assms by (cases r) (auto simp: keeps_def wrote_def split: option.splits)

lemma shrinks_refl [simp]: "shrinks rows rows"
  by (simp add: shrinks_def)

lemma shrinks_update: "store_UpdateStatus flt rows i s m e = (rows', r) \<Longrightarrow> shrinks rows rows'"
  using sql.update_inv [of rows flt i s m e] sql.update_at [of rows flt i s m e]
  by (auto simp: shrinks_def intro!: keeps_wrote)

lemma shrinks_mark: "store_MarkDeleted flt now rows i t = (rows', r) \<Longrightarrow> shrinks rows rows'"
  using sql.mark_inv [of rows flt now i t] sql.mark_at [of rows flt now i t]
  by (auto simp: shrinks_def intro!: keeps_wrote)

lemma shrinks_delete: "store_Delete flt rows i t = (rows', r) \<Longrightarrow> shrinks rows rows'"
  using sql.delete_inv [of rows flt i t] sql.delete_at [of rows flt i t]
  by (auto simp: shrinks_def intro!: keeps_wrote)

lemma shrinks_markFailed: "shrinks rows (markFailed flt rows i e)"
  unfolding markFailed_def by (rule shrinks_update) (rule surjective_pairing)

lemma add_ok: "store_Add flt rows f = (rows', Inr ()) \<Longrightarrow> rows' = rows @ [f] \<and> row rows (ID f) = None"
  by (metis fst_conv snd_conv store_Add_fst store_Add_snd)

lemma add_fails: "store_Add flt rows f = (rows', Inl e) \<Longrightarrow> rows' = rows"
  by (auto simp: store_Add_def split: db_fault.splits if_splits)

lemmas shrink_rules = shrinks_update shrinks_mark shrinks_delete shrinks_markFailed

text \<open>A step leaves the table, shrinks it, or inserts the row of an upload.\<close>

lemma step_db:
  assumes "step s s'"
  shows "shrinks (db s) (db s') \<or> (\<exists>t f. procs s t = CreateAdd f \<and> row (db s) (ID f) = None
    \<and> s' = goto t (CreateEnqueue \<lparr>job_id = ID f, has_converter = True\<rparr>) (s\<lparr>db := db s @ [f]\<rparr>))"
  using assms
proof (cases rule: step.cases)
  case (create_add t f flt db')
  then show ?thesis using add_ok [of flt "db s" f db'] by auto
next
  case (create_add_fails t f flt db' e)
  then show ?thesis using add_fails [of flt "db s" f db'] by auto
qed (auto intro: shrink_rules)

lemma shrinks_gone: "shrinks rows rows' \<Longrightarrow> db_inv rows \<Longrightarrow> gone rows i \<Longrightarrow> gone rows' i"
  by (cases "row rows' i") (auto simp: shrinks_def keeps_def gone_def holds_iff dest!: spec [of _ i])

lemma shrinks_row:
  "shrinks rows rows' \<Longrightarrow> db_inv rows \<Longrightarrow> row rows' i = Some f' \<Longrightarrow>
     \<exists>f. row rows i = Some f \<and> SourcePath f' = SourcePath f \<and> (DeletedAt f' = None \<longrightarrow> DeletedAt f = None)"
  by (auto simp: shrinks_def keeps_def holds_iff dest!: spec [of _ i])

lemma file_dir_cong: "SourcePath f = SourcePath g \<Longrightarrow> file_dir f = file_dir g"
  by (simp add: file_dir_def)

lemma file_wf_cong: "SourcePath f = SourcePath g \<Longrightarrow> ID f = ID g \<Longrightarrow> file_wf f = file_wf g"
  by (simp add: file_wf_def file_dir_def)

lemma file_wf_distinct: "file_wf f \<Longrightarrow> file_wf g \<Longrightarrow> file_dir f = file_dir g \<Longrightarrow> ID f = ID g"
  by (simp add: file_wf_def)

section \<open>Rows, ids and jobs\<close>

definition inv_rows :: "sys \<Rightarrow> bool" where
  "inv_rows s \<longleftrightarrow> db_inv (db s) \<and> (\<forall>i f. row (db s) i = Some f \<longrightarrow> file_wf f \<and> i \<in> used s)"

definition queued :: "sys \<Rightarrow> string list" where
  "queued s = map job_id (contents (jobs s) @ timers s)"

definition proc_used :: "string set \<Rightarrow> proc \<Rightarrow> bool" where
  "proc_used U p \<longleftrightarrow> list_all (\<lambda>i. i \<in> U) (carries p) \<and> list_all (\<lambda>f. ID f \<in> U) (records p)"

definition inv_used :: "sys \<Rightarrow> bool" where
  "inv_used s \<longleftrightarrow> set (queued s) \<subseteq> used s \<and> (\<forall>t. proc_used (used s) (procs s t))"

definition inv_tokens :: "sys \<Rightarrow> bool" where
  "inv_tokens s \<longleftrightarrow> (\<forall>t. distinct (queued s @ carries (procs s t))) \<and>
     (\<forall>t t'. t \<noteq> t' \<longrightarrow> set (carries (procs s t)) \<inter> set (carries (procs s t')) = {})"

text \<open>A file being uploaded is unknown to the table and to every other goroutine.\<close>

definition inv_fresh :: "sys \<Rightarrow> bool" where
  "inv_fresh s \<longleftrightarrow> (\<forall>t f. fresh_file (procs s t) = Some f \<longrightarrow> file_wf f \<and> row (db s) (ID f) = None
     \<and> (\<forall>t'. ID f \<notin> ID ` set (records (procs s t'))))"

fun record_ok :: "proc \<Rightarrow> bool" where
  "record_ok (Working c j h f) \<longleftrightarrow> file_wf f \<and> job_id j = ID f"
| "record_ok p \<longleftrightarrow> list_all file_wf (records p)"

definition inv_records :: "sys \<Rightarrow> bool" where
  "inv_records s \<longleftrightarrow> (\<forall>t. record_ok (procs s t))"

lemma queue_Add_contents:
  "(q', ok) \<in> set (queue_Add c q x) \<Longrightarrow> contents q' = contents q @ (if ok then [x] else [])"
  by (cases q) (auto simp: ops split: if_splits)

lemma queue_Get_contents: "(q', Some x) \<in> set (queue_Get c q) \<Longrightarrow> contents q = x # contents q'"
  by (cases q) (auto simp: ops split: if_splits list.splits)

lemma expired_wf: "store_Expired flt n rows = Inr fs \<Longrightarrow> set fs \<subseteq> set rows"
  by (auto simp: store_Expired_def split: db_fault.splits)

lemma lookup_row: "convert_lookup (store_GetInternal flt rows i) = Inr f \<Longrightarrow> row rows i = Some f \<and> DeletedAt f = None"
  by (auto simp: convert_lookup_def store_GetInternal_def query_row_def row_def
      split: sum.splits option.splits if_splits db_fault.splits)

lemma step_inv_rows:
  assumes "step s s'" and "inv_rows s" and "inv_used s" and "inv_fresh s"
  shows "inv_rows s'"
proof -
  have u: "used s \<subseteq> used s'" using assms(1) by (cases rule: step.cases) auto
  from step_db [OF assms(1)] show ?thesis
  proof
    assume sh: "shrinks (db s) (db s')"
    show ?thesis unfolding inv_rows_def
    proof (intro conjI allI impI)
      show "db_inv (db s')" using sh assms(2) by (simp add: inv_rows_def shrinks_def)
      fix i f' assume r: "row (db s') i = Some f'"
      with sh assms(2) obtain f where f: "row (db s) i = Some f" "SourcePath f' = SourcePath f"
        by (auto simp: inv_rows_def dest: shrinks_row)
      then have "ID f = i" "ID f' = i" using r by (auto dest: row_SomeD)
      with f assms(2) file_wf_cong [of f' f] u show "file_wf f'" and "i \<in> used s'"
        by (auto simp: inv_rows_def)
    qed
  next
    assume "\<exists>t f. procs s t = CreateAdd f \<and> row (db s) (ID f) = None
      \<and> s' = goto t (CreateEnqueue \<lparr>job_id = ID f, has_converter = True\<rparr>) (s\<lparr>db := db s @ [f]\<rparr>)"
    then obtain t f where p: "procs s t = CreateAdd f" and n: "row (db s) (ID f) = None"
      and s': "s' = goto t (CreateEnqueue \<lparr>job_id = ID f, has_converter = True\<rparr>) (s\<lparr>db := db s @ [f]\<rparr>)" by blast
    have "file_wf f" using assms(4) p unfolding inv_fresh_def by (metis fresh_file.simps(1))
    moreover have "ID f \<in> used s"
      using assms(3) p unfolding inv_used_def proc_used_def
      by (metis carries.simps(2) list.pred_inject(2))
    moreover have "db_inv (db s @ [f])"
      using n assms(2) by (auto simp: db_inv_def inv_rows_def row_None_iff)
    ultimately show ?thesis using assms(2)
      unfolding s' by (auto simp: inv_rows_def row_append split: option.splits if_splits)
  qed
qed

lemma inv_rows_used: "inv_rows s \<Longrightarrow> f \<in> set (db s) \<Longrightarrow> ID f \<in> used s \<and> file_wf f"
  by (auto simp: inv_rows_def dest: row_SomeI)

lemma get_used:
  "inv_rows s \<Longrightarrow> store_Get flt n (db s) i tenant = Inr (Some f) \<Longrightarrow> ID f \<in> used s \<and> file_wf f"
  using store_Get_Some [of flt n "db s" i tenant f] inv_rows_used [of s f] by blast

lemma all_upd: "(\<forall>ta. P ((f(t := p)) ta)) \<longleftrightarrow> P p \<and> (\<forall>ta. ta \<noteq> t \<longrightarrow> P (f ta))"
  by auto

lemma proc_used_simps [simp]:
  "proc_used U Idle" "proc_used U (Starter is) = list_all (\<lambda>i. i \<in> U) is"
  "proc_used U (CreateAdd f) = (ID f \<in> U)" "proc_used U (CreateCleanup f) = (ID f \<in> U)"
  "proc_used U (CreateEnqueue j) = (job_id j \<in> U)" "proc_used U (ReadAcquire f) = (ID f \<in> U)"
  "proc_used U (Reading f h) = (ID f \<in> U)"
  "proc_used U (DeleteBegin f rest) = (ID f \<in> U \<and> list_all (\<lambda>f. ID f \<in> U) (rest_files rest))"
  "proc_used U (Cleaning c f ch rest) = (ID f \<in> U \<and> list_all (\<lambda>f. ID f \<in> U) (rest_files rest))"
  "proc_used U (JanitorNext fs) = list_all (\<lambda>f. ID f \<in> U) fs"
  "proc_used U (after_clean rest) = list_all (\<lambda>f. ID f \<in> U) (rest_files rest)"
  "proc_used U (WorkBegin j) = (job_id j \<in> U)" "proc_used U (WorkLookup j h) = (job_id j \<in> U)"
  "proc_used U (Working w j h f) = (job_id j \<in> U \<and> ID f \<in> U)"
  "proc_used U (WorkUnregister j h res) = (job_id j \<in> U)" "proc_used U (WorkDone j h res) = (job_id j \<in> U)"
  "proc_used U (HandleErr j res) = (job_id j \<in> U)"
  by (auto simp: proc_used_def)

lemma proc_used_mono: "proc_used U p \<Longrightarrow> U \<subseteq> U' \<Longrightarrow> proc_used U' p"
  by (auto simp: proc_used_def list_all_iff)

lemma step_inv_used:
  assumes "step s s'" and "inv_rows s" and "inv_used s"
  shows "inv_used s'"
proof -
  have all: "\<And>ta. proc_used (used s) (procs s ta)" and q: "set (queued s) \<subseteq> used s"
    using assms(3) by (auto simp: inv_used_def)
  have at: "\<And>ta p. procs s ta = p \<Longrightarrow> proc_used (used s) p" using all by blast
  show ?thesis using assms(1)
  proof (cases rule: step.cases)
    case (run_enqueue t i js q' ok)
    with q at [OF run_enqueue(2)] queue_Add_contents [OF run_enqueue(3)] show ?thesis
      by (auto simp: inv_used_def queued_def all_upd all split: if_splits)
  next
    case (create_enqueue t j q' ok)
    with q at [OF create_enqueue(2)] queue_Add_contents [OF create_enqueue(3)] show ?thesis
      by (auto simp: inv_used_def queued_def all_upd all split: if_splits)
  next
    case (timer_fires xs j ys q' ok)
    with q queue_Add_contents [OF timer_fires(3)] show ?thesis
      by (auto simp: inv_used_def queued_def all split: if_splits)
  next
    case (work_take t q' j)
    with q queue_Get_contents [OF work_take(3)] show ?thesis
      by (auto simp: inv_used_def queued_def all_upd all)
  next
    case (create_files t f)
    with q show ?thesis
      by (auto simp: inv_used_def queued_def all_upd intro: proc_used_mono [OF all])
  next
    case (read_get t flt i tenant f)
    with q get_used [OF assms(2) read_get(3)] show ?thesis
      by (auto simp: inv_used_def queued_def all_upd all)
  next
    case (delete_get t flt i tenant f)
    with q get_used [OF assms(2) delete_get(3)] show ?thesis
      by (auto simp: inv_used_def queued_def all_upd all)
  next
    case (janitor_scan t flt fs)
    with q expired_wf [OF janitor_scan(3)] inv_rows_used [OF assms(2)] show ?thesis
      by (auto simp: inv_used_def queued_def all_upd all list_all_iff)
  next
    case (work_lookup t j h flt f)
    with q at [OF work_lookup(2)] row_SomeD lookup_row [OF work_lookup(3)] show ?thesis
      by (fastforce simp: inv_used_def queued_def all_upd all)
  next
    case (err_retry t j res flt delay)
    with q at [OF err_retry(2)] show ?thesis by (auto simp: inv_used_def queued_def all_upd all)
  next
    case (err_fail t j res flt e flt')
    with q show ?thesis by (auto simp: inv_used_def queued_def all_upd all)
  qed (use q in \<open>auto simp: inv_used_def queued_def all_upd all dest!: at\<close>)
qed

lemma queued_simps [simp]: "queued (goto t p s) = queued s"
  by (simp add: queued_def)

lemma distinct_submset:
  assumes "mset xs \<subseteq># mset ys" and "distinct ys"
  shows "distinct xs"
proof -
  obtain zs where "mset ys = mset (xs @ zs)"
    using assms(1) by (metis ex_mset mset_append subset_mset.add_diff_inverse)
  then have "distinct (xs @ zs)" using assms(2) mset_eq_imp_distinct_iff by blast
  then show ?thesis by simp
qed

lemma tokens_goto:
  assumes "inv_tokens s" and "procs s0 = procs s"
    and "mset (queued s0) + mset (carries p) \<subseteq># mset (queued s) + mset (carries (procs s t))"
  shows "inv_tokens (goto t p s0)"
proof -
  have sub: "set (queued s0) \<union> set (carries p) \<subseteq> set (queued s) \<union> set (carries (procs s t))"
    using set_mset_mono [OF assms(3)] by simp
  have d: "distinct (queued s @ carries (procs s ta))" for ta
    using assms(1) by (auto simp: inv_tokens_def)
  have x: "ta \<noteq> tb \<Longrightarrow> set (carries (procs s ta)) \<inter> set (carries (procs s tb)) = {}" for ta tb
    using assms(1) by (auto simp: inv_tokens_def)
  have "mset (queued s0 @ carries p) \<subseteq># mset (queued s @ carries (procs s t))"
    using assms(3) by simp
  then have dp: "distinct (queued s0 @ carries p)"
    using d [of t] by (rule distinct_submset)
  have do: "distinct (queued s0 @ carries (procs s ta))" if "ta \<noteq> t" for ta
    using dp d [of ta] x [OF that] sub by auto
  have xp: "set (carries p) \<inter> set (carries (procs s ta)) = {}" if "ta \<noteq> t" for ta
    using d [of ta] x [OF that] sub by auto
  show ?thesis
    using dp do x xp assms(2) by (fastforce simp: inv_tokens_def)
qed

lemma step_inv_tokens:
  assumes "step s s'" and "inv_used s" and "inv_tokens s"
  shows "inv_tokens s'"
proof -
  note go = tokens_goto [OF assms(3)]
  show ?thesis using assms(1)
  proof (cases rule: step.cases)
    case (run_enqueue t i js q' ok)
    with queue_Add_contents [OF run_enqueue(3)] show ?thesis
      by (auto intro!: go simp: queued_def)
  next
    case (create_enqueue t j q' ok)
    with queue_Add_contents [OF create_enqueue(3)] show ?thesis
      by (auto intro!: go simp: queued_def)
  next
    case (work_take t q' j)
    with queue_Get_contents [OF work_take(3)] show ?thesis
      by (auto intro!: go simp: queued_def)
  next
    case (timer_fires xs j ys q' ok)
    have "mset (queued s') \<subseteq># mset (queued s)"
      using queue_Add_contents [OF timer_fires(3)] timer_fires(1,2) by (auto simp: queued_def)
    moreover have "procs s' = procs s" using timer_fires(1) by simp
    ultimately have "inv_tokens (goto 0 (procs s 0) s')"
      by (intro go) auto
    then show ?thesis by (simp add: inv_tokens_def \<open>procs s' = procs s\<close>)
  next
    case (create_files t f)
    have n: "ID f \<notin> set (queued s)" "\<And>ta. ID f \<notin> set (carries (procs s ta))"
      using assms(2) create_files(3) by (auto simp: inv_used_def proc_used_def list_all_iff)
    let ?s = "s\<lparr>disk := insert (file_dir f) (disk s), used := insert (ID f) (used s)\<rparr>"
    have [simp]: "queued ?s = queued s" by (simp add: queued_def)
    have d: "distinct (queued s @ carries (procs s ta))" for ta
      using assms(3) by (auto simp: inv_tokens_def)
    have "distinct (queued s)" using d [of t] by simp
    then show ?thesis using n assms(3) unfolding create_files(1)
      by (simp add: inv_tokens_def)
  next
    case (tick n)
    then show ?thesis using assms(3) by (simp add: inv_tokens_def queued_def)
  next
    case stop
    then show ?thesis using assms(3) by (simp add: inv_tokens_def queued_def)
  next
    case (work_write t j h f)
    then show ?thesis using assms(3) by (simp add: inv_tokens_def queued_def)
  next
    case (err_retry t j res flt delay)
    then show ?thesis by (auto intro!: go simp: queued_def)
  qed (auto intro!: go simp: queued_def)
qed

lemma shrinks_None: "shrinks rows rows' \<Longrightarrow> db_inv rows \<Longrightarrow> row rows i = None \<Longrightarrow> row rows' i = None"
  by (cases "row rows' i") (auto dest: shrinks_row)

lemma fresh_goto:
  assumes "inv_fresh s" and "db_inv (db s)" and "procs s0 = procs s" and "shrinks (db s) (db s0)"
    and "\<And>f. fresh_file p = Some f \<Longrightarrow> fresh_file (procs s t) = Some f"
    and "\<And>f. f \<in> set (records p) \<Longrightarrow> f \<in> set (records (procs s t)) \<or> row (db s) (ID f) \<noteq> None"
  shows "inv_fresh (goto t p s0)"
  unfolding inv_fresh_def
proof (intro allI impI)
  fix t1 f assume "fresh_file (procs (goto t p s0) t1) = Some f"
  then obtain t2 where f: "fresh_file (procs s t2) = Some f"
    using assms(3,5) by (auto split: if_splits)
  then have 1: "file_wf f" "row (db s) (ID f) = None" "\<And>t'. ID f \<notin> ID ` set (records (procs s t'))"
    using assms(1) by (auto simp: inv_fresh_def)
  have "ID f \<notin> ID ` set (records (procs (goto t p s0) t'))" for t'
  proof
    assume "ID f \<in> ID ` set (records (procs (goto t p s0) t'))"
    then obtain g where "ID g = ID f" "g \<in> set (records (procs (goto t p s0) t'))" by auto
    then show False using 1(2) 1(3) [of t] 1(3) [of t'] assms(3) assms(6) [of g]
      by (auto split: if_splits) (metis image_eqI)+
  qed
  then show "file_wf f \<and> row (db (goto t p s0)) (ID f) = None \<and>
      (\<forall>t'. ID f \<notin> ID ` set (records (procs (goto t p s0) t')))"
    using 1 shrinks_None [OF assms(4,2)] by simp
qed

lemma fresh_same:
  "inv_fresh s \<Longrightarrow> procs s' = procs s \<Longrightarrow> db s' = db s \<Longrightarrow> inv_fresh s'"
  by (simp add: inv_fresh_def)

lemma expired_rows: "store_Expired flt n rows = Inr fs \<Longrightarrow> f \<in> set fs \<Longrightarrow> row rows (ID f) \<noteq> None"
  using expired_wf [of flt n rows fs] by (auto simp: row_None_iff)

lemma get_rows: "store_Get flt n rows i tenant = Inr (Some f) \<Longrightarrow> row rows (ID f) \<noteq> None"
  using store_Get_Some [of flt n rows i tenant f] by (auto simp: row_None_iff)

lemma step_inv_fresh:
  assumes "step s s'" and "inv_rows s" and "inv_used s" and "inv_tokens s" and "inv_fresh s"
  shows "inv_fresh s'"
proof -
  have inv: "db_inv (db s)" using assms(2) by (simp add: inv_rows_def)
  note go = fresh_goto [OF assms(5) inv]
  show ?thesis using assms(1)
  proof (cases rule: step.cases)
    case (create_files t f)
    have "row (db s) (ID f) = None"
      using assms(2) create_files(3) by (cases "row (db s) (ID f)") (auto simp: inv_rows_def)
    moreover have "ID f \<notin> ID ` set (records (procs s ta))" for ta
      using assms(3) create_files(3) by (auto simp: inv_used_def proc_used_def list_all_iff)
    moreover have "file_wf f" using create_files(4) by (simp add: new_record_def)
    ultimately show ?thesis using assms(5) unfolding create_files(1) by (simp add: inv_fresh_def)
  next
    case (create_add t f flt db')
    have db': "db' = db s @ [f]" using add_ok [OF create_add(3)] by simp
    have other: "ID g \<noteq> ID f" if "fresh_file (procs s ta) = Some g" "ta \<noteq> t" for ta g
    proof -
      have "ID g \<in> set (carries (procs s ta))" using that(1) by (cases "procs s ta") auto
      moreover have "set (carries (procs s ta)) \<inter> set (carries (procs s t)) = {}"
        using assms(4) that(2) unfolding inv_tokens_def by blast
      ultimately show ?thesis using create_add(2) by auto
    qed
    show ?thesis using assms(5) unfolding create_add(1) db'
      by (auto simp: inv_fresh_def row_append dest: other)
  next
    case (create_add_fails t f flt db' e)
    with add_fails [OF create_add_fails(3)] show ?thesis by (auto intro!: go)
  next
    case (read_get t flt i tenant f)
    with get_rows [OF read_get(3)] show ?thesis by (auto intro!: go)
  next
    case (delete_get t flt i tenant f)
    with get_rows [OF delete_get(3)] show ?thesis by (auto intro!: go)
  next
    case (janitor_scan t flt fs)
    with expired_rows [OF janitor_scan(3)] show ?thesis by (auto intro!: go)
  next
    case (work_lookup t j h flt f)
    have r: "row (db s) (ID f) = Some f" using lookup_row [OF work_lookup(3)] row_SomeD by metis
    with work_lookup show ?thesis by (auto intro!: go)
  next
    case (tick n)
    then show ?thesis by (auto intro: fresh_same [OF assms(5)])
  next
    case stop
    then show ?thesis by (auto intro: fresh_same [OF assms(5)])
  next
    case (work_write t j h f)
    then show ?thesis by (auto intro: fresh_same [OF assms(5)])
  next
    case (timer_fires xs j ys q' ok)
    then show ?thesis by (auto intro: fresh_same [OF assms(5)])
  qed (auto intro!: go intro: shrink_rules)
qed

lemma expired_wf_files: "inv_rows s \<Longrightarrow> store_Expired flt n (db s) = Inr fs \<Longrightarrow> list_all file_wf fs"
  using expired_wf [of flt n "db s" fs] inv_rows_used [of s] by (auto simp: list_all_iff)

lemma record_ok_after_clean [simp]: "record_ok (after_clean rest) \<longleftrightarrow> list_all file_wf (rest_files rest)"
  by (cases rest) auto

lemma step_inv_records:
  assumes "step s s'" and "inv_rows s" and "inv_records s"
  shows "inv_records s'"
proof -
  have all: "\<And>ta. record_ok (procs s ta)" using assms(3) by (auto simp: inv_records_def)
  have at: "\<And>ta p. procs s ta = p \<Longrightarrow> record_ok p" using all by blast
  show ?thesis using assms(1)
  proof (cases rule: step.cases)
    case (read_get t flt i tenant f)
    with get_used [OF assms(2) read_get(3)] show ?thesis by (auto simp: inv_records_def all_upd all)
  next
    case (delete_get t flt i tenant f)
    with get_used [OF assms(2) delete_get(3)] show ?thesis by (auto simp: inv_records_def all_upd all)
  next
    case (janitor_scan t flt fs)
    with expired_wf_files [OF assms(2) janitor_scan(3)] show ?thesis
      by (auto simp: inv_records_def all_upd all)
  next
    case (work_lookup t j h flt f)
    have "row (db s) (job_id j) = Some f" using lookup_row [OF work_lookup(3)] by simp
    with assms(2) have "file_wf f" "job_id j = ID f" by (auto simp: inv_rows_def dest: row_SomeD)
    with work_lookup show ?thesis by (auto simp: inv_records_def all_upd all)
  qed (auto simp: inv_records_def all_upd all dest!: at)
qed

text \<open>The invariants of this theory, together, in every reachable state.\<close>

definition inv_base :: "sys \<Rightarrow> bool" where
  "inv_base s \<longleftrightarrow> inv_rows s \<and> inv_used s \<and> inv_tokens s \<and> inv_fresh s \<and> inv_records s"

lemma step_inv_base: "step s s' \<Longrightarrow> inv_base s \<Longrightarrow> inv_base s'"
  unfolding inv_base_def
  by (meson step_inv_rows step_inv_used step_inv_tokens step_inv_fresh step_inv_records)

lemma new_queue_contents [simp]: "contents (new_queue cap) = []"
  by (simp add: ops)

lemma pending_distinct: "db_inv rows \<Longrightarrow> distinct (map ID (filter P rows))"
  by (simp add: db_inv_def distinct_map_filter)

lemma boot_inv_base: "start_ok rows dirs \<Longrightarrow> inv_base (boot cap now rows dirs)"
  by (auto simp: inv_base_def boot_def start_ok_def inv_rows_def inv_used_def inv_tokens_def inv_fresh_def
      inv_records_def queued_def list_all_iff pending_distinct all_upd dest: row_SomeD)

lemma reach_inv_base: "reach cap now rows dirs s \<Longrightarrow> inv_base s"
  by (induction rule: reach.induct) (auto intro: boot_inv_base step_inv_base)

end
