(* ===== verification/Lifecycle_Cleanup.thy ===== *)
theory Lifecycle_Cleanup
  imports Lifecycle_Safety
begin

text \<open>
  The invariants of the three registers (\<open>deleting\<close>, \<open>leases\<close>, \<open>conversions\<close>): who owns a deletion,
  who holds a lease, who runs a conversion, and what a cleanup that waited for them may rely on.
\<close>

section \<open>What the register operations leave alone\<close>

lemma acquireLease_frame:
  "acquireLease r i = (r', res) \<Longrightarrow> deleting r' = deleting r \<and> conversions r' = conversions r
     \<and> lifecycle_at r' = lifecycle_at r \<and> next_handle r \<le> next_handle r'"
  by (auto simp: acquireLease_def Let_def split: if_splits option.splits)

lemma releaseLease_frame [simp]:
  "deleting (releaseLease r i h) = deleting r" "conversions (releaseLease r i h) = conversions r"
  "lifecycle_at (releaseLease r i h) = lifecycle_at r" "next_handle (releaseLease r i h) = next_handle r"
  by (simp_all add: releaseLease_def Let_def)

lemma beginDeletion_frame:
  "beginDeletion r i = (r', res) \<Longrightarrow> conversions r' = conversions r \<and> leases r' = leases r
     \<and> lifecycle_at r' = lifecycle_at r \<and> lease_at r' = lease_at r \<and> next_handle r \<le> next_handle r'"
  by (auto simp: beginDeletion_def split: if_splits)

lemma endDeletion_frame [simp]:
  "conversions (endDeletion r i c) = conversions r" "leases (endDeletion r i c) = leases r"
  "lifecycle_at (endDeletion r i c) = lifecycle_at r" "lease_at (endDeletion r i c) = lease_at r"
  "next_handle (endDeletion r i c) = next_handle r"
  by (simp_all add: endDeletion_def)

lemma beginConversion_frame:
  "beginConversion r i = (r', h) \<Longrightarrow> deleting r' = deleting r \<and> leases r' = leases r
     \<and> lease_at r' = lease_at r \<and> next_handle r' = Suc h \<and> h = next_handle r"
  by (auto simp: beginConversion_def)

lemma cancelConversion_frame [simp]:
  "deleting (cancelConversion r h) = deleting r" "leases (cancelConversion r h) = leases r"
  "lease_at (cancelConversion r h) = lease_at r" "next_handle (cancelConversion r h) = next_handle r"
  "conversions (cancelConversion r h) = conversions r"
  "active (lifecycle_at (cancelConversion r h) h') = active (lifecycle_at r h')"
  "lc_done (lifecycle_at (cancelConversion r h) h') = lc_done (lifecycle_at r h')"
  "lc_cancelled (lifecycle_at (cancelConversion r h) h') \<longleftrightarrow> h' = h \<or> lc_cancelled (lifecycle_at r h')"
  by (simp_all add: cancelConversion_def)

lemma unregister_frame [simp]:
  "deleting (endConversion_unregister r i h) = deleting r" "leases (endConversion_unregister r i h) = leases r"
  "lease_at (endConversion_unregister r i h) = lease_at r"
  "next_handle (endConversion_unregister r i h) = next_handle r"
  "active (lifecycle_at (endConversion_unregister r i h) h') = active (lifecycle_at r h')"
  "lc_done (lifecycle_at (endConversion_unregister r i h) h') = lc_done (lifecycle_at r h')"
  "lc_cancelled (lifecycle_at (endConversion_unregister r i h) h') \<longleftrightarrow> h' = h \<or> lc_cancelled (lifecycle_at r h')"
  "conversions (endConversion_unregister r i h) =
     (if conversions r i = Some h then (conversions r)(i := None) else conversions r)"
  by (simp_all add: endConversion_unregister_def Let_def)

lemma finish_frame [simp]:
  "deleting (endConversion_finish r h) = deleting r" "leases (endConversion_finish r h) = leases r"
  "lease_at (endConversion_finish r h) = lease_at r" "next_handle (endConversion_finish r h) = next_handle r"
  "conversions (endConversion_finish r h) = conversions r"
  "lifecycle_at (endConversion_finish r h) h' =
     (if h' = h then (lifecycle_at r h)\<lparr>active := False, lc_done := True\<rparr> else lifecycle_at r h')"
  by (simp_all add: endConversion_finish_def)

lemma check_frame:
  "waitForConversion_check r h = (r', w) \<Longrightarrow> r' = (if w then cancelConversion r h else r) \<and> w = active (lifecycle_at r h)"
  by (auto simp: waitForConversion_check_def split: if_splits)

lemmas frames = acquireLease_frame beginDeletion_frame beginConversion_frame check_frame

section \<open>One owner per deletion\<close>

definition inv_own :: "sys \<Rightarrow> bool" where
  "inv_own s \<longleftrightarrow>
     (\<forall>t i ch. owns (procs s t) = Some (i, ch) \<longrightarrow> deleting (regs s) i = Some ch) \<and>
     (\<forall>t t' i ch. owns (procs s t) = Some (i, ch) \<longrightarrow> owns (procs s t') = Some (i, ch) \<longrightarrow> t = t') \<and>
     (\<forall>i ch. deleting (regs s) i = Some ch \<longrightarrow> (\<exists>t. owns (procs s t) = Some (i, ch)))"

lemma own_goto:
  assumes "inv_own s" and "procs s0 = procs s" and "deleting (regs s0) = deleting (regs s)"
    and "owns p = owns (procs s t)"
  shows "inv_own (goto t p s0)"
proof -
  have "owns (procs (goto t p s0) ta) = owns (procs s ta)" for ta using assms(2,4) by simp
  then show ?thesis using assms(1,3) by (simp add: inv_own_def)
qed

lemma own_same:
  "inv_own s \<Longrightarrow> procs s' = procs s \<Longrightarrow> regs s' = regs s \<Longrightarrow> inv_own s'"
  by (simp add: inv_own_def)

lemma step_inv_own:
  assumes "step s s'" and "inv_own s"
  shows "inv_own s'"
proof -
  note go = own_goto [OF assms(2)]
  show ?thesis using assms(1)
  proof (cases rule: step.cases)
    case (delete_claim t f rest r' ch)
    have d: "deleting (regs s) (ID f) = None" "deleting r' = (deleting (regs s))(ID f := Some ch)"
      using delete_claim(3) by (auto simp: beginDeletion_def split: if_splits)
    then have n: "owns (procs s ta) \<noteq> Some (ID f, c)" for ta c using assms(2) by (auto simp: inv_own_def)
    have t: "owns (procs s t) = None" using delete_claim(2) by simp
    show ?thesis using assms(2) d n t unfolding delete_claim(1) inv_own_def
      by (auto split: if_splits) (metis option.distinct(1))+
  next
    case (clean_end t f ch rest)
    have o: "owns (procs s t) = Some (ID f, ch)" using clean_end(2) by simp
    then have d: "deleting (regs s) (ID f) = Some ch" using assms(2) by (simp only: inv_own_def)
    have u: "owns (procs s ta) \<noteq> Some (ID f, c)" if "ta \<noteq> t" for ta c
    proof
      assume a: "owns (procs s ta) = Some (ID f, c)"
      then have "c = ch" using assms(2) d by (auto simp: inv_own_def)
      then show False using assms(2) a o that by (auto simp: inv_own_def)
    qed
    show ?thesis using assms(2) d o u unfolding clean_end(1) inv_own_def endDeletion_def
      by (auto split: if_splits) (metis prod.inject option.inject)+
  next
    case (delete_refused t f rest r')
    then have "r' = regs s" by (auto simp: beginDeletion_def split: if_splits)
    with delete_refused show ?thesis by (auto intro!: go)
  next
    case (tick n)
    then show ?thesis by (auto intro: own_same [OF assms(2)])
  next
    case stop
    then show ?thesis by (auto intro: own_same [OF assms(2)])
  next
    case (work_write t j h f)
    then show ?thesis by (auto intro: own_same [OF assms(2)])
  next
    case (timer_fires xs j ys q' ok)
    then show ?thesis by (auto intro: own_same [OF assms(2)])
  qed (auto intro!: go dest: frames)
qed

section \<open>A file being cleaned up is gone\<close>

definition inv_gone :: "sys \<Rightarrow> bool" where
  "inv_gone s \<longleftrightarrow> (\<forall>t. (\<forall>i. marked (procs s t) = Some i \<longrightarrow> gone (db s) i) \<and>
     (\<forall>f \<in> set (janitor_files (procs s t)). DeletedAt f \<noteq> None \<longrightarrow> gone (db s) (ID f)))"

lemma marked_record: "marked p = Some i \<Longrightarrow> i \<in> ID ` set (records p)"
  by (cases p) (auto split: if_splits)

lemma janitor_record: "f \<in> set (janitor_files p) \<Longrightarrow> f \<in> set (records p)"
proof (cases p)
  case (DeleteBegin g rest)
  then show "f \<in> set (janitor_files p) \<Longrightarrow> f \<in> set (records p)" by (cases rest) auto
next
  case (Cleaning c g ch rest)
  then show "f \<in> set (janitor_files p) \<Longrightarrow> f \<in> set (records p)" by (cases rest) auto
qed auto

lemma gone_goto:
  assumes "inv_gone s" and "db_inv (db s)" and "procs s0 = procs s" and "shrinks (db s) (db s0)"
    and "\<And>i. marked p = Some i \<Longrightarrow> marked (procs s t) = Some i \<or> gone (db s0) i"
    and "\<And>f. f \<in> set (janitor_files p) \<Longrightarrow> DeletedAt f \<noteq> None \<Longrightarrow>
      f \<in> set (janitor_files (procs s t)) \<or> gone (db s) (ID f)"
  shows "inv_gone (goto t p s0)"
  using assms shrinks_gone [OF assms(4,2)] unfolding inv_gone_def
  by (auto split: if_splits) blast+

lemma mark_gone:
  "db_inv rows \<Longrightarrow> store_MarkDeleted flt now rows i tenant = (rows', Inr True) \<Longrightarrow> gone rows' i"
  using sql.mark_marks [of rows flt now i tenant] by (auto simp: gone_def holds_iff)

lemma expired_gone:
  assumes "db_inv rows" and "store_Expired flt n rows = Inr fs" and "f \<in> set fs" and "DeletedAt f \<noteq> None"
  shows "gone rows (ID f)"
  using assms expired_wf [OF assms(2)] row_SomeI [OF assms(1), of f] by (auto simp: gone_def holds_iff)

lemma gone_same: "inv_gone s \<Longrightarrow> procs s' = procs s \<Longrightarrow> db s' = db s \<Longrightarrow> inv_gone s'"
  by (simp add: inv_gone_def)

lemma janitor_rest [simp]: "janitor_files (Cleaning c g ch rest) = rest_files rest"
  by (cases rest) auto

lemma step_inv_gone:
  assumes "step s s'" and "inv_base s" and "inv_gone s"
  shows "inv_gone s'"
proof -
  have inv: "db_inv (db s)" using assms(2) by (simp add: inv_base_def inv_rows_def)
  note go = gone_goto [OF assms(3) inv]
  show ?thesis using assms(1)
  proof (cases rule: step.cases)
    case (create_add t f flt db')
    have db': "db' = db s @ [f]" using add_ok [OF create_add(3)] by simp
    have n: "ID f \<notin> ID ` set (records (procs s ta))" for ta
      using assms(2) create_add(2) unfolding inv_base_def inv_fresh_def by (metis fresh_file.simps(1))
    have k: "gone (db s @ [f]) i" if "gone (db s) i" "i \<noteq> ID f" for i
      using that by (auto simp: gone_def row_append split: option.splits)
    have m: "gone (db s @ [f]) i" if "marked (procs s ta) = Some i" for ta i
    proof (rule k)
      show "gone (db s) i" using that assms(3) by (simp add: inv_gone_def)
      show "i \<noteq> ID f" using n [of ta] marked_record [OF that] by blast
    qed
    have j: "gone (db s @ [f]) (ID g)" if "g \<in> set (janitor_files (procs s ta))" "DeletedAt g \<noteq> None" for ta g
    proof (rule k)
      show "gone (db s) (ID g)" using that assms(3) by (simp add: inv_gone_def)
      show "ID g \<noteq> ID f" using n [of ta] janitor_record [OF that(1)] by (metis imageI)
    qed
    show ?thesis unfolding create_add(1) db' using m j by (auto simp: inv_gone_def)
  next
    case (create_add_fails t f flt db' e)
    with add_fails [OF create_add_fails(3)] show ?thesis by (auto intro!: go)
  next
    case (janitor_scan t flt fs)
    with expired_gone [OF inv janitor_scan(3)] show ?thesis by (auto intro!: go)
  next
    case (delete_claim t f rest r' ch)
    have "gone (db s) (ID f)" if "rest \<noteq> None" "DeletedAt f \<noteq> None"
    proof -
      have "f \<in> set (janitor_files (procs s t))" using delete_claim(2) that by auto
      with assms(3) that show ?thesis by (auto simp: inv_gone_def)
    qed
    with delete_claim show ?thesis by (cases rest) (auto intro!: go split: if_splits)
  next
    case (delete_refused t f rest r')
    then show ?thesis by (cases rest) (auto intro!: go)
  next
    case (clean_mark t f ch rest flt db' res)
    with mark_gone [OF inv, of flt "clock s" "ID f" "TenantID f" db'] shrinks_mark [OF clean_mark(3)]
    show ?thesis by (auto intro!: go split: if_splits)
  next
    case (tick n)
    then show ?thesis by (auto intro: gone_same [OF assms(3)])
  next
    case stop
    then show ?thesis by (auto intro: gone_same [OF assms(3)])
  next
    case (work_write t j h f)
    then show ?thesis by (auto intro: gone_same [OF assms(3)])
  next
    case (timer_fires xs j ys q' ok)
    then show ?thesis by (auto intro: gone_same [OF assms(3)])
  qed (auto intro!: go intro: shrink_rules split: option.splits if_splits)
qed

end
