(* ===== verification/Lifecycle_Leases.thy ===== *)
theory Lifecycle_Leases
  imports Lifecycle_Cleanup
begin

text \<open>
  Read leases: the reference count of a lease is the number of its readers, and a cleanup that has
  waited for the lease of its file meets no reader until it is done.
\<close>

definition readers :: "sys \<Rightarrow> string \<Rightarrow> nat \<Rightarrow> nat set" where
  "readers s i h = {t. reading (procs s t) = Some (i, h)}"

definition lease_live :: "registers \<Rightarrow> nat \<Rightarrow> nat set \<Rightarrow> bool" where
  "lease_live r h ts \<longleftrightarrow> h < next_handle r \<and> \<not> closed (lease_at r h) \<and> \<not> lease_done (lease_at r h)
     \<and> finite ts \<and> ts \<noteq> {} \<and> refs (lease_at r h) = int (card ts)"

definition inv_leases :: "sys \<Rightarrow> bool" where
  "inv_leases s \<longleftrightarrow>
     (\<forall>i h. readers s i h \<noteq> {} \<longrightarrow> leases (regs s) i = Some h) \<and>
     (\<forall>i h. leases (regs s) i = Some h \<longrightarrow> lease_live (regs s) h (readers s i h)) \<and>
     (\<forall>i j h. leases (regs s) i = Some h \<longrightarrow> leases (regs s) j = Some h \<longrightarrow> i = j)"

lemma reader_leases: "inv_leases s \<Longrightarrow> reading (procs s t) = Some (i, h) \<Longrightarrow> leases (regs s) i = Some h"
  unfolding inv_leases_def readers_def by blast

lemma readers_leases: "inv_leases s \<Longrightarrow> t \<in> readers s i h \<Longrightarrow> leases (regs s) i = Some h"
  unfolding inv_leases_def by blast

lemma leases_live: "inv_leases s \<Longrightarrow> leases (regs s) i = Some h \<Longrightarrow> lease_live (regs s) h (readers s i h)"
  unfolding inv_leases_def by blast

lemma leases_unique: "inv_leases s \<Longrightarrow> leases (regs s) i = Some h \<Longrightarrow> leases (regs s) j = Some h \<Longrightarrow> i = j"
  unfolding inv_leases_def by blast

lemma leases_same:
  assumes "inv_leases s" and "\<And>t. reading (procs s' t) = reading (procs s t)"
    and "leases (regs s') = leases (regs s)" and "lease_at (regs s') = lease_at (regs s)"
    and "next_handle (regs s) \<le> next_handle (regs s')"
  shows "inv_leases s'"
proof -
  have "readers s' i h = readers s i h" for i h using assms(2) by (simp add: readers_def)
  moreover have "lease_live (regs s') h ts" if "lease_live (regs s) h ts" for h ts
    using that assms(4,5) by (simp add: lease_live_def)
  ultimately show ?thesis using assms(1,3) unfolding inv_leases_def by metis
qed

lemma leases_goto:
  assumes "inv_leases s" and "procs s0 = procs s" and "reading p = reading (procs s t)"
    and "leases (regs s0) = leases (regs s)" and "lease_at (regs s0) = lease_at (regs s)"
    and "next_handle (regs s) \<le> next_handle (regs s0)"
  shows "inv_leases (goto t p s0)"
  by (rule leases_same [OF assms(1)]) (use assms in auto)

lemma readers_goto:
  "readers (goto t p s) i h = (if reading p = Some (i, h) then insert t (readers s i h) else readers s i h - {t})"
  by (auto simp: readers_def)

lemma readers_regs [simp]: "readers (s\<lparr>regs := r\<rparr>) i h = readers s i h"
  by (simp add: readers_def)

lemma acquire_new:
  "acquireLease r i = (r', Inr h) \<Longrightarrow> leases r i = None \<Longrightarrow>
     h = next_handle r \<and> r' = r\<lparr>lease_at := (lease_at r)(h := \<lparr>refs = 1, lease_done = False, closed = False\<rparr>),
       leases := (leases r)(i := Some h), next_handle := Suc h\<rparr> \<and> deleting r i = None"
  by (auto simp: acquireLease_def Let_def split: if_splits)

lemma acquire_old:
  "acquireLease r i = (r', Inr h) \<Longrightarrow> leases r i = Some h0 \<Longrightarrow>
     h = h0 \<and> r' = r\<lparr>lease_at := (lease_at r)(h := (lease_at r h)\<lparr>refs := refs (lease_at r h) + 1\<rparr>)\<rparr>
     \<and> deleting r i = None"
  by (auto simp: acquireLease_def Let_def split: if_splits)

lemma acquire_refused: "acquireLease r i = (r', Inl e) \<Longrightarrow> r' = r \<and> deleting r i \<noteq> None"
  by (auto simp: acquireLease_def Let_def split: if_splits option.splits)

text \<open>A step that changes the lease of one id only.\<close>

lemma leases_change:
  assumes "inv_leases s" and "\<And>j k. (j, k) \<noteq> (i, h) \<Longrightarrow> readers s' j k = readers s j k"
    and "leases (regs s') = (leases (regs s))(i := v)"
    and "(v = None \<and> readers s' i h = {}) \<or> (v = Some h \<and> lease_live (regs s') h (readers s' i h))"
    and "\<And>k. k \<noteq> h \<Longrightarrow> lease_at (regs s') k = lease_at (regs s) k"
    and "next_handle (regs s) \<le> next_handle (regs s')"
    and "\<And>j. leases (regs s) j = Some h \<Longrightarrow> j = i"
    and "\<And>k. leases (regs s) i = Some k \<Longrightarrow> k = h"
  shows "inv_leases s'"
  unfolding inv_leases_def
proof (intro conjI allI impI)
  fix j k
  have old: "leases (regs s) j = Some k" if "readers s' j k \<noteq> {}" "(j, k) \<noteq> (i, h)"
    using assms(1) that assms(2) [OF that(2)] unfolding inv_leases_def by metis
  show "leases (regs s') j = Some k" if ne: "readers s' j k \<noteq> {}"
  proof (cases "(j, k) = (i, h)")
    case True
    then show ?thesis using ne assms(3,4) by auto
  next
    case False
    with old [OF ne False] assms(8) show ?thesis by (auto simp: assms(3))
  qed
  show "lease_live (regs s') k (readers s' j k)" if "leases (regs s') j = Some k"
  proof (cases "j = i")
    case True
    then show ?thesis using that assms(3,4) by auto
  next
    case False
    then have j: "leases (regs s) j = Some k" using that by (simp add: assms(3))
    then have "k \<noteq> h" using False assms(7) by blast
    with leases_live [OF assms(1) j] show ?thesis
      using False assms(6) by (simp add: lease_live_def assms(2,5))
  qed
  fix i'
  assume "leases (regs s') i' = Some k" and "leases (regs s') j = Some k"
  then show "i' = j"
    using leases_unique [OF assms(1)] assms(4,7) by (auto simp: assms(3) split: if_splits)
qed

lemma step_inv_leases:
  assumes "step s s'" and "inv_leases s"
  shows "inv_leases s'"
proof -
  note go = leases_goto [OF assms(2)]
  note r = readers_leases [OF assms(2)] and l = leases_live [OF assms(2)] and u = leases_unique [OF assms(2)]
  show ?thesis using assms(1)
  proof (cases rule: step.cases)
    case (read_acquire t f r' h)
    have t: "t \<notin> readers s i k" for i k using read_acquire(2) by (simp add: readers_def)
    show ?thesis
    proof (cases "leases (regs s) (ID f)")
      case None
      have e: "readers s (ID f) h = {}" using r None by fastforce
      note new = acquire_new [OF read_acquire(3) None]
      have fresh: "leases (regs s) j \<noteq> Some h" for j
        using l [of j h] new by (auto simp: lease_live_def)
      show ?thesis unfolding read_acquire(1)
        by (rule leases_change [OF assms(2), where i = "ID f" and h = h and v = "Some h"])
          (use new t e None fresh in \<open>auto simp: readers_goto lease_live_def\<close>)
    next
      case (Some h0)
      note old = acquire_old [OF read_acquire(3) Some]
      show ?thesis unfolding read_acquire(1)
        by (rule leases_change [OF assms(2), where i = "ID f" and h = h and v = "Some h"])
          (use old t Some l [OF Some] in \<open>auto simp: readers_goto lease_live_def dest: u [OF _ Some]\<close>)
    qed
  next
    case (read_release t f h)
    have t: "t \<in> readers s (ID f) h" using read_release(2) by (simp add: readers_def)
    then have h: "leases (regs s) (ID f) = Some h" by (rule r)
    from l [OF h] have live: "lease_live (regs s) h (readers s (ID f) h)" .
    have o: "t \<notin> readers s i k" if "(i, k) \<noteq> (ID f, h)" for i k
      using read_release(2) that by (auto simp: readers_def)
    have c: "card (readers s (ID f) h) = Suc (card (readers s (ID f) h - {t}))"
      using live t by (metis card_Suc_Diff1 lease_live_def)
    let ?v = "if readers s (ID f) h = {t} then None else Some h"
    have e: "readers s (ID f) h - {t} = {} \<longleftrightarrow> readers s (ID f) h = {t}" using t by blast
    show ?thesis unfolding read_release(1)
    proof (rule leases_change [OF assms(2), where i = "ID f" and h = h and v = ?v])
      have "card (readers s (ID f) h - {t}) = 0 \<longleftrightarrow> readers s (ID f) h = {t}"
        using live e by (simp add: lease_live_def)
      then show "leases (regs (goto t Idle (s\<lparr>regs := releaseLease (regs s) (ID f) h\<rparr>))) =
          (leases (regs s))(ID f := ?v)"
        using live c h by (auto simp: releaseLease_def lease_live_def Let_def)
    qed (use live c e h o in \<open>auto simp: readers_goto releaseLease_def lease_live_def Let_def dest: u [OF _ h]\<close>)
  next
    case (read_refused t f r' e)
    with acquire_refused [OF read_refused(3)] show ?thesis by (auto intro!: go)
  next
    case (tick n)
    then show ?thesis by (auto intro: leases_same [OF assms(2)])
  next
    case stop
    then show ?thesis by (auto intro: leases_same [OF assms(2)])
  next
    case (work_write t j h f)
    then show ?thesis by (auto intro: leases_same [OF assms(2)])
  next
    case (timer_fires xs j ys q' ok)
    then show ?thesis by (auto intro: leases_same [OF assms(2)])
  next
    case (delete_refused t f rest r')
    with beginDeletion_frame [OF delete_refused(3)] show ?thesis by (auto intro!: go)
  next
    case (delete_claim t f rest r' ch)
    with beginDeletion_frame [OF delete_claim(3)] show ?thesis by (auto intro!: go)
  next
    case (work_begin t j r' h)
    with beginConversion_frame [OF work_begin(3)] show ?thesis by (auto intro!: go)
  next
    case (clean_conv_check t h f ch rest r' wait)
    with check_frame [OF clean_conv_check(3)] show ?thesis by (auto intro!: go)
  qed (auto intro!: go)
qed

section \<open>Waiting for readers\<close>

text \<open>Until it ends, a cleanup keeps new leases of its file from being taken: what it has seen of the
  lease stays true.\<close>

definition settled :: "registers \<Rightarrow> string \<Rightarrow> nat \<Rightarrow> bool" where
  "settled r i h \<longleftrightarrow> leases r i = None \<and> lease_done (lease_at r h) \<and> refs (lease_at r h) = 0
     \<and> h < next_handle r \<and> (\<forall>j. leases r j \<noteq> Some h)"

definition lease_pc :: "registers \<Rightarrow> proc \<Rightarrow> bool" where
  "lease_pc r p \<longleftrightarrow> (\<forall>i h. lease_wait p = Some (i, h) \<longrightarrow> leases r i = Some h \<or> settled r i h) \<and>
     (\<forall>i. past_lease p = Some i \<longrightarrow> leases r i = None)"

definition inv_lease_wait :: "sys \<Rightarrow> bool" where
  "inv_lease_wait s \<longleftrightarrow> (\<forall>t. lease_pc (regs s) (procs s t))"

lemma lease_pc_simps [simp]:
  "lease_pc r (Cleaning (CLeaseCheck h) f ch rest) \<longleftrightarrow> leases r (ID f) = Some h \<or> settled r (ID f) h"
  "lease_pc r (Cleaning (CLeaseWait h) f ch rest) \<longleftrightarrow> leases r (ID f) = Some h \<or> settled r (ID f) h"
  "lease_pc r (Cleaning CRemove f ch rest) \<longleftrightarrow> leases r (ID f) = None"
  "lease_pc r (Cleaning CDeleteRow f ch rest) \<longleftrightarrow> leases r (ID f) = None"
  by (auto simp: lease_pc_def)

lemma lease_pc_free: "lease_wait p = None \<Longrightarrow> past_lease p = None \<Longrightarrow> lease_pc r p"
  by (simp add: lease_pc_def)

lemma lease_pc_frame:
  assumes "lease_pc r p" and "leases r' = leases r" and "lease_at r' = lease_at r"
    and "next_handle r \<le> next_handle r'"
  shows "lease_pc r' p"
  using assms by (auto simp: lease_pc_def settled_def)

lemma wait_owner: "lease_wait p = Some (i, h) \<Longrightarrow> \<exists>ch. owns p = Some (i, ch)"
  by (erule lease_wait.elims) auto

lemma past_owner: "past_lease p = Some i \<Longrightarrow> \<exists>ch. owns p = Some (i, ch)"
  by (erule past_lease.elims) auto

lemma lease_pc_acquire:
  assumes "lease_pc r p" and "acquireLease r i = (r', Inr h)"
    and "\<And>j ch. owns p = Some (j, ch) \<Longrightarrow> deleting r j \<noteq> None"
    and "\<And>h. leases r i = Some h \<Longrightarrow> h < next_handle r"
  shows "lease_pc r' p"
proof -
  have n: "j \<noteq> i" if "lease_wait p = Some (j, k) \<or> past_lease p = Some j" for j k
    using that wait_owner past_owner assms(2,3) by (fastforce simp: acquireLease_def split: if_splits)
  show ?thesis
  proof (cases "leases r i")
    case None
    from acquire_new [OF assms(2) None] show ?thesis using assms(1) n
      by (auto simp: lease_pc_def settled_def)
  next
    case (Some h0)
    from acquire_old [OF assms(2) Some] show ?thesis using Some assms(1) n
      by (auto simp: lease_pc_def settled_def)
  qed
qed

lemma lease_pc_release:
  assumes "lease_pc r p" and "leases r i = Some h" and "lease_live r h ts"
    and "\<And>j. leases r j = Some h \<Longrightarrow> j = i"
  shows "lease_pc (releaseLease r i h) p"
proof -
  let ?r = "releaseLease r i h"
  have l: "leases ?r = (if refs (lease_at r h) = 1 then (leases r)(i := None) else leases r)"
    and k: "lease_at ?r k = lease_at r k" if "k \<noteq> h" for k
    using assms(3) that by (auto simp: releaseLease_def Let_def lease_live_def)
  have h: "refs (lease_at r h) = 1 \<Longrightarrow> settled ?r i h"
    using assms(3,4) by (auto simp: settled_def releaseLease_def Let_def lease_live_def)
  have s: "settled ?r j k" if "settled r j k" for j k
  proof -
    have "k \<noteq> h" using that assms(2) by (auto simp: settled_def)
    with that l [OF this] k [OF this] show ?thesis by (auto simp: settled_def)
  qed
  have l: "leases ?r = (if refs (lease_at r h) = 1 then (leases r)(i := None) else leases r)"
    using assms(3) by (auto simp: releaseLease_def Let_def lease_live_def)
  have w: "leases ?r j = Some k \<or> settled ?r j k" if "leases r j = Some k" for j k
    using that h assms(2) l by (cases "j = i") auto
  have n: "leases ?r j = None" if "leases r j = None" for j using that l by auto
  show ?thesis using assms(1) w s n unfolding lease_pc_def by metis
qed

lemma lease_wait_goto:
  assumes "inv_lease_wait s" and "procs s0 = procs s" and "lease_pc (regs s0) p"
    and "leases (regs s0) = leases (regs s)" and "lease_at (regs s0) = lease_at (regs s)"
    and "next_handle (regs s) \<le> next_handle (regs s0)"
  shows "inv_lease_wait (goto t p s0)"
proof -
  have "lease_pc (regs s0) (procs s ta)" for ta
    using assms(1) by (intro lease_pc_frame [OF _ assms(4-6)]) (simp add: inv_lease_wait_def)
  then show ?thesis using assms(2,3) by (simp add: inv_lease_wait_def)
qed

lemma step_inv_lease_wait:
  assumes "step s s'" and "inv_own s" and "inv_leases s" and "inv_lease_wait s"
  shows "inv_lease_wait s'"
proof -
  note go = lease_wait_goto [OF assms(4)]
  have all: "\<And>t. lease_pc (regs s) (procs s t)" using assms(4) by (simp add: inv_lease_wait_def)
  then have at: "\<And>t p. procs s t = p \<Longrightarrow> lease_pc (regs s) p" by blast
  have own: "\<And>t j ch. owns (procs s t) = Some (j, ch) \<Longrightarrow> deleting (regs s) j \<noteq> None"
    using assms(2) by (auto simp: inv_own_def)
  note l = leases_live [OF assms(3)] and u = leases_unique [OF assms(3)]
  have same: "inv_lease_wait s'" if "procs s' = procs s" "regs s' = regs s"
    using that assms(4) by (simp add: inv_lease_wait_def)
  show ?thesis using assms(1)
  proof (cases rule: step.cases)
    case (read_acquire t f r' h)
    have "lease_pc r' (procs s ta)" for ta
      by (rule lease_pc_acquire [OF all read_acquire(3) own]) (use l in \<open>auto simp: lease_live_def\<close>)
    then show ?thesis unfolding read_acquire(1) by (simp add: inv_lease_wait_def lease_pc_free)
  next
    case (read_release t f h)
    have h: "leases (regs s) (ID f) = Some h" using reader_leases [OF assms(3), of t] read_release(2) by simp
    have "lease_pc (releaseLease (regs s) (ID f) h) (procs s ta)" for ta
      by (rule lease_pc_release [OF all h l [OF h] u [OF _ h]])
    then show ?thesis unfolding read_release(1) by (simp add: inv_lease_wait_def lease_pc_free)
  next
    case (read_refused t f r' e)
    with acquire_refused [OF read_refused(3)] show ?thesis by (auto intro!: go simp: lease_pc_free)
  next
    case (clean_lease_lookup t f ch rest)
    then show ?thesis
      by (auto intro!: go simp: lease_pc_free waitForLease_lookup_def split: option.splits)
  next
    case (clean_lease_check t h f ch rest)
    have "leases (regs s) (ID f) = Some h \<Longrightarrow> refs (lease_at (regs s) h) \<noteq> 0"
      using l [of "ID f" h] by (auto simp: lease_live_def)
    with at [OF clean_lease_check(2)] clean_lease_check(1) show ?thesis
      by (auto intro!: go simp: waitForLease_check_def settled_def)
  next
    case (clean_lease_wait t h f ch rest)
    have "leases (regs s) (ID f) = Some h \<Longrightarrow> \<not> lease_done (lease_at (regs s) h)"
      using l [of "ID f" h] by (auto simp: lease_live_def)
    with at [OF clean_lease_wait(2)] clean_lease_wait(1,3) show ?thesis
      by (auto intro!: go simp: waitForLease_done_def settled_def)
  next
    case (clean_remove t f ch rest)
    with at [OF clean_remove(2)] show ?thesis by (auto intro!: go)
  next
    case (delete_refused t f rest r')
    with beginDeletion_frame [OF delete_refused(3)] show ?thesis by (auto intro!: go simp: lease_pc_free)
  next
    case (delete_claim t f rest r' ch)
    with beginDeletion_frame [OF delete_claim(3)] show ?thesis by (auto intro!: go simp: lease_pc_free)
  next
    case (work_begin t j r' h)
    with beginConversion_frame [OF work_begin(3)] show ?thesis by (auto intro!: go simp: lease_pc_free)
  next
    case (clean_conv_check t h f ch rest r' wait)
    with check_frame [OF clean_conv_check(3)] show ?thesis by (auto intro!: go simp: lease_pc_free)
  next
    case (tick n)
    then show ?thesis by (intro same) auto
  next
    case stop
    then show ?thesis by (intro same) auto
  next
    case (work_write t j h f)
    then show ?thesis by (intro same) auto
  next
    case (timer_fires xs j ys q' ok)
    then show ?thesis by (intro same) auto
  qed (auto intro!: go simp: lease_pc_free split: option.splits)
qed

end
