(* ===== verification/Lifecycle_Conversions.thy ===== *)
theory Lifecycle_Conversions
  imports Lifecycle_Cleanup
begin

text \<open>
  Running conversions: one per file at a time, registered while it runs, and a cleanup that has waited
  for the conversion of its file meets no conversion of it until it is done.
\<close>

section \<open>The conversion register\<close>

fun conv_hold :: "proc \<Rightarrow> (string \<times> nat) option" where
  "conv_hold (WorkDone j h _) = Some (job_id j, h)"
| "conv_hold p = registered p"

definition inv_conv :: "sys \<Rightarrow> bool" where
  "inv_conv s \<longleftrightarrow>
     (\<forall>t i h. conv_hold (procs s t) = Some (i, h) \<longrightarrow> h < next_handle (regs s)
        \<and> active (lifecycle_at (regs s) h) \<and> \<not> lc_done (lifecycle_at (regs s) h)) \<and>
     (\<forall>t t' i i' h. conv_hold (procs s t) = Some (i, h) \<longrightarrow> conv_hold (procs s t') = Some (i', h) \<longrightarrow> t = t') \<and>
     (\<forall>t i h. registered (procs s t) = Some (i, h) \<longrightarrow> conversions (regs s) i = Some h) \<and>
     (\<forall>i h. conversions (regs s) i = Some h \<longrightarrow> (\<exists>t. registered (procs s t) = Some (i, h)))"

lemma conv_active: "inv_conv s \<Longrightarrow> conv_hold (procs s t) = Some (i, h) \<Longrightarrow>
    h < next_handle (regs s) \<and> active (lifecycle_at (regs s) h) \<and> \<not> lc_done (lifecycle_at (regs s) h)"
  unfolding inv_conv_def by blast

lemma conv_one: "inv_conv s \<Longrightarrow> conv_hold (procs s t) = Some (i, h) \<Longrightarrow>
    conv_hold (procs s t') = Some (i', h) \<Longrightarrow> t = t'"
  unfolding inv_conv_def by blast

lemma conv_registered:
  "inv_conv s \<Longrightarrow> registered (procs s t) = Some (i, h) \<Longrightarrow> conversions (regs s) i = Some h"
  unfolding inv_conv_def by blast

lemma conv_runs:
  "inv_conv s \<Longrightarrow> conversions (regs s) i = Some h \<Longrightarrow> \<exists>t. registered (procs s t) = Some (i, h)"
  unfolding inv_conv_def by blast

lemma hold_registered: "registered p = Some x \<Longrightarrow> conv_hold p = Some x"
  by (cases p) auto

lemma busy_registered: "busy p = Some x \<Longrightarrow> registered p = Some x"
  by (cases p) auto

lemma hold_carries: "conv_hold p = Some (i, h) \<Longrightarrow> i \<in> set (carries p)"
  by (cases p) auto

lemma after_clean_hold [simp]: "conv_hold (after_clean rest) = None"
  by (cases rest) auto

lemma conv_same:
  assumes "inv_conv s" and "\<And>t. conv_hold (procs s' t) = conv_hold (procs s t)"
    and "\<And>t. registered (procs s' t) = registered (procs s t)"
    and "conversions (regs s') = conversions (regs s)"
    and "\<And>h. active (lifecycle_at (regs s') h) = active (lifecycle_at (regs s) h)"
    and "\<And>h. lc_done (lifecycle_at (regs s') h) = lc_done (lifecycle_at (regs s) h)"
    and "next_handle (regs s) \<le> next_handle (regs s')"
  shows "inv_conv s'"
  using assms(1) order.strict_trans2 [OF _ assms(7)] unfolding inv_conv_def assms(2-6) by meson

lemma conv_goto:
  assumes "inv_conv s" and "procs s0 = procs s" and "conv_hold p = conv_hold (procs s t)"
    and "registered p = registered (procs s t)"
    and "conversions (regs s0) = conversions (regs s)"
    and "\<And>h. active (lifecycle_at (regs s0) h) = active (lifecycle_at (regs s) h)"
    and "\<And>h. lc_done (lifecycle_at (regs s0) h) = lc_done (lifecycle_at (regs s) h)"
    and "next_handle (regs s) \<le> next_handle (regs s0)"
  shows "inv_conv (goto t p s0)"
  by (rule conv_same [OF assms(1)]) (use assms in auto)

lemma carries_other:
  assumes "inv_base s" and "i \<in> set (carries (procs s t))" and "i \<in> set (carries (procs s t'))"
  shows "t = t'"
  using assms unfolding inv_base_def inv_tokens_def by blast

lemma step_inv_conv:
  assumes "step s s'" and "inv_base s" and "inv_conv s"
  shows "inv_conv s'"
proof -
  note go = conv_goto [OF assms(3)]
  note same = conv_same [OF assms(3)]
  note act = conv_active [OF assms(3)] and one = conv_one [OF assms(3)]
    and reg = conv_registered [OF assms(3)] and run = conv_runs [OF assms(3)]
  show ?thesis using assms(1)
  proof (cases rule: step.cases)
    case (work_begin t j r' h)
    have t: "conv_hold (procs s t) = None" "registered (procs s t) = None" using work_begin(2) by auto
    have c: "conversions (regs s) (job_id j) = None"
    proof (rule ccontr)
      assume "conversions (regs s) (job_id j) \<noteq> None"
      then obtain h' t' where r: "registered (procs s t') = Some (job_id j, h')" using run by blast
      have "job_id j \<in> set (carries (procs s t'))" by (rule hold_carries [OF hold_registered [OF r]])
      moreover have "job_id j \<in> set (carries (procs s t))" using work_begin(2) by simp
      ultimately have "t' = t" using carries_other [OF assms(2)] by blast
      then show False using r t by simp
    qed
    have n: "registered (procs s ta) \<noteq> Some (job_id j, k)" for ta k using reg c by fastforce
    have f: "conv_hold (procs s ta) \<noteq> Some (i, next_handle (regs s))" for ta i
      using act [of ta i "next_handle (regs s)"] by auto
    have r': "r' = (regs s)\<lparr>lifecycle_at := (lifecycle_at (regs s))(next_handle (regs s) :=
        \<lparr>active = True, lc_done = False, lc_cancelled = False\<rparr>),
        conversions := (conversions (regs s))(job_id j := Some h), next_handle := Suc h\<rparr>"
      and h: "h = next_handle (regs s)"
      using work_begin(3) by (auto simp: beginConversion_def)
    show ?thesis unfolding work_begin(1) inv_conv_def
    proof (intro conjI allI impI)
      fix ta i k assume "conv_hold (procs (goto t (WorkLookup j h) (s\<lparr>regs := r'\<rparr>)) ta) = Some (i, k)"
      then show "k < next_handle (regs (goto t (WorkLookup j h) (s\<lparr>regs := r'\<rparr>)))"
        and "active (lifecycle_at (regs (goto t (WorkLookup j h) (s\<lparr>regs := r'\<rparr>))) k)"
        and "\<not> lc_done (lifecycle_at (regs (goto t (WorkLookup j h) (s\<lparr>regs := r'\<rparr>))) k)"
        using act [of ta i k] f [of ta i] by (auto simp: r' h split: if_splits)
    next
      fix ta tb i i' k
      assume "conv_hold (procs (goto t (WorkLookup j h) (s\<lparr>regs := r'\<rparr>)) ta) = Some (i, k)"
        and "conv_hold (procs (goto t (WorkLookup j h) (s\<lparr>regs := r'\<rparr>)) tb) = Some (i', k)"
      then show "ta = tb" using one [of ta i k tb i'] f [of ta i] f [of tb i'] by (auto simp: h split: if_splits)
    next
      fix ta i k assume "registered (procs (goto t (WorkLookup j h) (s\<lparr>regs := r'\<rparr>)) ta) = Some (i, k)"
      then show "conversions (regs (goto t (WorkLookup j h) (s\<lparr>regs := r'\<rparr>))) i = Some k"
        using reg [of ta i k] n [of ta k] by (auto simp: r' split: if_splits)
    next
      fix i k assume a: "conversions (regs (goto t (WorkLookup j h) (s\<lparr>regs := r'\<rparr>))) i = Some k"
      show "\<exists>ta. registered (procs (goto t (WorkLookup j h) (s\<lparr>regs := r'\<rparr>)) ta) = Some (i, k)"
      proof (cases "i = job_id j")
        case True
        then show ?thesis using a by (intro exI [of _ t]) (simp add: r')
      next
        case False
        then obtain ta where ta: "registered (procs s ta) = Some (i, k)" using a run [of i k] by (auto simp: r')
        then have "ta \<noteq> t" using t by auto
        with ta show ?thesis by (intro exI [of _ ta]) simp
      qed
    qed
  next
    case (work_unregister t j h res)
    have r: "registered (procs s t) = Some (job_id j, h)" and o: "conv_hold (procs s t) = Some (job_id j, h)"
      using work_unregister(2) by auto
    then have c: "conversions (regs s) (job_id j) = Some h" using reg by blast
    have u: "ta = t" if "registered (procs s ta) = Some (job_id j, k)" for ta k
      using reg [OF that] c one [OF hold_registered [OF that]] o by auto
    show ?thesis unfolding work_unregister(1) inv_conv_def
    proof (intro conjI allI impI)
      fix i k assume a: "conversions (regs (goto t (WorkDone j h res)
          (s\<lparr>regs := endConversion_unregister (regs s) (job_id j) h\<rparr>))) i = Some k"
      then have "i \<noteq> job_id j" and "conversions (regs s) i = Some k" using c by (auto split: if_splits)
      then obtain ta where ta: "registered (procs s ta) = Some (i, k)" using run by blast
      then have "ta \<noteq> t" using r \<open>i \<noteq> job_id j\<close> by auto
      with ta show "\<exists>ta. registered (procs (goto t (WorkDone j h res)
          (s\<lparr>regs := endConversion_unregister (regs s) (job_id j) h\<rparr>)) ta) = Some (i, k)"
        by (intro exI [of _ ta]) simp
    qed (use act one reg u o c in \<open>auto split: if_splits\<close>)
  next
    case (work_done t j h res)
    have o: "conv_hold (procs s t) = Some (job_id j, h)" and r: "registered (procs s t) = None"
      using work_done(2) by auto
    show ?thesis unfolding work_done(1) inv_conv_def
    proof (intro conjI allI impI)
      fix i k assume a: "conversions (regs (goto t (HandleErr j res)
          (s\<lparr>regs := endConversion_finish (regs s) h\<rparr>))) i = Some k"
      then obtain ta where ta: "registered (procs s ta) = Some (i, k)" using run by auto
      then have "ta \<noteq> t" using r by auto
      with ta show "\<exists>ta. registered (procs (goto t (HandleErr j res)
          (s\<lparr>regs := endConversion_finish (regs s) h\<rparr>)) ta) = Some (i, k)"
        by (intro exI [of _ ta]) simp
    qed (use act one [OF o] one reg in \<open>auto split: if_splits\<close>)
  next
    case (read_acquire t f r' h)
    with acquireLease_frame [OF read_acquire(3)] show ?thesis by (auto intro!: go)
  next
    case (read_refused t f r' e)
    with acquireLease_frame [OF read_refused(3)] show ?thesis by (auto intro!: go)
  next
    case (delete_refused t f rest r')
    with beginDeletion_frame [OF delete_refused(3)] show ?thesis by (auto intro!: go)
  next
    case (delete_claim t f rest r' ch)
    with beginDeletion_frame [OF delete_claim(3)] show ?thesis by (auto intro!: go)
  next
    case (clean_conv_check t h f ch rest r' wait)
    with check_frame [OF clean_conv_check(3)] show ?thesis by (auto intro!: go)
  next
    case (tick n)
    then show ?thesis by (auto intro: same)
  next
    case stop
    then show ?thesis by (auto intro: same)
  next
    case (work_write t j h f)
    then show ?thesis by (auto intro: same)
  next
    case (timer_fires xs j ys q' ok)
    then show ?thesis by (auto intro: same)
  qed (auto intro!: go)
qed

section \<open>Waiting for a conversion\<close>

definition busy_on :: "sys \<Rightarrow> string \<Rightarrow> nat set" where
  "busy_on s i = {h. \<exists>t. busy (procs s t) = Some (i, h)}"

text \<open>A conversion that a cleanup waits for is over or in the hands of a worker.\<close>

definition pending_conv :: "sys \<Rightarrow> nat \<Rightarrow> bool" where
  "pending_conv s h \<longleftrightarrow> h < next_handle (regs s) \<and>
     (lc_done (lifecycle_at (regs s) h) \<or> (\<exists>t i. conv_hold (procs s t) = Some (i, h)))"

fun cancelled_by :: "proc \<Rightarrow> nat option" where
  "cancelled_by (Cleaning (CConvWait h) _ _ _) = Some h"
| "cancelled_by _ = None"

definition conv_pc :: "sys \<Rightarrow> proc \<Rightarrow> bool" where
  "conv_pc s p \<longleftrightarrow> (\<forall>i h. conv_wait p = Some (i, h) \<longrightarrow> busy_on s i \<subseteq> {h} \<and> pending_conv s h) \<and>
     (\<forall>i. past_conv p = Some i \<longrightarrow> busy_on s i = {}) \<and>
     (\<forall>h. cancelled_by p = Some h \<longrightarrow> lc_cancelled (lifecycle_at (regs s) h))"

definition inv_conv_wait :: "sys \<Rightarrow> bool" where
  "inv_conv_wait s \<longleftrightarrow> (\<forall>t. conv_pc s (procs s t))"

lemma conv_pc_simps [simp]:
  "conv_pc s (Cleaning (CConvCheck h) f ch rest) \<longleftrightarrow> busy_on s (ID f) \<subseteq> {h} \<and> pending_conv s h"
  "conv_pc s (Cleaning (CConvWait h) f ch rest) \<longleftrightarrow> busy_on s (ID f) \<subseteq> {h} \<and> pending_conv s h
     \<and> lc_cancelled (lifecycle_at (regs s) h)"
  "conv_pc s (Cleaning CLeaseLookup f ch rest) \<longleftrightarrow> busy_on s (ID f) = {}"
  "conv_pc s (Cleaning (CLeaseCheck h) f ch rest) \<longleftrightarrow> busy_on s (ID f) = {}"
  "conv_pc s (Cleaning (CLeaseWait h) f ch rest) \<longleftrightarrow> busy_on s (ID f) = {}"
  "conv_pc s (Cleaning CRemove f ch rest) \<longleftrightarrow> busy_on s (ID f) = {}"
  "conv_pc s (Cleaning CDeleteRow f ch rest) \<longleftrightarrow> busy_on s (ID f) = {}"
  by (auto simp: conv_pc_def)

lemma after_clean_cancelled [simp]: "cancelled_by (after_clean rest) = None"
  by (cases rest) auto

lemma conv_pc_free: "conv_wait p = None \<Longrightarrow> past_conv p = None \<Longrightarrow> cancelled_by p = None \<Longrightarrow> conv_pc s p"
  by (simp add: conv_pc_def)

lemma conv_wait_marked: "conv_wait p = Some (i, h) \<Longrightarrow> marked p = Some i"
  by (erule conv_wait.elims) auto

lemma past_conv_marked: "past_conv p = Some i \<Longrightarrow> marked p = Some i"
  by (erule past_conv.elims) (auto split: clean_pc.splits)

lemma cancelled_wait: "cancelled_by p = Some h \<Longrightarrow> \<exists>i. conv_wait p = Some (i, h)"
  by (erule cancelled_by.elims) auto

text \<open>A step that starts no conversion of a file that is gone.\<close>

definition calmer :: "sys \<Rightarrow> sys \<Rightarrow> bool" where
  "calmer s s' \<longleftrightarrow> (\<forall>i. gone (db s) i \<longrightarrow> busy_on s' i \<subseteq> busy_on s i) \<and>
     (\<forall>h. pending_conv s h \<longrightarrow> pending_conv s' h \<and>
        (lc_cancelled (lifecycle_at (regs s) h) \<longrightarrow> lc_cancelled (lifecycle_at (regs s') h)))"

lemma conv_pc_calmer:
  assumes "conv_pc s p" and "calmer s s'" and "\<And>i. marked p = Some i \<Longrightarrow> gone (db s) i"
  shows "conv_pc s' p"
  unfolding conv_pc_def
proof (intro conjI allI impI)
  fix i h assume w: "conv_wait p = Some (i, h)"
  then have "gone (db s) i" using assms(3) conv_wait_marked by blast
  then show "busy_on s' i \<subseteq> {h}" "pending_conv s' h"
    using w assms(1,2) unfolding conv_pc_def calmer_def by blast+
next
  fix i assume w: "past_conv p = Some i"
  then have "gone (db s) i" using assms(3) past_conv_marked by blast
  then show "busy_on s' i = {}" using w assms(1,2) unfolding conv_pc_def calmer_def by blast
next
  fix h assume w: "cancelled_by p = Some h"
  then show "lc_cancelled (lifecycle_at (regs s') h)"
    using cancelled_wait [OF w] assms(1,2) unfolding conv_pc_def calmer_def by blast
qed

lemma calmer_same:
  assumes "\<And>t. busy (procs s' t) = None \<or> busy (procs s' t) = busy (procs s t)"
    and "\<And>t. conv_hold (procs s' t) = conv_hold (procs s t)"
    and "\<And>h. lc_done (lifecycle_at (regs s') h) = lc_done (lifecycle_at (regs s) h)"
    and "\<And>h. lc_cancelled (lifecycle_at (regs s) h) \<Longrightarrow> lc_cancelled (lifecycle_at (regs s') h)"
    and "next_handle (regs s) \<le> next_handle (regs s')"
  shows "calmer s s'"
  using assms unfolding calmer_def busy_on_def pending_conv_def
  by (auto intro: order.strict_trans2) (metis option.distinct(1))+

lemma conv_wait_goto:
  assumes "inv_conv_wait s" and "inv_gone s" and "procs s0 = procs s"
    and "busy p = None \<or> busy p = busy (procs s t)" and "conv_hold p = conv_hold (procs s t)"
    and "\<And>h. lc_done (lifecycle_at (regs s0) h) = lc_done (lifecycle_at (regs s) h)"
    and "\<And>h. lc_cancelled (lifecycle_at (regs s) h) \<Longrightarrow> lc_cancelled (lifecycle_at (regs s0) h)"
    and "next_handle (regs s) \<le> next_handle (regs s0)"
    and "calmer s (goto t p s0) \<Longrightarrow> conv_pc (goto t p s0) p"
  shows "inv_conv_wait (goto t p s0)"
proof -
  have c: "calmer s (goto t p s0)"
    by (rule calmer_same) (use assms(3-8) in auto)
  have "conv_pc (goto t p s0) (procs s ta)" for ta
    by (rule conv_pc_calmer [OF _ c]) (use assms(1,2) in \<open>auto simp: inv_conv_wait_def inv_gone_def\<close>)
  then show ?thesis using assms(3,9) c by (simp add: inv_conv_wait_def)
qed

lemma calmer_empty: "calmer s s' \<Longrightarrow> gone (db s) i \<Longrightarrow> busy_on s i = {} \<Longrightarrow> busy_on s' i = {}"
  unfolding calmer_def by blast

lemma calmer_pending: "calmer s s' \<Longrightarrow> pending_conv s h \<Longrightarrow> pending_conv s' h"
  unfolding calmer_def by blast

lemma calmer_sub: "calmer s s' \<Longrightarrow> gone (db s) i \<Longrightarrow> busy_on s i \<subseteq> X \<Longrightarrow> busy_on s' i \<subseteq> X"
  unfolding calmer_def by blast

lemma step_inv_conv_wait:
  assumes "step s s'" and "inv_base s" and "inv_gone s" and "inv_conv s" and "inv_conv_wait s"
  shows "inv_conv_wait s'"
proof -
  note go = conv_wait_goto [OF assms(5,3)]
  have all: "\<And>t. conv_pc s (procs s t)" using assms(5) by (simp add: inv_conv_wait_def)
  then have at: "\<And>t p. procs s t = p \<Longrightarrow> conv_pc s p" by blast
  have mg: "\<And>t i. marked (procs s t) = Some i \<Longrightarrow> gone (db s) i" using assms(3) by (simp add: inv_gone_def)
  have busy_conv: "h \<in> busy_on s i \<Longrightarrow> conversions (regs s) i = Some h \<and> active (lifecycle_at (regs s) h)
      \<and> \<not> lc_done (lifecycle_at (regs s) h)" for i h
    using conv_registered [OF assms(4)] conv_active [OF assms(4)] busy_registered hold_registered
    unfolding busy_on_def by fast
  have same: "inv_conv_wait s'" if "procs s' = procs s" "regs s' = regs s"
  proof -
    have "calmer s s'" by (rule calmer_same) (use that in auto)
    then show ?thesis using that conv_pc_calmer [OF all _ mg] by (simp add: inv_conv_wait_def)
  qed
  have finish: "inv_conv_wait s'" if "calmer s s'" "procs s' = (procs s)(t := p)" "conv_pc s' p" for t p
    using that conv_pc_calmer [OF all that(1) mg] by (simp add: inv_conv_wait_def)
  show ?thesis using assms(1)
  proof (cases rule: step.cases)
    case (work_begin t j r' h)
    have r': "r' = (regs s)\<lparr>lifecycle_at := (lifecycle_at (regs s))(next_handle (regs s) :=
        \<lparr>active = True, lc_done = False, lc_cancelled = False\<rparr>),
        conversions := (conversions (regs s))(job_id j := Some h), next_handle := Suc h\<rparr>"
      and h: "h = next_handle (regs s)"
      using work_begin(3) by (auto simp: beginConversion_def)
    have "calmer s s'" unfolding work_begin(1) calmer_def busy_on_def pending_conv_def
      using work_begin(2) by (auto simp: r' h less_Suc_eq split: if_splits) (metis conv_hold.simps option.distinct(1) registered.simps)+
    then show ?thesis by (rule finish [where t = t and p = "WorkLookup j h"]) (simp_all add: work_begin(1) conv_pc_free)
  next
    case (work_lookup t j h flt f)
    have ng: "\<not> gone (db s) (job_id j)"
      using lookup_row [OF work_lookup(3)] by (simp add: gone_def holds_iff)
    have "busy_on s' i \<subseteq> busy_on s i" if "gone (db s) i" for i
      using that ng unfolding work_lookup(1) busy_on_def by (auto split: if_splits)
    moreover have "pending_conv s' k = pending_conv s k" for k
    proof -
      have "conv_hold (procs s' ta) = conv_hold (procs s ta)" for ta using work_lookup(1,2) by simp
      then show ?thesis unfolding pending_conv_def by (simp add: work_lookup(1))
    qed
    ultimately have "calmer s s'" unfolding calmer_def by (simp add: work_lookup(1))
    then show ?thesis
      by (rule finish [where t = t and p = "Working WStart j h f"]) (simp_all add: work_lookup(1) conv_pc_free)
  next
    case (work_done t j h res)
    have "busy_on s' i \<subseteq> busy_on s i" for i
      unfolding work_done(1) busy_on_def by (auto split: if_splits)
    moreover have "pending_conv s' k" if "pending_conv s k" for k
    proof (cases "k = h")
      case True
      with that show ?thesis by (simp add: pending_conv_def work_done(1))
    next
      case False
      have keep: "conv_hold (procs s ta) = Some (i, k) \<Longrightarrow> conv_hold (procs s' ta) = Some (i, k)" for ta i
        using False work_done(1,2) by auto
      have "lc_done (lifecycle_at (regs s') k) = lc_done (lifecycle_at (regs s) k)"
        and "next_handle (regs s') = next_handle (regs s)"
        using False by (simp_all add: work_done(1))
      then show ?thesis using that keep unfolding pending_conv_def by metis
    qed
    ultimately have "calmer s s'" unfolding calmer_def by (simp add: work_done(1))
    then show ?thesis
      by (rule finish [where t = t and p = "HandleErr j res"]) (simp_all add: work_done(1) conv_pc_free)
  next
    case (clean_conv_lookup t f ch rest)
    have g: "gone (db s) (ID f)" using mg [of t] clean_conv_lookup(2) by simp
    have sub: "busy_on s (ID f) \<subseteq> {h}" if "conversions (regs s) (ID f) = Some h" for h
      using busy_conv that by fastforce
    have emp: "busy_on s (ID f) = {}" if "conversions (regs s) (ID f) = None"
      using busy_conv that by fastforce
    have pen: "pending_conv s h" if c: "conversions (regs s) (ID f) = Some h" for h
    proof -
      obtain tb where "registered (procs s tb) = Some (ID f, h)" using conv_runs [OF assms(4) c] by blast
      then have "conv_hold (procs s tb) = Some (ID f, h)" by (rule hold_registered)
      then show ?thesis using conv_active [OF assms(4)] unfolding pending_conv_def by blast
    qed
    show ?thesis
    proof (cases "conversions (regs s) (ID f)")
      case None
      show ?thesis unfolding clean_conv_lookup(1) waitForConversion_lookup_def None
        by (rule go) (use clean_conv_lookup(2) calmer_empty [OF _ g emp [OF None]] in auto)
    next
      case (Some h)
      show ?thesis unfolding clean_conv_lookup(1) waitForConversion_lookup_def Some
        by (rule go) (use clean_conv_lookup(2) calmer_sub [OF _ g sub [OF Some]]
          calmer_pending [OF _ pen [OF Some]] in auto)
    qed
  next
    case (clean_conv_check t h f ch rest r' wait)
    have g: "gone (db s) (ID f)" using mg [of t] clean_conv_check(2) by simp
    have c: "busy_on s (ID f) \<subseteq> {h}" "pending_conv s h" using at [OF clean_conv_check(2)] by auto
    have r': "r' = (if wait then cancelConversion (regs s) h else regs s)" "wait = active (lifecycle_at (regs s) h)"
      using check_frame [OF clean_conv_check(3)] by auto
    have emp: "busy_on s (ID f) = {}" if "\<not> wait" using that busy_conv c(1) r'(2) by fastforce
    show ?thesis unfolding clean_conv_check(1)
    proof (rule go)
      assume cal: "calmer s (goto t (Cleaning (if wait then CConvWait h else CLeaseLookup) f ch rest) (s\<lparr>regs := r'\<rparr>))"
      show "conv_pc (goto t (Cleaning (if wait then CConvWait h else CLeaseLookup) f ch rest) (s\<lparr>regs := r'\<rparr>))
          (Cleaning (if wait then CConvWait h else CLeaseLookup) f ch rest)"
        using calmer_empty [OF cal g] calmer_sub [OF cal g c(1)] calmer_pending [OF cal c(2)] emp r'(1)
        by (cases wait) auto
    qed (use clean_conv_check(2) r' in auto)
  next
    case (clean_conv_wait t h f ch rest)
    have g: "gone (db s) (ID f)" using mg [of t] clean_conv_wait(2) by simp
    have "busy_on s (ID f) \<subseteq> {h}" using at [OF clean_conv_wait(2)] by simp
    then have e: "busy_on s (ID f) = {}"
      using busy_conv clean_conv_wait(3) by (fastforce simp: waitForConversion_done_def)
    show ?thesis unfolding clean_conv_wait(1)
      by (rule go) (use clean_conv_wait(2) calmer_empty [OF _ g e] in auto)
  next
    case (clean_lease_lookup t f ch rest)
    have g: "gone (db s) (ID f)" using mg [of t] clean_lease_lookup(2) by simp
    have e: "busy_on s (ID f) = {}" using at [OF clean_lease_lookup(2)] by simp
    show ?thesis unfolding clean_lease_lookup(1)
      by (rule go) (use clean_lease_lookup(2) calmer_empty [OF _ g e] in \<open>auto split: option.splits\<close>)
  next
    case (clean_lease_check t h f ch rest)
    have g: "gone (db s) (ID f)" using mg [of t] clean_lease_check(2) by simp
    have e: "busy_on s (ID f) = {}" using at [OF clean_lease_check(2)] by simp
    show ?thesis unfolding clean_lease_check(1)
      by (rule go) (use clean_lease_check(2) calmer_empty [OF _ g e] in auto)
  next
    case (clean_lease_wait t h f ch rest)
    have g: "gone (db s) (ID f)" using mg [of t] clean_lease_wait(2) by simp
    have e: "busy_on s (ID f) = {}" using at [OF clean_lease_wait(2)] by simp
    show ?thesis unfolding clean_lease_wait(1)
      by (rule go) (use clean_lease_wait(2) calmer_empty [OF _ g e] in auto)
  next
    case (clean_remove t f ch rest)
    have g: "gone (db s) (ID f)" using mg [of t] clean_remove(2) by simp
    have e: "busy_on s (ID f) = {}" using at [OF clean_remove(2)] by simp
    show ?thesis unfolding clean_remove(1)
      by (rule go) (use clean_remove(2) calmer_empty [OF _ g e] in auto)
  next
    case (read_acquire t f r' h)
    with acquireLease_frame [OF read_acquire(3)] show ?thesis by (auto intro!: go conv_pc_free)
  next
    case (read_refused t f r' e)
    with acquireLease_frame [OF read_refused(3)] show ?thesis by (auto intro!: go conv_pc_free)
  next
    case (delete_refused t f rest r')
    with beginDeletion_frame [OF delete_refused(3)] show ?thesis by (auto intro!: go conv_pc_free)
  next
    case (delete_claim t f rest r' ch)
    with beginDeletion_frame [OF delete_claim(3)] show ?thesis by (auto intro!: go conv_pc_free)
  next
    case (tick n)
    then show ?thesis by (intro same) auto
  next
    case stop
    then show ?thesis by (intro same) auto
  next
    case (work_write t j h f)
    then show ?thesis by (intro same) auto
  next
    case (timer_fires xs j ys q' ok)
    then show ?thesis by (intro same) auto
  next
    case (clean_mark t f ch rest flt db' res)
    then show ?thesis by (auto intro!: go conv_pc_free)
  qed (auto intro!: go conv_pc_free)
qed

end
