(* ===== verification/Lifecycle_Disk.thy ===== *)
theory Lifecycle_Disk
  imports Lifecycle_Leases Lifecycle_Conversions
begin

text \<open>
  All invariants of the file service together, and the directories of the files on disk: which exist,
  which are in use, which have been removed for good.
\<close>

section \<open>Reachable states\<close>

definition inv :: "sys \<Rightarrow> bool" where
  "inv s \<longleftrightarrow> inv_base s \<and> inv_own s \<and> inv_gone s \<and> inv_leases s \<and> inv_lease_wait s \<and> inv_conv s \<and> inv_conv_wait s"

lemma step_inv: "step s s' \<Longrightarrow> inv s \<Longrightarrow> inv s'"
  unfolding inv_def
  using step_inv_base step_inv_own step_inv_gone step_inv_leases step_inv_lease_wait step_inv_conv
    step_inv_conv_wait by metis

lemma boot_procs:
  "procs (boot cap now rows dirs) t = (if t = 0 then Starter (map ID (filter (pending now) rows)) else Idle)"
  by (simp add: boot_def)

lemma boot_inv: "start_ok rows dirs \<Longrightarrow> inv (boot cap now rows dirs)"
  using boot_inv_base [of rows dirs cap now]
  by (auto simp: inv_def inv_own_def inv_gone_def inv_leases_def inv_lease_wait_def inv_conv_def
      inv_conv_wait_def boot_procs lease_pc_free conv_pc_free readers_def)
    (simp_all add: boot_def registers_init_def)

lemma reach_inv: "reach cap now rows dirs s \<Longrightarrow> inv s"
  by (induction rule: reach.induct) (auto intro: boot_inv step_inv)

lemma invD:
  assumes "inv s"
  shows "inv_base s" "inv_own s" "inv_gone s" "inv_leases s" "inv_lease_wait s" "inv_conv s" "inv_conv_wait s"
    "inv_rows s" "inv_used s" "inv_tokens s" "inv_fresh s" "inv_records s" "db_inv (db s)"
  using assms by (auto simp: inv_def inv_base_def inv_rows_def)

lemma record_wf: "inv s \<Longrightarrow> f \<in> set (records (procs s t)) \<Longrightarrow> file_wf f"
  using invD(12) [of s] unfolding inv_records_def
  by (cases "procs s t") (auto simp: list_all_iff dest!: spec [of _ t])

lemma fresh_facts:
  assumes "inv s" and "fresh_file (procs s t) = Some f"
  shows "file_wf f" "row (db s) (ID f) = None" "\<And>ta. ID f \<notin> ID ` set (records (procs s ta))" "ID f \<in> used s"
proof -
  show "file_wf f" "row (db s) (ID f) = None" "\<And>ta. ID f \<notin> ID ` set (records (procs s ta))"
    using invD(11) [OF assms(1)] assms(2) unfolding inv_fresh_def by blast+
  have "ID f \<in> set (carries (procs s t))" using assms(2) by (cases "procs s t") auto
  then show "ID f \<in> used s"
    using invD(9) [OF assms(1)] unfolding inv_used_def proc_used_def by (auto simp: list_all_iff)
qed

lemma row_facts:
  assumes "inv s" and "row (db s) i = Some f"
  shows "file_wf f" "ID f = i" "i \<in> used s"
  using invD(8) [OF assms(1)] assms(2) unfolding inv_rows_def by (auto dest: row_SomeD)

section \<open>Directories\<close>

fun dir_pc :: "path set \<Rightarrow> proc \<Rightarrow> bool" where
  "dir_pc D (CreateAdd f) \<longleftrightarrow> file_dir f \<in> D"
| "dir_pc D (Cleaning c f ch rest) \<longleftrightarrow> (c = CDeleteRow \<longrightarrow> file_dir f \<notin> D)"
| "dir_pc D _ \<longleftrightarrow> True"

lemma dir_pc_after [simp]: "dir_pc D (after_clean rest)"
  by (cases rest) auto

definition inv_disk :: "sys \<Rightarrow> bool" where
  "inv_disk s \<longleftrightarrow> (\<forall>i f. row (db s) i = Some f \<longrightarrow> DeletedAt f = None \<longrightarrow> file_dir f \<in> disk s) \<and>
     (\<forall>t. dir_pc (disk s) (procs s t))"

lemma disk_goto:
  assumes "inv_disk s" and "db_inv (db s)" and "procs s0 = procs s" and "shrinks (db s) (db s0)"
    and "\<And>i f. row (db s) i = Some f \<Longrightarrow> DeletedAt f = None \<Longrightarrow> file_dir f \<in> disk s \<Longrightarrow> file_dir f \<in> disk s0"
    and "\<And>ta. ta \<noteq> t \<Longrightarrow> dir_pc (disk s) (procs s ta) \<Longrightarrow> dir_pc (disk s0) (procs s ta)"
    and "dir_pc (disk s0) p"
  shows "inv_disk (goto t p s0)"
proof -
  have "file_dir f' \<in> disk s0" if r: "row (db s0) i = Some f'" "DeletedAt f' = None" for i f'
  proof -
    obtain f where f: "row (db s) i = Some f" "SourcePath f' = SourcePath f" "DeletedAt f = None"
      using shrinks_row [OF assms(4,2) r(1)] r(2) by auto
    then have "file_dir f \<in> disk s" using assms(1) by (auto simp: inv_disk_def)
    with f assms(5) file_dir_cong [OF f(2)] show ?thesis by simp
  qed
  then show ?thesis using assms(1,3,6,7) by (simp add: inv_disk_def)
qed

lemma dir_pc_insert:
  "dir_pc D p \<Longrightarrow> (\<And>f ch rest. p = Cleaning CDeleteRow f ch rest \<Longrightarrow> file_dir f \<noteq> d) \<Longrightarrow> dir_pc (insert d D) p"
  by (cases p) auto

lemma dir_pc_remove:
  "dir_pc D p \<Longrightarrow> (\<And>f. p = CreateAdd f \<Longrightarrow> file_dir f \<noteq> d) \<Longrightarrow> dir_pc (D - {d}) p"
  by (cases p) auto

lemma gone_live: "gone rows i \<Longrightarrow> row rows i = Some f \<Longrightarrow> DeletedAt f \<noteq> None"
  by (simp add: gone_def holds_iff)

text \<open>No directory that is removed belongs to a live row, to an upload, to a reader or to a worker.\<close>

lemma remove_safe:
  assumes "inv s" and "procs s t = Cleaning CRemove f ch rest"
  shows "row (db s) i = Some g \<Longrightarrow> DeletedAt g = None \<Longrightarrow> file_dir g \<noteq> file_dir f"
    and "fresh_file (procs s ta) = Some g \<Longrightarrow> file_dir g \<noteq> file_dir f"
    and "procs s ta = Reading g h \<Longrightarrow> file_dir g \<noteq> file_dir f"
    and "procs s ta = Working w j h g \<Longrightarrow> file_dir g \<noteq> file_dir f"
proof -
  have wf: "file_wf f" using record_wf [OF assms(1), of f t] assms(2) by simp
  have g: "gone (db s) (ID f)" using invD(3) [OF assms(1)] assms(2) unfolding inv_gone_def by (metis clean_pc.distinct marked.simps(1))
  show "file_dir g \<noteq> file_dir f" if "row (db s) i = Some g" "DeletedAt g = None"
    using file_wf_distinct [OF row_facts(1) [OF assms(1) that(1)] wf] row_facts(2) [OF assms(1) that(1)]
      gone_live [OF g] that by auto
  show "file_dir g \<noteq> file_dir f" if "fresh_file (procs s ta) = Some g"
    using file_wf_distinct [OF fresh_facts(1) [OF assms(1) that] wf] fresh_facts(3) [OF assms(1) that, of t]
      assms(2) by auto
  show "file_dir g \<noteq> file_dir f" if "procs s ta = Reading g h"
  proof
    assume "file_dir g = file_dir f"
    then have "ID g = ID f" using file_wf_distinct [OF record_wf [OF assms(1), of g ta] wf] that by simp
    moreover have "leases (regs s) (ID g) = Some h" using reader_leases [OF invD(4) [OF assms(1)], of ta] that by simp
    moreover have "leases (regs s) (ID f) = None"
      using invD(5) [OF assms(1)] assms(2) unfolding inv_lease_wait_def by (metis lease_pc_simps(3))
    ultimately show False by simp
  qed
  show "file_dir g \<noteq> file_dir f" if "procs s ta = Working w j h g"
  proof
    assume d: "file_dir g = file_dir f"
    have "record_ok (procs s ta)" using invD(12) [OF assms(1)] unfolding inv_records_def by blast
    then have "file_wf g" "job_id j = ID g" using that by auto
    with d wf have "job_id j = ID f" using file_wf_distinct by metis
    then have "h \<in> busy_on s (ID f)" using that by (auto simp: busy_on_def intro!: exI [of _ ta])
    moreover have "busy_on s (ID f) = {}"
      using invD(7) [OF assms(1)] assms(2) unfolding inv_conv_wait_def by (metis conv_pc_simps(6))
    ultimately show False by simp
  qed
qed

lemma cleanup_safe:
  assumes "inv s" and "procs s t = CreateCleanup f"
  shows "row (db s) i = Some g \<Longrightarrow> file_dir g \<noteq> file_dir f"
    and "fresh_file (procs s ta) = Some g \<Longrightarrow> ta \<noteq> t \<Longrightarrow> file_dir g \<noteq> file_dir f"
    and "g \<in> set (records (procs s ta)) \<Longrightarrow> file_dir g \<noteq> file_dir f"
proof -
  have fr: "fresh_file (procs s t) = Some f" using assms(2) by simp
  note ff = fresh_facts [OF assms(1) fr]
  show "file_dir g \<noteq> file_dir f" if "row (db s) i = Some g"
    using file_wf_distinct [OF row_facts(1) [OF assms(1) that] ff(1)] row_facts(2) [OF assms(1) that] ff(2) that
    by auto
  show "file_dir g \<noteq> file_dir f" if "fresh_file (procs s ta) = Some g" "ta \<noteq> t"
  proof
    assume "file_dir g = file_dir f"
    then have "ID g = ID f" using file_wf_distinct [OF fresh_facts(1) [OF assms(1) that(1)] ff(1)] by simp
    moreover have "ID g \<in> set (carries (procs s ta))" using that(1) by (cases "procs s ta") auto
    moreover have "ID f \<in> set (carries (procs s t))" using assms(2) by simp
    ultimately show False using carries_other [OF invD(1) [OF assms(1)]] that(2) by metis
  qed
  show "file_dir g \<noteq> file_dir f" if "g \<in> set (records (procs s ta))"
    using file_wf_distinct [OF record_wf [OF assms(1) that] ff(1)] ff(3) [of ta] that by (metis imageI)
qed

lemma write_safe:
  assumes "inv s" and "procs s t = Working w j h f" and "procs s ta = Cleaning c g ch rest"
    and "past_conv (procs s ta) = Some (ID g)"
  shows "file_dir g \<noteq> file_dir f"
proof
  assume d: "file_dir g = file_dir f"
  have "record_ok (procs s t)" using invD(12) [OF assms(1)] unfolding inv_records_def by blast
  then have "file_wf f" "job_id j = ID f" using assms(2) by auto
  moreover have "file_wf g" using record_wf [OF assms(1), of g ta] assms(3) by simp
  ultimately have "job_id j = ID g" using d file_wf_distinct by metis
  then have "h \<in> busy_on s (ID g)" using assms(2) by (auto simp: busy_on_def intro!: exI [of _ t])
  moreover have "busy_on s (ID g) = {}"
    using invD(7) [OF assms(1)] assms(4) unfolding inv_conv_wait_def conv_pc_def by blast
  ultimately show False by simp
qed

lemma used_dir:
  assumes "inv s" and "new_record f" and "ID f \<notin> used s" and "g \<in> set (records (procs s ta))"
  shows "file_dir g \<noteq> file_dir f"
proof
  assume "file_dir g = file_dir f"
  then have "ID g = ID f"
    using file_wf_distinct [OF record_wf [OF assms(1,4)]] assms(2) by (simp add: new_record_def)
  moreover have "ID g \<in> used s"
    using invD(9) [OF assms(1)] assms(4) unfolding inv_used_def proc_used_def by (auto simp: list_all_iff)
  ultimately show False using assms(3) by simp
qed

lemma step_inv_disk:
  assumes "step s s'" and "inv s" and "inv_disk s"
  shows "inv_disk s'"
proof -
  note go = disk_goto [OF assms(3) invD(13) [OF assms(2)]]
  have same: "inv_disk s'" if "procs s' = procs s" "db s' = db s" "disk s' = disk s"
    using that assms(3) by (simp add: inv_disk_def)
  have dp: "dir_pc (disk s) (procs s ta)" for ta using assms(3) by (simp add: inv_disk_def)
  show ?thesis using assms(1)
  proof (cases rule: step.cases)
    case (create_files t f)
    have n: "file_dir g \<noteq> file_dir f" if "procs s ta = Cleaning CDeleteRow g ch rest" for ta g ch rest
      using used_dir [OF assms(2) create_files(4,3), of g ta] that by simp
    have "dir_pc (insert (file_dir f) (disk s)) (procs s ta)" for ta
      by (rule dir_pc_insert [OF dp n])
    then show ?thesis unfolding create_files(1) by (intro go) auto
  next
    case (create_add t f flt db')
    have db': "db' = db s @ [f]" using add_ok [OF create_add(3)] by simp
    have "file_dir f \<in> disk s" using dp [of t] create_add(2) by simp
    then show ?thesis using assms(3) unfolding create_add(1) db'
      by (auto simp: inv_disk_def row_append split: option.splits if_splits)
  next
    case (create_add_fails t f flt db' e)
    with add_fails [OF create_add_fails(3)] show ?thesis by (auto intro!: go)
  next
    case (create_cleanup t f d)
    note safe = cleanup_safe [OF assms(2) create_cleanup(2)]
    have n: "file_dir g \<noteq> file_dir f" if "procs s ta = CreateAdd g" for ta g
      using safe(2) [of ta g] that create_cleanup(2) by (cases "ta = t") auto
    have "dir_pc (disk s - {file_dir f}) (procs s ta)" for ta
      by (rule dir_pc_remove [OF dp n])
    then show ?thesis using safe(1) create_cleanup(3) unfolding create_cleanup(1) by (intro go) auto
  next
    case (clean_remove t f ch rest)
    note safe = remove_safe [OF assms(2) clean_remove(2)]
    have n: "file_dir g \<noteq> file_dir f" if "procs s ta = CreateAdd g" for ta g
      using safe(2) [of ta g] that by auto
    have "dir_pc (disk s - {file_dir f}) (procs s ta)" for ta
      by (rule dir_pc_remove [OF dp n])
    then show ?thesis using safe(1) unfolding clean_remove(1) by (intro go) auto
  next
    case (clean_remove_fails t f ch rest d)
    note safe = remove_safe [OF assms(2) clean_remove_fails(2)]
    have n: "file_dir g \<noteq> file_dir f" if "procs s ta = CreateAdd g" for ta g
      using safe(2) [of ta g] that by auto
    have "dir_pc (disk s - {file_dir f}) (procs s ta)" for ta
      by (rule dir_pc_remove [OF dp n])
    then show ?thesis using safe(1) clean_remove_fails(3) unfolding clean_remove_fails(1) by (intro go) auto
  next
    case (work_write t j h f)
    have n: "file_dir g \<noteq> file_dir f" if "procs s ta = Cleaning CDeleteRow g ch rest" for ta g ch rest
      using write_safe [OF assms(2) work_write(2) that] that by simp
    have "dir_pc (insert (file_dir f) (disk s)) (procs s ta)" for ta
      by (rule dir_pc_insert [OF dp n])
    then show ?thesis using assms(3) unfolding work_write(1) by (simp add: inv_disk_def)
  next
    case (tick n)
    then show ?thesis by (intro same) auto
  next
    case stop
    then show ?thesis by (intro same) auto
  next
    case (timer_fires xs j ys q' ok)
    then show ?thesis by (intro same) auto
  qed (auto intro!: go intro: shrink_rules split: option.splits)
qed

lemma boot_inv_disk: "start_ok rows dirs \<Longrightarrow> inv_disk (boot cap now rows dirs)"
  by (auto simp: inv_disk_def boot_def start_ok_def list_all_iff dest: row_SomeD)

lemma reach_inv_disk: "reach cap now rows dirs s \<Longrightarrow> inv_disk s"
  by (induction rule: reach.induct) (auto intro: boot_inv_disk step_inv_disk reach_inv)

end
