(* ===== verification/Lifecycle_Demo.thy ===== *)
theory Lifecycle_Demo
  imports Lifecycle
begin

text \<open>
  Concrete runs of the file service on one stored file, for the witnesses: a reader (goroutine 1) and a
  deletion (goroutine 2) in two orders, and a conversion (goroutine 0) that a deletion interrupts.
\<close>

definition three :: "proc \<Rightarrow> proc \<Rightarrow> proc \<Rightarrow> nat \<Rightarrow> proc" where
  "three a b c t = (if t = 0 then a else if t = 1 then b else if t = 2 then c else Idle)"

lemma three_simps [simp]:
  "three a b c 0 = a" "three a b c (Suc 0) = b" "three a b c 2 = c"
  "(three a b c)(0 := x) = three x b c" "(three a b c)(Suc 0 := x) = three a x c"
  "(three a b c)(2 := x) = three a b x"
  by (auto simp: three_def fun_eq_iff)

definition demo_dir :: path where
  "demo_dir = [''files'', ''shared'', ''file_a'']"

definition demo :: "table \<Rightarrow> path set \<Rightarrow> registers \<Rightarrow> conversionJob queue \<Rightarrow> (nat \<Rightarrow> proc) \<Rightarrow> sys" where
  "demo rows dirs r q ps = \<lparr>db = rows, disk = dirs, regs = r, jobs = q, timers = [],
     retryCount = (\<lambda>_. 0), clock = 200, stopping = False, used = {''file_a''}, procs = ps\<rparr>"

lemma demo_simps [simp]:
  "db (demo rows dirs r q ps) = rows" "disk (demo rows dirs r q ps) = dirs" "regs (demo rows dirs r q ps) = r"
  "jobs (demo rows dirs r q ps) = q" "clock (demo rows dirs r q ps) = 200" "procs (demo rows dirs r q ps) = ps"
  "stopping (demo rows dirs r q ps) = False"
  by (simp_all add: demo_def)

lemma demo_update:
  "goto t p (demo rows dirs r q ps) = demo rows dirs r q (ps(t := p))"
  "(demo rows dirs r q ps)\<lparr>regs := r'\<rparr> = demo rows dirs r' q ps"
  "(demo rows dirs r q ps)\<lparr>db := rows'\<rparr> = demo rows' dirs r q ps"
  "(demo rows dirs r q ps)\<lparr>disk := dirs'\<rparr> = demo rows dirs' r q ps"
  "(demo rows dirs r q ps)\<lparr>jobs := q'\<rparr> = demo rows dirs r q' ps"
  by (simp_all add: demo_def goto_def)

lemma sample_simps [simp]:
  "ID sample_file = ''file_a''" "TenantID sample_file = ''shared''" "DeletedAt sample_file = None"
  "Status sample_file = ''uploaded''" "SourcePath sample_file = ''files/shared/file_a/source.txt''"
  "ExpiresAt sample_file = 400" "file_dir sample_file = demo_dir"
  by (simp_all add: sample_file_def file_dir_def demo_dir_def path_of_def)

abbreviation demo_reach :: "sys \<Rightarrow> bool" where
  "demo_reach \<equiv> reach 1 200 [sample_file] {demo_dir}"

lemma demo_next: "demo_reach s \<Longrightarrow> step s x \<Longrightarrow> x = s' \<Longrightarrow> demo_reach s'"
  by (metis reach.step)

lemma demo_start_ok: "start_ok [sample_file] {demo_dir}"
  by (simp add: start_ok_def db_inv_def file_wf_def) (simp add: demo_dir_def)

lemma demo_boot:
  "demo_reach (demo [sample_file] {demo_dir} registers_init (new_queue 1) (three (Starter [''file_a'']) Idle Idle))"
proof -
  have "boot 1 200 [sample_file] {demo_dir} =
      demo [sample_file] {demo_dir} registers_init (new_queue 1) (three (Starter [''file_a'']) Idle Idle)"
    by (auto simp: boot_def demo_def pending_def live_def three_def)
  then show ?thesis using reach.boot [OF demo_start_ok, of 1 200] by simp
qed

lemma demo_get: "store_Get NoFault 200 [sample_file] ''file_a'' ''shared'' = Inr (Some sample_file)"
  by (simp add: store_Get_def query_row_def live_def)

lemma demo_mark: "store_MarkDeleted NoFault 200 [sample_file] ''file_a'' ''shared''
    = ([set_deleted 200 sample_file], Inr True)"
  by (simp add: store_MarkDeleted_def affect_def)

lemma demo_delete: "store_Delete NoFault [set_deleted 200 sample_file] ''file_a'' ''shared'' = ([], Inr True)"
  by (simp add: store_Delete_def affect_def set_deleted_def)

abbreviation claimed :: "registers" where
  "claimed \<equiv> registers_init\<lparr>deleting := (\<lambda>_. None)(''file_a'' := Some 0), next_handle := 1\<rparr>"

text \<open>A reader fetches the record, and then a whole deletion runs before it takes its lease.\<close>

abbreviation starter_a :: "proc" where "starter_a \<equiv> Starter [''file_a'']"

abbreviation cleaning_a :: "clean_pc \<Rightarrow> nat \<Rightarrow> proc" where
  "cleaning_a c ch \<equiv> Cleaning c sample_file ch None"

lemma race_begin:
  "demo_reach (demo [sample_file] {demo_dir} claimed (new_queue 1) (three starter_a (ReadAcquire sample_file) (cleaning_a CMark 0)))"
proof -
  have 1: "demo_reach (demo [sample_file] {demo_dir} registers_init (new_queue 1) (three starter_a (ReadAcquire sample_file) Idle))"
    by (rule demo_next [OF demo_boot step.read_get [where t = 1]]) (simp, simp, rule demo_get, simp add: demo_update)
  have 2: "demo_reach (demo [sample_file] {demo_dir} registers_init (new_queue 1)
      (three starter_a (ReadAcquire sample_file) (DeleteBegin sample_file None)))"
    by (rule demo_next [OF 1 step.delete_get [where t = 2]]) (simp, simp, rule demo_get, simp add: demo_update)
  show ?thesis
    by (rule demo_next [OF 2 step.delete_claim [where t = 2 and f = sample_file and rest = None and r' = claimed and ch = 0]])
      (simp, simp add: beginDeletion_def registers_init_def, simp add: demo_update)
qed

lemma race_removed:
  "demo_reach (demo [set_deleted 200 sample_file] {} claimed (new_queue 1)
     (three starter_a (ReadAcquire sample_file) (cleaning_a CDeleteRow 0)))"
proof -
  have 1: "demo_reach (demo [set_deleted 200 sample_file] {demo_dir} claimed (new_queue 1)
      (three starter_a (ReadAcquire sample_file) (cleaning_a CConvLookup 0)))"
    by (rule demo_next [OF race_begin step.clean_mark [where t = 2]]) (simp, simp, rule demo_mark, simp add: demo_update)
  have 2: "demo_reach (demo [set_deleted 200 sample_file] {demo_dir} claimed (new_queue 1)
      (three starter_a (ReadAcquire sample_file) (cleaning_a CLeaseLookup 0)))"
    by (rule demo_next [OF 1 step.clean_conv_lookup [where t = 2]])
      (simp, simp add: demo_update waitForConversion_lookup_def registers_init_def)
  have 3: "demo_reach (demo [set_deleted 200 sample_file] {demo_dir} claimed (new_queue 1)
      (three starter_a (ReadAcquire sample_file) (cleaning_a CRemove 0)))"
    by (rule demo_next [OF 2 step.clean_lease_lookup [where t = 2]])
      (simp, simp add: demo_update waitForLease_lookup_def registers_init_def)
  show ?thesis
    by (rule demo_next [OF 3 step.clean_remove [where t = 2]]) (simp, simp add: demo_update)
qed

lemma race_delete_step:
  "step (demo [set_deleted 200 sample_file] {} claimed (new_queue 1) (three starter_a (ReadAcquire sample_file) (cleaning_a CDeleteRow 0)))
     (demo [] {} claimed (new_queue 1) (three starter_a (ReadAcquire sample_file) (cleaning_a CEnd 0)))"
  using step.clean_delete_row [where t = 2 and flt = NoFault and f = sample_file and ch = 0 and rest = None,
    of "demo [set_deleted 200 sample_file] {} claimed (new_queue 1) (three starter_a (ReadAcquire sample_file) (cleaning_a CDeleteRow 0))"]
    demo_delete by (simp add: demo_update)

lemma race_reader:
  "\<exists>r. demo_reach (demo [] {} r (new_queue 1) (three starter_a (Reading sample_file 1) Idle))"
proof -
  have 1: "demo_reach (demo [] {} claimed (new_queue 1) (three starter_a (ReadAcquire sample_file) (cleaning_a CEnd 0)))"
    by (rule reach.step [OF race_removed race_delete_step])
  let ?r = "registers_init\<lparr>deleting := (\<lambda>_. None)(''file_a'' := None), next_handle := 1\<rparr>"
  have 2: "demo_reach (demo [] {} ?r (new_queue 1) (three starter_a (ReadAcquire sample_file) Idle))"
    by (rule demo_next [OF 1 step.clean_end [where t = 2]])
      (simp, simp add: demo_update endDeletion_def registers_init_def)
  obtain r where "acquireLease ?r ''file_a'' = (r, Inr 1)"
    by (simp add: acquireLease_def registers_init_def Let_def)
  then have "demo_reach (demo [] {} r (new_queue 1) (three starter_a (Reading sample_file 1) Idle))"
    by (intro demo_next [OF 2 step.read_acquire [where t = 1]]) (simp, simp, simp add: demo_update)
  then show ?thesis by blast
qed

text \<open>A reader holds the lease, and a deletion waits for it.\<close>

abbreviation leased :: "registers" where
  "leased \<equiv> \<lparr>conversions = (\<lambda>_. None), leases = (\<lambda>_. None)(''file_a'' := Some 0), deleting = (\<lambda>_. None),
     lifecycle_at = (\<lambda>_. no_lifecycle),
     lease_at = (\<lambda>_. no_lease)(0 := \<lparr>refs = 1, lease_done = False, closed = False\<rparr>), next_handle = 1\<rparr>"

abbreviation leased_claimed :: "registers" where
  "leased_claimed \<equiv> leased\<lparr>deleting := (\<lambda>_. None)(''file_a'' := Some 1), next_handle := 2\<rparr>"

lemma leased_reading:
  "demo_reach (demo [sample_file] {demo_dir} leased_claimed (new_queue 1) (three starter_a (Reading sample_file 0) (cleaning_a CMark 1)))"
proof -
  have 1: "demo_reach (demo [sample_file] {demo_dir} registers_init (new_queue 1) (three starter_a (ReadAcquire sample_file) Idle))"
    by (rule demo_next [OF demo_boot step.read_get [where t = 1]]) (simp, simp, rule demo_get, simp add: demo_update)
  have 2: "demo_reach (demo [sample_file] {demo_dir} leased (new_queue 1) (three starter_a (Reading sample_file 0) Idle))"
    by (rule demo_next [OF 1 step.read_acquire [where t = 1 and f = sample_file and r' = leased and h = 0]])
      (simp, simp add: acquireLease_def registers_init_def Let_def, simp add: demo_update)
  have 3: "demo_reach (demo [sample_file] {demo_dir} leased (new_queue 1)
      (three starter_a (Reading sample_file 0) (DeleteBegin sample_file None)))"
    by (rule demo_next [OF 2 step.delete_get [where t = 2]]) (simp, simp, rule demo_get, simp add: demo_update)
  show ?thesis
    by (rule demo_next [OF 3 step.delete_claim [where t = 2 and f = sample_file and rest = None
        and r' = leased_claimed and ch = 1]])
      (simp, simp add: beginDeletion_def, simp add: demo_update)
qed

lemma leased_waiting:
  "demo_reach (demo [set_deleted 200 sample_file] {demo_dir} leased_claimed (new_queue 1)
     (three starter_a (Reading sample_file 0) (cleaning_a (CLeaseWait 0) 1)))"
proof -
  have 1: "demo_reach (demo [set_deleted 200 sample_file] {demo_dir} leased_claimed (new_queue 1)
      (three starter_a (Reading sample_file 0) (cleaning_a CConvLookup 1)))"
    by (rule demo_next [OF leased_reading step.clean_mark [where t = 2]])
      (simp, simp, rule demo_mark, simp add: demo_update)
  have 2: "demo_reach (demo [set_deleted 200 sample_file] {demo_dir} leased_claimed (new_queue 1)
      (three starter_a (Reading sample_file 0) (cleaning_a CLeaseLookup 1)))"
    by (rule demo_next [OF 1 step.clean_conv_lookup [where t = 2]])
      (simp, simp add: demo_update waitForConversion_lookup_def)
  have 3: "demo_reach (demo [set_deleted 200 sample_file] {demo_dir} leased_claimed (new_queue 1)
      (three starter_a (Reading sample_file 0) (cleaning_a (CLeaseCheck 0) 1)))"
    by (rule demo_next [OF 2 step.clean_lease_lookup [where t = 2]])
      (simp, simp add: demo_update waitForLease_lookup_def)
  show ?thesis
    by (rule demo_next [OF 3 step.clean_lease_check [where t = 2 and h = 0]])
      (simp, simp add: demo_update waitForLease_check_def)
qed

text \<open>A worker converts the file, and a deletion waits for it.\<close>

abbreviation demo_job :: conversionJob where
  "demo_job \<equiv> \<lparr>job_id = ''file_a'', has_converter = False\<rparr>"

abbreviation converting :: "registers" where
  "converting \<equiv> \<lparr>conversions = (\<lambda>_. None)(''file_a'' := Some 0), leases = (\<lambda>_. None), deleting = (\<lambda>_. None),
     lifecycle_at = (\<lambda>_. no_lifecycle)(0 := \<lparr>active = True, lc_done = False, lc_cancelled = False\<rparr>),
     lease_at = (\<lambda>_. no_lease), next_handle = 1\<rparr>"

abbreviation converting_claimed :: "registers" where
  "converting_claimed \<equiv> converting\<lparr>deleting := (\<lambda>_. None)(''file_a'' := Some 1), next_handle := 2\<rparr>"

abbreviation converting_cancelled :: "registers" where
  "converting_cancelled \<equiv> cancelConversion converting_claimed 0"

lemma conversion_begun:
  "demo_reach (demo [sample_file] {demo_dir} converting (new_queue 1) (three (Working WStart demo_job 0 sample_file) Idle Idle))"
proof -
  let ?q = "Bounded \<lparr>capacity = 1, chan_items = [demo_job]\<rparr>"
  have 1: "demo_reach (demo [sample_file] {demo_dir} registers_init ?q (three (Starter []) Idle Idle))"
    by (rule demo_next [OF demo_boot step.run_enqueue [where t = 0 and i = "''file_a''" and q' = ?q and ok = True]])
      (simp, simp add: new_queue_def ops, simp add: demo_update)
  have 2: "demo_reach (demo [sample_file] {demo_dir} registers_init ?q (three Idle Idle Idle))"
    by (rule demo_next [OF 1 step.run_done [where t = 0]]) (simp, simp add: demo_update)
  have 3: "demo_reach (demo [sample_file] {demo_dir} registers_init (new_queue 1) (three (WorkBegin demo_job) Idle Idle))"
    by (rule demo_next [OF 2 step.work_take [where t = 0 and j = demo_job and q' = "new_queue 1"]])
      (simp, simp add: new_queue_def ops, simp add: demo_update)
  have 4: "demo_reach (demo [sample_file] {demo_dir} converting (new_queue 1) (three (WorkLookup demo_job 0) Idle Idle))"
    by (rule demo_next [OF 3 step.work_begin [where t = 0 and j = demo_job and r' = converting and h = 0]])
      (simp, simp add: beginConversion_def registers_init_def, simp add: demo_update)
  have l: "convert_lookup (store_GetInternal NoFault [sample_file] ''file_a'') = Inr sample_file"
    by (simp add: store_GetInternal_def query_row_def convert_lookup_def)
  show ?thesis
    by (rule demo_next [OF 4 step.work_lookup [where t = 0 and j = demo_job and h = 0 and f = sample_file and flt = NoFault]])
      (simp, simp add: l, simp add: demo_update)
qed

lemma conversion_waiting:
  "demo_reach (demo [set_deleted 200 sample_file] {demo_dir} converting_cancelled (new_queue 1)
     (three (Working WStart demo_job 0 sample_file) Idle (cleaning_a (CConvWait 0) 1)))"
proof -
  let ?w = "Working WStart demo_job 0 sample_file"
  have 1: "demo_reach (demo [sample_file] {demo_dir} converting (new_queue 1) (three ?w Idle (DeleteBegin sample_file None)))"
    by (rule demo_next [OF conversion_begun step.delete_get [where t = 2]])
      (simp, simp, rule demo_get, simp add: demo_update)
  have 2: "demo_reach (demo [sample_file] {demo_dir} converting_claimed (new_queue 1) (three ?w Idle (cleaning_a CMark 1)))"
    by (rule demo_next [OF 1 step.delete_claim [where t = 2 and f = sample_file and rest = None
        and r' = converting_claimed and ch = 1]])
      (simp, simp add: beginDeletion_def, simp add: demo_update)
  have 3: "demo_reach (demo [set_deleted 200 sample_file] {demo_dir} converting_claimed (new_queue 1)
      (three ?w Idle (cleaning_a CConvLookup 1)))"
    by (rule demo_next [OF 2 step.clean_mark [where t = 2]]) (simp, simp, rule demo_mark, simp add: demo_update)
  have 4: "demo_reach (demo [set_deleted 200 sample_file] {demo_dir} converting_claimed (new_queue 1)
      (three ?w Idle (cleaning_a (CConvCheck 0) 1)))"
    by (rule demo_next [OF 3 step.clean_conv_lookup [where t = 2]])
      (simp, simp add: demo_update waitForConversion_lookup_def)
  show ?thesis
    by (rule demo_next [OF 4 step.clean_conv_check [where t = 2 and h = 0 and r' = converting_cancelled
        and wait = True]])
      (simp, simp add: waitForConversion_check_def, simp add: demo_update)
qed

end
