(* ===== verification/Lifecycle_Status.thy ===== *)
theory Lifecycle_Status
  imports Lifecycle_Disk Lifecycle_Demo
begin

text \<open>
  The status of a file under concurrent uploads, conversions, retries and deletions, and the bound on
  the retries.
\<close>

section \<open>Who may still convert a file\<close>

fun late :: "proc \<Rightarrow> bool" where
  "late (WorkUnregister _ _ None) \<longleftrightarrow> True"
| "late (WorkDone _ _ None) \<longleftrightarrow> True"
| "late (HandleErr _ None) \<longleftrightarrow> True"
| "late _ \<longleftrightarrow> False"

definition hot_ids :: "proc \<Rightarrow> string set" where
  "hot_ids p = (if late p then {} else set (carries p))"

definition hot :: "sys \<Rightarrow> string set" where
  "hot s = set (queued s) \<union> (\<Union>t. hot_ids (procs s t))"

text \<open>The file that a worker has marked as being processed.\<close>

fun stage :: "proc \<Rightarrow> string option" where
  "stage (Working w j _ _) = (if w = WStart then None else Some (job_id j))"
| "stage _ = None"

definition row_status :: "table \<Rightarrow> string \<Rightarrow> string option" where
  "row_status rows i = (case row rows i of Some f \<Rightarrow> if DeletedAt f = None then Some (Status f) else None
     | None \<Rightarrow> None)"

definition inv_status :: "sys \<Rightarrow> bool" where
  "inv_status s \<longleftrightarrow> (\<forall>t f. fresh_file (procs s t) = Some f \<longrightarrow> Status f = ''uploaded'') \<and>
     (\<forall>t i. stage (procs s t) = Some i \<longrightarrow> row_status (db s) i \<in> {None, Some ''processing''}) \<and>
     (\<forall>i \<in> hot s. row_status (db s) i \<noteq> Some ''failed'')"

definition tame :: "table \<Rightarrow> table \<Rightarrow> bool" where
  "tame rows rows' \<longleftrightarrow> (\<forall>i. row_status rows' i \<in> {None, row_status rows i})"

lemma tame_refl [simp]: "tame rows rows"
  by (simp add: tame_def)

lemma tame_mark:
  assumes "db_inv rows" and "store_MarkDeleted flt now rows i t = (rows', r)"
  shows "tame rows rows'"
  using sql.mark_at [OF assms(1), of flt now i t] assms(2)
  by (auto simp: tame_def row_status_def wrote_def split: option.splits)

lemma tame_delete:
  assumes "db_inv rows" and "store_Delete flt rows i t = (rows', r)"
  shows "tame rows rows'"
  using sql.delete_at [OF assms(1), of flt i t] assms(2)
  by (auto simp: tame_def row_status_def wrote_def split: option.splits)

lemma update_status:
  assumes "db_inv rows" and "store_UpdateStatus flt rows i st m e = (rows', r)"
  shows "row_status rows' k \<in> {row_status rows k, if k = i \<and> row_status rows k \<noteq> None then Some st else None}
    \<and> (row_status rows' k = None \<longleftrightarrow> row_status rows k = None) \<and> (k \<noteq> i \<longrightarrow> row_status rows' k = row_status rows k)"
  using sql.update_at [OF assms(1), of flt i st m e k] assms(2)
  by (auto simp: row_status_def wrote_def split: option.splits)

lemma update_done:
  assumes "db_inv rows" and "store_UpdateStatus flt rows i st m e = (rows', Inr b)"
  shows "row_status rows' i \<in> {None, Some st}"
proof -
  have "flt = NoFault" using sql.update_result [OF assms(1), of flt i st m e b] assms(2) by simp
  then show ?thesis using sql.update_at [OF assms(1), of flt i st m e i] assms(2)
    by (auto simp: row_status_def wrote_def executed_def split: option.splits)
qed

lemma late_after_clean [simp]: "hot_ids (after_clean rest) = {}"
  by (simp add: hot_ids_def)

lemma stage_after_clean [simp]: "stage (after_clean rest) = None"
  by (cases rest) auto

lemma hot_ids_simps [simp]:
  "hot_ids Idle = {}" "hot_ids (Starter is) = set is" "hot_ids (CreateAdd f) = {ID f}"
  "hot_ids (CreateCleanup f) = {ID f}" "hot_ids (CreateEnqueue j) = {job_id j}"
  "hot_ids (ReadAcquire f) = {}" "hot_ids (Reading f h) = {}" "hot_ids (DeleteBegin f rest) = {}"
  "hot_ids (Cleaning c f ch rest) = {}" "hot_ids (JanitorNext fs) = {}" "hot_ids (WorkBegin j) = {job_id j}"
  "hot_ids (WorkLookup j h) = {job_id j}" "hot_ids (Working w j h f) = {job_id j}"
  "hot_ids (WorkUnregister j h None) = {}" "hot_ids (WorkUnregister j h (Some e)) = {job_id j}"
  "hot_ids (WorkDone j h None) = {}" "hot_ids (WorkDone j h (Some e)) = {job_id j}"
  "hot_ids (HandleErr j None) = {}" "hot_ids (HandleErr j (Some e)) = {job_id j}"
  by (simp_all add: hot_ids_def)

lemma hot_ids_res:
  "hot_ids (WorkUnregister j h res) = (if res = None then {} else {job_id j})"
  "hot_ids (WorkDone j h res) = (if res = None then {} else {job_id j})"
  "hot_ids (HandleErr j res) = (if res = None then {} else {job_id j})"
  by (cases res; simp)+

lemma hot_goto:
  assumes "procs s0 = procs s" and "set (queued s0) \<union> hot_ids p \<subseteq> hot s"
  shows "hot (goto t p s0) \<subseteq> hot s"
  using assms unfolding hot_def by (auto split: if_splits)

lemma hot_at: "hot_ids (procs s t) \<subseteq> hot s"
  by (auto simp: hot_def)

lemma hot_queued: "set (queued s) \<subseteq> hot s"
  by (auto simp: hot_def)

lemma hot_carries: "hot_ids p \<subseteq> set (carries p)"
  by (simp add: hot_ids_def)

lemma stage_carries: "stage p = Some i \<Longrightarrow> i \<in> set (carries p)"
  by (cases p) (auto split: if_splits)

lemma status_goto:
  assumes "inv_status s" and "procs s0 = procs s" and "tame (db s) (db s0)"
    and "fresh_file p = None \<or> fresh_file p = fresh_file (procs s t)"
    and "stage p = None \<or> stage p = stage (procs s t)"
    and "set (queued s0) \<union> hot_ids p \<subseteq> hot s"
  shows "inv_status (goto t p s0)"
proof -
  have h: "hot (goto t p s0) \<subseteq> hot s" by (rule hot_goto [OF assms(2,6)])
  have r: "row_status (db s0) i \<in> {None, row_status (db s) i}" for i using assms(3) by (simp add: tame_def)
  show ?thesis unfolding inv_status_def
  proof (intro conjI allI impI ballI)
    fix ta f assume "fresh_file (procs (goto t p s0) ta) = Some f"
    then have "fresh_file (procs s ta) = Some f" using assms(2,4) by (auto split: if_splits)
    then show "Status f = ''uploaded''" using assms(1) by (auto simp: inv_status_def)
  next
    fix ta i assume "stage (procs (goto t p s0) ta) = Some i"
    then have "stage (procs s ta) = Some i" using assms(2,5) by (auto split: if_splits)
    then have "row_status (db s) i \<in> {None, Some ''processing''}" using assms(1) by (simp add: inv_status_def)
    with r [of i] show "row_status (db (goto t p s0)) i \<in> {None, Some ''processing''}" by auto
  next
    fix i assume "i \<in> hot (goto t p s0)"
    then have "row_status (db s) i \<noteq> Some ''failed''" using assms(1) h by (auto simp: inv_status_def)
    with r [of i] show "row_status (db (goto t p s0)) i \<noteq> Some ''failed''" by auto
  qed
qed

text \<open>A status update by the goroutine that has the job of the file.\<close>

lemma status_update:
  assumes "inv_base s" and "inv_status s" and "procs s0 = procs s" and "i \<in> set (carries (procs s t))"
    and "set (queued s0) \<subseteq> set (queued s)"
    and upd: "store_UpdateStatus flt (db s) i st m e = (db s0, r)"
    and "fresh_file p = None" and "hot_ids p \<subseteq> {i}" and "stage p \<in> {None, Some i}"
    and "stage p = Some i \<Longrightarrow> row_status (db s0) i \<in> {None, Some ''processing''}"
    and "hot_ids p \<noteq> {} \<Longrightarrow> row_status (db s0) i \<noteq> Some ''failed''"
  shows "inv_status (goto t p s0)"
  unfolding inv_status_def
proof (intro conjI allI impI ballI)
  have inv: "db_inv (db s)" using assms(1) by (simp add: inv_base_def inv_rows_def)
  note u = update_status [OF inv upd]
  have other: "i \<notin> set (carries (procs s ta))" if "ta \<noteq> t" for ta
    using carries_other [OF assms(1,4)] that by blast
  have nq: "i \<notin> set (queued s)"
    using assms(1,4) unfolding inv_base_def inv_tokens_def by auto
  fix ta
  show "Status f = ''uploaded''" if "fresh_file (procs (goto t p s0) ta) = Some f" for f
    using that assms(2,3,7) by (auto simp: inv_status_def split: if_splits)
  show "row_status (db (goto t p s0)) k \<in> {None, Some ''processing''}"
    if "stage (procs (goto t p s0) ta) = Some k" for k
  proof (cases "ta = t")
    case True
    then show ?thesis using that assms(9,10) by auto
  next
    case False
    then have k: "stage (procs s ta) = Some k" using that assms(3) by simp
    then have "k \<noteq> i" using stage_carries other False by blast
    then have "row_status (db s0) k = row_status (db s) k" using u [of k] by blast
    with k show ?thesis using assms(2) by (auto simp: inv_status_def)
  qed
  fix k assume k: "k \<in> hot (goto t p s0)"
  show "row_status (db (goto t p s0)) k \<noteq> Some ''failed''"
  proof (cases "k = i")
    case True
    then have "hot_ids p \<noteq> {}"
      using k nq other assms(3,5) hot_carries unfolding hot_def by (auto split: if_splits)
    with True assms(11) show ?thesis by simp
  next
    case False
    then have "k \<in> hot s"
      using k assms(3,5,8) unfolding hot_def by (auto split: if_splits)
    moreover have "row_status (db s0) k = row_status (db s) k" using u [of k] False by blast
    ultimately show ?thesis using assms(2) by (auto simp: inv_status_def)
  qed
qed

lemma status_same:
  assumes "inv_status s" and "procs s' = procs s" and "db s' = db s" and "set (queued s') \<subseteq> set (queued s)"
  shows "inv_status s'"
proof -
  have "hot s' \<subseteq> hot s" using assms(2,4) by (auto simp: hot_def)
  then show ?thesis using assms(1-3) by (auto simp: inv_status_def)
qed

lemma step_inv_status:
  assumes "step s s'" and "inv_base s" and "inv_status s"
  shows "inv_status s'"
proof -
  have inv: "db_inv (db s)" using assms(2) by (simp add: inv_base_def inv_rows_def)
  note go = status_goto [OF assms(3)]
  note upd = status_update [OF assms(2,3)]
  note tame = tame_mark [OF inv] tame_delete [OF inv]
  have at: "\<And>t p. procs s t = p \<Longrightarrow> hot_ids p \<subseteq> hot s" using hot_at by blast
  have hq: "\<And>x. x \<in> set (contents (jobs s)) \<Longrightarrow> job_id x \<in> hot s"
    "\<And>x. x \<in> set (timers s) \<Longrightarrow> job_id x \<in> hot s"
    using hot_queued [of s] by (auto simp: queued_def)
  show ?thesis using assms(1)
  proof (cases rule: step.cases)
    case (run_enqueue t i js q' ok)
    with queue_Add_contents [OF run_enqueue(3)] at [OF run_enqueue(2)] show ?thesis
      by (auto intro!: go simp: queued_def hq split: if_splits)
  next
    case (create_files t f)
    have "hot s' \<subseteq> insert (ID f) (hot s)"
      using create_files(1) by (auto simp: hot_def queued_def split: if_splits)
    moreover have "row_status (db s) (ID f) = None"
    proof -
      have "row (db s) (ID f) = None"
        using assms(2) create_files(3) unfolding inv_base_def inv_rows_def by (cases "row (db s) (ID f)") auto
      then show ?thesis by (simp add: row_status_def)
    qed
    moreover have "Status f = ''uploaded''" using create_files(4) by (simp add: new_record_def)
    ultimately show ?thesis using assms(3) unfolding create_files(1)
      by (auto simp: inv_status_def split: if_splits)
  next
    case (create_add t f flt db')
    have db': "db' = db s @ [f]" and n: "row (db s) (ID f) = None" using add_ok [OF create_add(3)] by auto
    have st: "Status f = ''uploaded''" using assms(3) create_add(2) unfolding inv_status_def by (metis fresh_file.simps(1))
    have r: "row_status (db s @ [f]) i \<in> {row_status (db s) i, if i = ID f then Some ''uploaded'' else None}"
      and r2: "i \<noteq> ID f \<Longrightarrow> row_status (db s @ [f]) i = row_status (db s) i" for i
      using n st by (auto simp: row_status_def row_append split: option.splits)
    have h: "hot s' \<subseteq> hot s" unfolding create_add(1)
      using at [OF create_add(2)] by (intro hot_goto) (auto simp: queued_def hq)
    have o: "stage (procs s ta) \<noteq> Some (ID f)" for ta
    proof
      assume a: "stage (procs s ta) = Some (ID f)"
      have "ID f \<in> set (carries (procs s t))" using create_add(2) by simp
      then have "ta = t" using carries_other [OF assms(2)] stage_carries [OF a] by blast
      then show False using a create_add(2) by simp
    qed
    show ?thesis unfolding inv_status_def
    proof (intro conjI allI impI ballI)
      fix ta g assume "fresh_file (procs s' ta) = Some g"
      then have "fresh_file (procs s ta) = Some g" unfolding create_add(1) by (auto split: if_splits)
      then show "Status g = ''uploaded''" using assms(3) by (auto simp: inv_status_def)
    next
      fix ta i assume "stage (procs s' ta) = Some i"
      then have i: "stage (procs s ta) = Some i" unfolding create_add(1) by (auto split: if_splits)
      then have "i \<noteq> ID f" using o by auto
      then show "row_status (db s') i \<in> {None, Some ''processing''}"
        using i r2 assms(3) unfolding create_add(1) db' by (simp add: inv_status_def)
    next
      fix i assume "i \<in> hot s'"
      then show "row_status (db s') i \<noteq> Some ''failed''"
        using h r [of i] assms(3) unfolding create_add(1) db' by (auto simp: inv_status_def split: if_splits)
    qed
  next
    case (create_add_fails t f flt db' e)
    with add_fails [OF create_add_fails(3)] at [OF create_add_fails(2)] show ?thesis
      by (auto intro!: go simp: queued_def hq)
  next
    case (create_enqueue t j q' ok)
    with queue_Add_contents [OF create_enqueue(3)] at [OF create_enqueue(2)] show ?thesis
      by (auto intro!: go simp: queued_def hq split: if_splits)
  next
    case (work_take t q' j)
    with queue_Get_contents [OF work_take(3)] show ?thesis
      by (auto intro!: go simp: queued_def hq)
  next
    case (work_start_return t j h f flt db' r res)
    have "row_status (db s) (job_id j) \<noteq> Some ''failed''"
      using assms(3) at [OF work_start_return(2)] by (auto simp: inv_status_def)
    then have "row_status db' (job_id j) \<noteq> Some ''failed''"
      using update_status [OF inv work_start_return(3), of "job_id j"] by (auto split: if_splits)
    then show ?thesis unfolding work_start_return(1)
      by (intro upd) (use work_start_return(2,3) in \<open>auto simp: hot_ids_res queued_def\<close>)
  next
    case (work_start t j h f flt db' r)
    obtain b where "r = Inr b" using work_start(4) by (cases r) (auto simp: convert_started_def)
    then have "row_status db' (job_id j) \<in> {None, Some ''processing''}"
      using update_done [OF inv] work_start(3) by blast
    then show ?thesis unfolding work_start(1)
      by (intro upd) (use work_start(2,3) in \<open>auto simp: queued_def\<close>)
  next
    case (work_resolve_fails t j h f flt e)
    then show ?thesis unfolding work_resolve_fails(1)
      by (intro upd [where flt = flt and i = "job_id j" and st = "''failed''" and m = "[]"
          and e = "truncate_string (err_text e) 1000"
          and r = "snd (store_UpdateStatus flt (db s) (job_id j) ''failed'' [] (truncate_string (err_text e) 1000))"])
        (auto simp: markFailed_def queued_def)
  next
    case (work_finish t j h f flt db' r)
    have "row_status (db s) (job_id j) \<noteq> Some ''failed''"
      using assms(3) at [OF work_finish(2)] by (auto simp: inv_status_def)
    then have "row_status db' (job_id j) \<noteq> Some ''failed''"
      using update_status [OF inv work_finish(3), of "job_id j"] by (auto split: if_splits)
    then show ?thesis unfolding work_finish(1)
      by (intro upd) (use work_finish(2,3) in \<open>auto simp: hot_ids_res queued_def\<close>)
  next
    case (err_fail t j res flt e flt')
    then show ?thesis unfolding err_fail(1)
      by (intro upd [where flt = flt' and i = "job_id j" and st = "''failed''" and m = "[]"
          and e = "truncate_string (err_text e) 1000"
          and r = "snd (store_UpdateStatus flt' (db s) (job_id j) ''failed'' [] (truncate_string (err_text e) 1000))"])
        (auto simp: markFailed_def queued_def)
  next
    case (err_retry t j res flt delay)
    have "res \<noteq> None" using err_retry(3) by (cases res) (auto simp: handleErr_def)
    with err_retry at [OF err_retry(2)] show ?thesis
      by (auto intro!: go simp: queued_def hq hot_ids_res)
  next
    case (timer_fires xs j ys q' ok)
    with queue_Add_contents [OF timer_fires(3)] show ?thesis
      by (intro status_same [OF assms(3)]) (auto simp: queued_def split: if_splits)
  next
    case (tick n)
    then show ?thesis by (intro status_same [OF assms(3)]) (auto simp: queued_def)
  next
    case stop
    then show ?thesis by (intro status_same [OF assms(3)]) (auto simp: queued_def)
  next
    case (work_write t j h f)
    then show ?thesis by (intro status_same [OF assms(3)]) (auto simp: queued_def)
  next
    case (work_lookup_return t j h flt res)
    with at [OF work_lookup_return(2)] show ?thesis
      by (auto intro!: go simp: queued_def hq hot_ids_res split: if_splits)
  next
    case (work_unregister t j h res)
    with at [OF work_unregister(2)] show ?thesis
      by (auto intro!: go simp: queued_def hq hot_ids_res split: if_splits)
  next
    case (work_done t j h res)
    with at [OF work_done(2)] show ?thesis
      by (auto intro!: go simp: queued_def hq hot_ids_res split: if_splits)
  next
    case (create_reject t f)
    with at [OF create_reject(2)] show ?thesis by (auto intro!: go simp: queued_def hq)
  next
    case (work_convert t j h f)
    with at [OF work_convert(2)] show ?thesis by (auto intro!: go simp: queued_def hq)
  next
    case (work_resolve t j h f)
    with at [OF work_resolve(2)] show ?thesis by (auto intro!: go simp: queued_def hq)
  qed (auto intro!: go intro: tame dest!: at simp: queued_def hq)
qed

lemma boot_hot: "hot (boot cap now rows dirs) = ID ` set (filter (pending now) rows)"
  by (auto simp: hot_def queued_def boot_procs split: if_splits) (auto simp: boot_def)

lemma boot_inv_status:
  assumes "start_ok rows dirs"
  shows "inv_status (boot cap now rows dirs)"
proof -
  have "row_status rows (ID f) \<noteq> Some ''failed''" if "f \<in> set rows" "pending now f" for f
  proof -
    have "row rows (ID f) = Some f" using assms that(1) by (simp add: start_ok_def row_SomeI)
    then show ?thesis using that(2) by (auto simp: row_status_def pending_def)
  qed
  then show ?thesis by (auto simp: inv_status_def boot_hot boot_procs split: if_splits) (auto simp: boot_def)
qed

lemma reach_inv_status: "reach cap now rows dirs s \<Longrightarrow> inv_status s"
  by (induction rule: reach.induct) (auto intro: boot_inv_status step_inv_status reach_inv_base)

section \<open>The status machine\<close>

text \<open>The status that a goroutine is about to write, and the file.\<close>

fun writes :: "proc \<Rightarrow> (string \<times> string) option" where
  "writes (Working WStart j _ _) = Some (job_id j, ''processing'')"
| "writes (Working WResolve j _ _) = Some (job_id j, ''failed'')"
| "writes (Working WFinish j _ _) = Some (job_id j, ''processed'')"
| "writes (HandleErr j (Some _)) = Some (job_id j, ''failed'')"
| "writes _ = None"

lemma writes_hot: "writes p = Some (i, st) \<Longrightarrow> i \<in> hot_ids p"
  by (erule writes.elims) auto

lemma step_row_status:
  assumes "step s s'" and "inv_base s" and "row_status (db s) i = Some a" and "row_status (db s') i = Some b"
  shows "b = a \<or> (\<exists>t. writes (procs s t) = Some (i, b))"
proof -
  have inv: "db_inv (db s)" using assms(2) by (simp add: inv_base_def inv_rows_def)
  have upd: "b = a \<or> (k = i \<and> b = st)" if "store_UpdateStatus flt (db s) k st m e = (rows', r)" "db s' = rows'"
    for flt k st m e rows' r
    using update_status [OF inv that(1), of i] that(2) assms(3,4) by (auto split: if_splits)
  have fail: "b = a \<or> (k = i \<and> b = ''failed'')" if "db s' = markFailed flt (db s) k e" for flt k e
    using that unfolding markFailed_def by (intro upd [OF surjective_pairing]) simp
  show ?thesis using assms(1)
  proof (cases rule: step.cases)
    case (create_add t f flt db')
    then have "db s' = db s @ [f]" using add_ok [OF create_add(3)] by simp
    then show ?thesis using assms(3,4) by (auto simp: row_status_def row_append split: option.splits if_splits)
  next
    case (create_add_fails t f flt db' e)
    then have "db s' = db s" using add_fails [OF create_add_fails(3)] by simp
    then show ?thesis using assms(3,4) by simp
  next
    case (clean_mark t f ch rest flt db' res)
    then show ?thesis using tame_mark [OF inv clean_mark(3)] assms(3,4) by (auto simp: tame_def dest!: spec [of _ i])
  next
    case (clean_delete_row t f ch rest flt db' res)
    then show ?thesis
      using tame_delete [OF inv clean_delete_row(3)] assms(3,4) by (auto simp: tame_def dest!: spec [of _ i])
  next
    case (work_start_return t j h f flt db' r res)
    then show ?thesis using upd [OF work_start_return(3)] by (auto intro!: exI [of _ t])
  next
    case (work_start t j h f flt db' r)
    then show ?thesis using upd [OF work_start(3)] by (auto intro!: exI [of _ t])
  next
    case (work_finish t j h f flt db' r)
    then show ?thesis using upd [OF work_finish(3)] by (auto intro!: exI [of _ t])
  next
    case (work_resolve_fails t j h f flt e)
    then show ?thesis using fail [of flt "job_id j" e] by (auto intro!: exI [of _ t])
  next
    case (err_fail t j res flt e flt')
    then have "res \<noteq> None" by (cases res) (auto simp: handleErr_def)
    then show ?thesis using fail [of flt' "job_id j" e] err_fail by (auto intro!: exI [of _ t])
  qed (use assms(3,4) in auto)
qed



section \<open>Bounded retries\<close>

definition inv_retries :: "sys \<Rightarrow> bool" where
  "inv_retries s \<longleftrightarrow> (\<forall>i. retryCount s i \<le> maxRetries)"

lemma retry_bound:
  "handleErr res n a = Retry d \<Longrightarrow> n < maxRetries \<and> d = backoffDelay n \<and> a \<and> (\<exists>e. res = Some e \<and> IsRetryable e)"
  by (auto simp: handleErr_def split: option.splits if_splits)

lemma step_inv_retries:
  assumes "step s s'" and "inv_retries s"
  shows "inv_retries s'"
  using assms(1)
proof (cases rule: step.cases)
  case (err_retry t j res flt delay)
  with retry_bound [OF err_retry(3)] assms(2) show ?thesis by (auto simp: inv_retries_def)
qed (use assms(2) in \<open>auto simp: inv_retries_def\<close>)

lemma reach_inv_retries: "reach cap now rows dirs s \<Longrightarrow> inv_retries s"
  by (induction rule: reach.induct) (auto simp: boot_def inv_retries_def intro: step_inv_retries [unfolded inv_retries_def, rule_format])

end
