(* ===== verification/Lifecycle_Theorems.thy ===== *)
theory Lifecycle_Theorems
  imports Lifecycle_Status
begin

text \<open>
  What the file service guarantees in every reachable state: the safety of artifacts that are in use,
  the exclusiveness of conversions and cleanups, the absence of stuck cleanups, the bound on retries,
  and the one race that the code leaves open.
\<close>

section \<open>Records and rows\<close>

text \<open>A record that a goroutine carries has the source path of the row.\<close>

definition inv_paths :: "sys \<Rightarrow> bool" where
  "inv_paths s \<longleftrightarrow> (\<forall>t. \<forall>f \<in> set (records (procs s t)). \<forall>g. row (db s) (ID f) = Some g \<longrightarrow> SourcePath g = SourcePath f)"

lemma paths_goto:
  assumes "inv_paths s" and "db_inv (db s)" and "procs s0 = procs s" and "shrinks (db s) (db s0)"
    and "\<And>f. f \<in> set (records p) \<Longrightarrow> f \<in> set (records (procs s t)) \<or> row (db s) (ID f) = Some f"
  shows "inv_paths (goto t p s0)"
  unfolding inv_paths_def
proof (intro allI ballI impI)
  fix ta f g assume f: "f \<in> set (records (procs (goto t p s0) ta))" and "row (db (goto t p s0)) (ID f) = Some g"
  then obtain g0 where g0: "row (db s) (ID f) = Some g0" "SourcePath g = SourcePath g0"
    using shrinks_row [OF assms(4,2)] by auto
  have "(\<exists>tb. f \<in> set (records (procs s tb))) \<or> row (db s) (ID f) = Some f"
    using f assms(3,5) by (auto split: if_splits)
  with g0 show "SourcePath g = SourcePath f" using assms(1) by (auto simp: inv_paths_def)
qed

lemma paths_same: "inv_paths s \<Longrightarrow> procs s' = procs s \<Longrightarrow> db s' = db s \<Longrightarrow> inv_paths s'"
  by (simp add: inv_paths_def)

lemma step_inv_paths:
  assumes "step s s'" and "inv s" and "inv_paths s"
  shows "inv_paths s'"
proof -
  have inv: "db_inv (db s)" using invD(13) [OF assms(2)] .
  note go = paths_goto [OF assms(3) inv]
  show ?thesis using assms(1)
  proof (cases rule: step.cases)
    case (create_add t f flt db')
    have db': "db' = db s @ [f]" using add_ok [OF create_add(3)] by simp
    have n: "ID f \<notin> ID ` set (records (procs s ta))" for ta
      using fresh_facts(3) [OF assms(2), of t f ta] create_add(2) by simp
    have r: "row (db s @ [f]) (ID g) = row (db s) (ID g)" if "g \<in> set (records (procs s ta))" for g ta
      using n [of ta] that by (auto simp: row_append split: option.splits)
    have "g \<in> set (records (procs s' ta)) \<Longrightarrow> \<exists>tb. g \<in> set (records (procs s tb))" for g ta
      unfolding create_add(1) by (auto split: if_splits)
    moreover have "db s' = db s @ [f]" by (simp add: create_add(1) db')
    ultimately show ?thesis using assms(3) r unfolding inv_paths_def by metis
  next
    case (create_add_fails t f flt db' e)
    with add_fails [OF create_add_fails(3)] show ?thesis by (auto intro!: go)
  next
    case (read_get t flt i tenant f)
    have "row (db s) (ID f) = Some f" using store_Get_Some [OF read_get(3)] row_SomeI [OF inv] by blast
    with read_get show ?thesis by (auto intro!: go)
  next
    case (delete_get t flt i tenant f)
    have "row (db s) (ID f) = Some f" using store_Get_Some [OF delete_get(3)] row_SomeI [OF inv] by blast
    with delete_get show ?thesis by (auto intro!: go)
  next
    case (janitor_scan t flt fs)
    have "f \<in> set fs \<Longrightarrow> row (db s) (ID f) = Some f" for f
      using expired_wf [OF janitor_scan(3)] row_SomeI [OF inv] by blast
    with janitor_scan show ?thesis by (auto intro!: go)
  next
    case (work_lookup t j h flt f)
    have "row (db s) (ID f) = Some f" using lookup_row [OF work_lookup(3)] row_SomeD by metis
    with work_lookup show ?thesis by (auto intro!: go)
  next
    case (tick n)
    then show ?thesis by (auto intro: paths_same [OF assms(3)])
  next
    case stop
    then show ?thesis by (auto intro: paths_same [OF assms(3)])
  next
    case (work_write t j h f)
    then show ?thesis by (auto intro: paths_same [OF assms(3)])
  next
    case (timer_fires xs j ys q' ok)
    then show ?thesis by (auto intro: paths_same [OF assms(3)])
  qed (auto intro!: go intro: shrink_rules)
qed

lemma reach_inv_paths: "reach cap now rows dirs s \<Longrightarrow> inv_paths s"
proof (induction rule: reach.induct)
  case boot
  then show ?case by (auto simp: inv_paths_def boot_procs)
next
  case (step s s')
  then show ?case using step_inv_paths reach_inv by blast
qed

section \<open>Artifacts in use\<close>

text \<open>C6. A file that \<open>Get\<close> shows has its directory on disk, in every reachable state: neither an
  upload that fails nor a deletion in progress removes the directory of a visible file.\<close>

theorem visible_has_directory:
  assumes "reach cap now rows dirs s" and "store_Get flt n (db s) i tenant = Inr (Some f)"
  shows "file_dir f \<in> disk s"
proof -
  have "f \<in> set (db s)" "live n f" using store_Get_Some [OF assms(2)] by auto
  then have "row (db s) (ID f) = Some f" "DeletedAt f = None"
    using row_SomeI invD(13) [OF reach_inv [OF assms(1)]] by (auto simp: live_def)
  then show ?thesis using reach_inv_disk [OF assms(1)] unfolding inv_disk_def by blast
qed

theorem visible_has_directory_witness:
  "demo_dir \<in> disk (demo [sample_file] {demo_dir} leased_claimed (new_queue 1)
     (three starter_a (Reading sample_file 0) (cleaning_a CMark 1)))"
  using visible_has_directory [OF leased_reading, of NoFault 200 "''file_a''" "''shared''" sample_file]
    demo_get by simp

text \<open>C1. No step removes the directory of a file while a reader holds its lease or a worker is
  converting it: the artifacts that are in use stay.\<close>

theorem no_removal_in_use:
  assumes "reach cap now rows dirs s" and "step s s'" and "file_dir f \<in> disk s"
    and "procs s t = Reading f h \<or> procs s t = Working w j h f"
  shows "file_dir f \<in> disk s'"
proof -
  note i = reach_inv [OF assms(1)]
  have f: "f \<in> set (records (procs s t))" using assms(4) by auto
  show ?thesis using assms(2)
  proof (cases rule: step.cases)
    case (create_cleanup ta g d)
    then show ?thesis using cleanup_safe(3) [OF i create_cleanup(2) f] assms(3) by auto
  next
    case (clean_remove ta g ch rest)
    then show ?thesis using remove_safe(3,4) [OF i clean_remove(2)] assms(3,4) by auto
  next
    case (clean_remove_fails ta g ch rest d)
    then show ?thesis using remove_safe(3,4) [OF i clean_remove_fails(2)] assms(3,4) by auto
  qed (use assms(3) in auto)
qed

theorem no_removal_in_use_witness:
  "\<exists>s'. step (demo [set_deleted 200 sample_file] {demo_dir} leased_claimed (new_queue 1)
     (three starter_a (Reading sample_file 0) (cleaning_a (CLeaseWait 0) 1))) s' \<and> demo_dir \<in> disk s'"
proof -
  let ?s = "demo [set_deleted 200 sample_file] {demo_dir} leased_claimed (new_queue 1)
     (three starter_a (Reading sample_file 0) (cleaning_a (CLeaseWait 0) 1))"
  have "step ?s (?s\<lparr>stopping := True\<rparr>)" by (rule step.stop)
  then show ?thesis
    using no_removal_in_use [OF leased_waiting _, of _ sample_file 1 0] by auto
qed

section \<open>Exclusiveness\<close>

text \<open>C8. The job of a file is in one place at a time: it is not queued or waiting for a retry twice,
  nor while a worker has it; two workers never convert the same file.\<close>

theorem one_job_per_file:
  assumes "reach cap now rows dirs s"
  shows "distinct (queued s) \<and> (i \<in> set (queued s) \<longrightarrow> (\<forall>t. i \<notin> set (carries (procs s t))))
    \<and> (i \<in> set (carries (procs s t)) \<longrightarrow> i \<in> set (carries (procs s t')) \<longrightarrow> t = t')"
proof -
  note b = reach_inv_base [OF assms]
  have d: "distinct (queued s @ carries (procs s ta))" for ta
    using b unfolding inv_base_def inv_tokens_def by blast
  then have "distinct (queued s)" by simp
  moreover have "i \<in> set (queued s) \<longrightarrow> (\<forall>t. i \<notin> set (carries (procs s t)))" using d by auto
  ultimately show ?thesis using carries_other [OF b] by blast
qed

theorem one_job_per_file_witness:
  "''file_a'' \<notin> set (queued (demo [sample_file] {demo_dir} converting (new_queue 1)
     (three (Working WStart demo_job 0 sample_file) Idle Idle)))"
  using one_job_per_file [OF conversion_begun, of "''file_a''" 0 0]
  by (auto dest!: spec [of _ 0])

text \<open>C9. At most one goroutine cleans a file up, and while it does no reader can take a lease and
  no other deletion can begin.\<close>

theorem one_cleanup_per_file:
  assumes "reach cap now rows dirs s" and "procs s t = Cleaning c f ch rest"
  shows "(procs s t' = Cleaning c' g ch' rest' \<and> ID g = ID f \<longrightarrow> t' = t)
    \<and> acquireLease (regs s) (ID f) = (regs s, Inl (Opaque ''file is being deleted''))
    \<and> beginDeletion (regs s) (ID f) = (regs s, None)"
proof -
  note o = invD(2) [OF reach_inv [OF assms(1)]]
  have d: "deleting (regs s) (ID f) = Some ch" using o assms(2) unfolding inv_own_def by (metis owns.simps(1))
  have "t' = t" if "procs s t' = Cleaning c' g ch' rest'" "ID g = ID f"
  proof -
    have "deleting (regs s) (ID f) = Some ch'" using o that unfolding inv_own_def by (metis owns.simps(1))
    then have "owns (procs s t') = Some (ID f, ch)" using d that by simp
    moreover have "owns (procs s t) = Some (ID f, ch)" using assms(2) by simp
    ultimately show ?thesis using o unfolding inv_own_def by metis
  qed
  then show ?thesis using d by (simp add: acquireLease_def beginDeletion_def)
qed

theorem one_cleanup_per_file_witness:
  "beginDeletion leased_claimed ''file_a'' = (leased_claimed, None)"
  using one_cleanup_per_file [OF leased_waiting, of 2 "CLeaseWait 0" sample_file 1 None] by simp

section \<open>Cleanups do not get stuck\<close>

lemma step_goto_I: "step s (goto t p s0) \<Longrightarrow> p \<noteq> procs s t \<Longrightarrow> \<exists>s'. step s s' \<and> procs s' t \<noteq> procs s t"
  by (rule exI [of _ "goto t p s0"]) simp

text \<open>A goroutine that holds a conversion can always take a step.\<close>

lemma worker_moves:
  assumes "conv_hold (procs s t) = Some (i, h)"
  shows "\<exists>s'. step s s' \<and> procs s' t \<noteq> procs s t"
proof (cases "procs s t")
  case (WorkLookup j k)
  show ?thesis
  proof (cases "convert_lookup (store_GetInternal NoFault (db s) (job_id j))")
    case (Inl res)
    show ?thesis by (rule step_goto_I [OF step.work_lookup_return [OF WorkLookup Inl]]) (simp add: WorkLookup)
  next
    case (Inr f)
    show ?thesis by (rule step_goto_I [OF step.work_lookup [OF WorkLookup Inr]]) (simp add: WorkLookup)
  qed
next
  case (Working w j k f)
  show ?thesis
  proof (cases w)
    case WStart
    obtain db' r where u: "store_UpdateStatus NoFault (db s) (job_id j) ''processing'' [] [] = (db', r)"
      by fastforce
    show ?thesis
    proof (cases "convert_started r")
      case (Inl res)
      show ?thesis
        by (rule step_goto_I [OF step.work_start_return [OF Working [unfolded WStart] u Inl]]) (simp add: Working)
    next
      case (Inr x)
      then have c: "convert_started r = Inr ()" by simp
      show ?thesis
        by (rule step_goto_I [OF step.work_start [OF Working [unfolded WStart] u c]]) (simp add: Working WStart)
    qed
  next
    case WResolve
    show ?thesis by (rule step_goto_I [OF step.work_resolve [OF Working [unfolded WResolve]]]) (simp add: Working WResolve)
  next
    case WConvert
    show ?thesis by (rule step_goto_I [OF step.work_convert [OF Working [unfolded WConvert]]]) (simp add: Working WConvert)
  next
    case WFinish
    show ?thesis
      by (rule step_goto_I [OF step.work_finish [OF Working [unfolded WFinish] surjective_pairing]]) (simp add: Working)
  qed
next
  case (WorkUnregister j k res)
  show ?thesis by (rule step_goto_I [OF step.work_unregister [OF WorkUnregister]]) (simp add: WorkUnregister)
next
  case (WorkDone j k res)
  show ?thesis by (rule step_goto_I [OF step.work_done [OF WorkDone]]) (simp add: WorkDone)
qed (use assms in auto)

text \<open>A cleanup never waits in vain. If the conversion it waits for is not over, that
  conversion has been cancelled and is in the hands of a worker that can take a step; if the lease it
  waits for is not released, some reader of this file holds it and can release it.\<close>

lemma cleanup_never_stuck:
  assumes "reach cap now rows dirs s"
  shows "(procs s t = Cleaning (CConvWait h) f ch rest \<longrightarrow> lc_cancelled (lifecycle_at (regs s) h)
      \<and> (waitForConversion_done (regs s) h
        \<or> (\<exists>t' i. conv_hold (procs s t') = Some (i, h) \<and> (\<exists>s'. step s s' \<and> procs s' t' \<noteq> procs s t'))))
    \<and> (procs s t = Cleaning (CLeaseWait h) f ch rest \<longrightarrow> waitForLease_done (regs s) h
        \<or> (\<exists>t' g. procs s t' = Reading g h \<and> ID g = ID f \<and> (\<exists>s'. step s s' \<and> procs s' t' = Idle)))"
proof (intro conjI impI)
  note i = reach_inv [OF assms]
  assume c: "procs s t = Cleaning (CConvWait h) f ch rest"
  have p: "conv_pc s (procs s t)" using invD(7) [OF i] unfolding inv_conv_wait_def by blast
  then show "lc_cancelled (lifecycle_at (regs s) h)" using c by simp
  have "pending_conv s h" using p c by simp
  then show "waitForConversion_done (regs s) h
      \<or> (\<exists>t' i. conv_hold (procs s t') = Some (i, h) \<and> (\<exists>s'. step s s' \<and> procs s' t' \<noteq> procs s t'))"
    using worker_moves unfolding pending_conv_def waitForConversion_done_def by blast
next
  note i = reach_inv [OF assms]
  assume c: "procs s t = Cleaning (CLeaseWait h) f ch rest"
  have "lease_pc (regs s) (procs s t)" using invD(5) [OF i] unfolding inv_lease_wait_def by blast
  then have l: "leases (regs s) (ID f) = Some h \<or> settled (regs s) (ID f) h" using c by simp
  show "waitForLease_done (regs s) h
      \<or> (\<exists>t' g. procs s t' = Reading g h \<and> ID g = ID f \<and> (\<exists>s'. step s s' \<and> procs s' t' = Idle))"
  proof (cases "leases (regs s) (ID f) = Some h")
    case True
    then have "readers s (ID f) h \<noteq> {}"
      using leases_live [OF invD(4) [OF i]] unfolding lease_live_def by blast
    then obtain t' where "reading (procs s t') = Some (ID f, h)" by (auto simp: readers_def)
    then obtain g where g: "procs s t' = Reading g h" "ID g = ID f"
      by (auto elim: reading.elims)
    then have "\<exists>s'. step s s' \<and> procs s' t' = Idle"
      using step.read_release [OF g(1)]
      by (intro exI [of _ "goto t' Idle (s\<lparr>regs := releaseLease (regs s) (ID g) h\<rparr>)"]) simp
    with g show ?thesis by blast
  next
    case False
    then show ?thesis using l by (simp add: settled_def waitForLease_done_def)
  qed
qed

section \<open>Deleted for good\<close>

lemma step_busy:
  assumes "step s s'" and "gone (db s) i"
  shows "busy_on s' i \<subseteq> busy_on s i"
  using assms(1)
proof (cases rule: step.cases)
  case (work_lookup t j h flt f)
  have "\<not> gone (db s) (job_id j)" using lookup_row [OF work_lookup(3)] by (simp add: gone_def holds_iff)
  then have "i \<noteq> job_id j" using assms(2) by blast
  then show ?thesis unfolding work_lookup(1) by (auto simp: busy_on_def split: if_splits)
next
  case (work_start t j h f flt db' r)
  then have "busy (procs s t) = Some (job_id j, h)" by simp
  then show ?thesis unfolding work_start(1) by (auto simp: busy_on_def split: if_splits)
next
  case (work_resolve t j h f)
  then have "busy (procs s t) = Some (job_id j, h)" by simp
  then show ?thesis unfolding work_resolve(1) by (auto simp: busy_on_def split: if_splits)
next
  case (work_convert t j h f)
  then have "busy (procs s t) = Some (job_id j, h)" by simp
  then show ?thesis unfolding work_convert(1) by (auto simp: busy_on_def split: if_splits)
qed (auto simp: busy_on_def split: if_splits)

definition erased :: "File \<Rightarrow> sys \<Rightarrow> bool" where
  "erased f s \<longleftrightarrow> file_wf f \<and> ID f \<in> used s \<and> row (db s) (ID f) = None \<and> file_dir f \<notin> disk s
     \<and> busy_on s (ID f) = {} \<and> (\<forall>t g. fresh_file (procs s t) = Some g \<longrightarrow> ID g \<noteq> ID f)"

lemma step_used: "step s s' \<Longrightarrow> used s \<subseteq> used s'"
  by (cases rule: step.cases) auto

lemma step_fresh: "step s s' \<Longrightarrow> fresh_file (procs s' t) = Some g \<Longrightarrow> fresh_file (procs s t) = Some g \<or> ID g \<notin> used s"
  by (cases rule: step.cases) (auto split: if_splits)

lemma step_row_None:
  assumes "step s s'" and "db_inv (db s)" and "row (db s) i = None"
    and "\<And>t g. fresh_file (procs s t) = Some g \<Longrightarrow> ID g \<noteq> i"
  shows "row (db s') i = None"
  using step_db [OF assms(1)]
proof
  assume "shrinks (db s) (db s')"
  then show ?thesis using assms(2,3) by (rule shrinks_None)
next
  assume "\<exists>t f. procs s t = CreateAdd f \<and> row (db s) (ID f) = None
    \<and> s' = goto t (CreateEnqueue \<lparr>job_id = ID f, has_converter = True\<rparr>) (s\<lparr>db := db s @ [f]\<rparr>)"
  then obtain t f where p: "procs s t = CreateAdd f" and s': "db s' = db s @ [f]" by auto
  have "ID f \<noteq> i" using assms(4) [of t f] p by simp
  then show ?thesis using assms(3) by (simp add: s' row_append)
qed

lemma step_new_dir:
  assumes "step s s'" and "d \<in> disk s'" and "d \<notin> disk s"
  shows "(\<exists>f. new_record f \<and> ID f \<notin> used s \<and> d = file_dir f)
    \<or> (\<exists>t w j h f. procs s t = Working w j h f \<and> d = file_dir f)"
  using assms(1)
proof (cases rule: step.cases)
  case (create_files t f)
  then show ?thesis using assms(2,3) by auto
next
  case (work_write t j h f)
  then have "d = file_dir f" using assms(2,3) by auto
  then show ?thesis using work_write(2) by blast
qed (use assms(2,3) in auto)

lemma step_erased:
  assumes "step s s'" and "inv s" and "erased f s"
  shows "erased f s'"
proof -
  have e: "file_wf f" "ID f \<in> used s" "row (db s) (ID f) = None" "file_dir f \<notin> disk s" "busy_on s (ID f) = {}"
    "\<And>t g. fresh_file (procs s t) = Some g \<Longrightarrow> ID g \<noteq> ID f"
    using assms(3) unfolding erased_def by blast+
  have "row (db s') (ID f) = None" by (rule step_row_None [OF assms(1) invD(13) [OF assms(2)] e(3,6)])
  moreover have "file_dir f \<notin> disk s'"
  proof
    assume "file_dir f \<in> disk s'"
    from step_new_dir [OF assms(1) this e(4)] show False
    proof (elim disjE exE conjE)
      fix g assume "new_record g" "ID g \<notin> used s" "file_dir f = file_dir g"
      then show False using file_wf_distinct [OF e(1), of g] e(2) by (simp add: new_record_def)
    next
      fix t w j h g assume p: "procs s t = Working w j h g" and d: "file_dir f = file_dir g"
      have "record_ok (procs s t)" using invD(12) [OF assms(2)] unfolding inv_records_def by blast
      then have "job_id j = ID f" using p d file_wf_distinct [OF e(1), of g] by simp
      then have "h \<in> busy_on s (ID f)" using p unfolding busy_on_def by (intro CollectI exI [of _ t]) simp
      then show False using e(5) by simp
    qed
  qed
  moreover have "busy_on s' (ID f) = {}"
    using step_busy [OF assms(1), of "ID f"] e(3,5) by (auto simp: gone_def)
  moreover have "ID g \<noteq> ID f" if "fresh_file (procs s' t) = Some g" for t g
    using step_fresh [OF assms(1) that] e(2,6) by metis
  ultimately show ?thesis using e(1,2) step_used [OF assms(1)] unfolding erased_def by blast
qed

lemma row_vanishes:
  assumes "step s s'" and "inv s" and "row (db s) i = Some f" and "row (db s') i = None"
  shows "\<exists>t g ch rest. procs s t = Cleaning CDeleteRow g ch rest \<and> ID g = i \<and> disk s' = disk s"
proof -
  have inv: "db_inv (db s)" by (rule invD(13) [OF assms(2)])
  have upd: False if "store_UpdateStatus flt (db s) k st m e = (db s', r)" for flt k st m e r
    using sql.update_at [OF inv, of flt k st m e i] that assms(3,4) by (auto simp: wrote_def split: if_splits)
  show ?thesis using assms(1)
  proof (cases rule: step.cases)
    case (create_add t g flt db')
    then have "db s' = db s @ [g]" using add_ok [OF create_add(3)] by simp
    then show ?thesis using assms(3,4) by (simp add: row_append)
  next
    case (create_add_fails t g flt db' e)
    then have "db s' = db s" using add_fails [OF create_add_fails(3)] by simp
    then show ?thesis using assms(3,4) by simp
  next
    case (clean_mark t g ch rest flt db' res)
    then show ?thesis using sql.mark_at [OF inv, of flt "clock s" "ID g" "TenantID g" i] assms(3,4)
      by (auto simp: wrote_def split: if_splits)
  next
    case (clean_delete_row t g ch rest flt db' res)
    then have "ID g = i" using sql.delete_at [OF inv, of flt "ID g" "TenantID g" i] assms(3,4)
      by (auto simp: wrote_def split: if_splits)
    then show ?thesis using clean_delete_row by auto
  next
    case (work_start_return t j h g flt db' r res)
    then have "db' = db s'" by simp
    then show ?thesis using upd work_start_return(3) by blast
  next
    case (work_start t j h g flt db' r)
    then have "db' = db s'" by simp
    then show ?thesis using upd work_start(3) by blast
  next
    case (work_finish t j h g flt db' r)
    then have "db' = db s'" by simp
    then show ?thesis using upd work_finish(3) by blast
  next
    case (work_resolve_fails t j h g flt e)
    then have "store_UpdateStatus flt (db s) (job_id j) ''failed'' [] (truncate_string (err_text e) 1000)
      = (db s', snd (store_UpdateStatus flt (db s) (job_id j) ''failed'' [] (truncate_string (err_text e) 1000)))"
      by (simp add: markFailed_def)
    then show ?thesis using upd by blast
  next
    case (err_fail t j res flt e flt')
    then have "store_UpdateStatus flt' (db s) (job_id j) ''failed'' [] (truncate_string (err_text e) 1000)
      = (db s', snd (store_UpdateStatus flt' (db s) (job_id j) ''failed'' [] (truncate_string (err_text e) 1000)))"
      by (simp add: markFailed_def)
    then show ?thesis using upd by blast
  qed (use assms(3,4) in auto)
qed

lemma vanished_erased:
  assumes "reach cap now rows dirs s" and "step s s'" and "row (db s) i = Some f" and "row (db s') i = None"
  shows "erased f s'"
proof -
  note i = reach_inv [OF assms(1)]
  obtain t g ch rest where p: "procs s t = Cleaning CDeleteRow g ch rest" "ID g = i" and d: "disk s' = disk s"
    using row_vanishes [OF assms(2) i assms(3,4)] by blast
  note f = row_facts [OF i assms(3)]
  have "SourcePath f = SourcePath g"
    using reach_inv_paths [OF assms(1)] p assms(3) unfolding inv_paths_def by (metis list.set_intros(1) records.simps(4))
  then have "file_dir f = file_dir g" by (rule file_dir_cong)
  moreover have "dir_pc (disk s) (procs s t)" using reach_inv_disk [OF assms(1)] unfolding inv_disk_def by blast
  ultimately have "file_dir f \<notin> disk s'" using p(1) d by simp
  moreover have "busy_on s (ID f) = {}"
    using invD(7) [OF i] p f(2) unfolding inv_conv_wait_def by (metis conv_pc_simps(7))
  moreover have "gone (db s) i" using invD(3) [OF i] p unfolding inv_gone_def
    by (metis clean_pc.distinct(77) clean_pc.simps marked.simps(1))
  ultimately have "busy_on s' (ID f) = {}" using step_busy [OF assms(2), of i] f(2) by blast
  moreover have "ID h \<noteq> ID f" if "fresh_file (procs s' ta) = Some h" for ta h
  proof -
    have "fresh_file (procs s ta) = Some h \<or> ID h \<notin> used s" by (rule step_fresh [OF assms(2) that])
    then show ?thesis using fresh_facts(2) [OF i] assms(3) f by fastforce
  qed
  ultimately show ?thesis
    using f step_used [OF assms(2)] assms(4) \<open>file_dir f \<notin> disk s'\<close> unfolding erased_def by auto
qed

text \<open>C4. Deletion is complete and final: the row of a file is only removed when its directory is
  gone, and from then on, whatever runs, neither the row nor the directory comes back.\<close>

theorem deleted_for_good:
  assumes "reach cap now rows dirs s" and "step s s1" and "row (db s) i = Some f" and "row (db s1) i = None"
    and "step\<^sup>*\<^sup>* s1 s2"
  shows "row (db s2) i = None \<and> file_dir f \<notin> disk s2"
proof -
  have e: "erased f s1" by (rule vanished_erased [OF assms(1-4)])
  have "inv s1" by (rule step_inv [OF assms(2) reach_inv [OF assms(1)]])
  with assms(5) have "inv s2 \<and> erased f s2"
    by (induction rule: rtranclp_induct) (use e step_inv step_erased in blast)+
  moreover have "ID f = i" using assms(3) by (auto dest: row_SomeD)
  ultimately show ?thesis unfolding erased_def by blast
qed

theorem deleted_for_good_witness:
  "row (db (demo [] {} claimed (new_queue 1) (three starter_a (ReadAcquire sample_file) (cleaning_a CEnd 0)))) ''file_a'' = None
   \<and> demo_dir \<notin> disk (demo [] {} claimed (new_queue 1) (three starter_a (ReadAcquire sample_file) (cleaning_a CEnd 0)))"
proof -
  have "row [set_deleted 200 sample_file] ''file_a'' = Some (set_deleted 200 sample_file)" by (simp add: row_def)
  moreover have "file_dir (set_deleted 200 sample_file) = demo_dir"
    using file_dir_cong [of "set_deleted 200 sample_file" sample_file] by simp
  ultimately show ?thesis
    using deleted_for_good [OF race_removed race_delete_step, of "''file_a''" "set_deleted 200 sample_file"]
    by (simp add: row_def)
qed

section \<open>Retries\<close>

text \<open>The delays before the retries of one job, and its end, given the results of its attempts.\<close>

fun attempts :: "go_error option list \<Rightarrow> nat \<Rightarrow> nat list \<times> err_action option" where
  "attempts [] n = ([], None)"
| "attempts (r # rs) n = (case handleErr r n True of
     Retry d \<Rightarrow> (case attempts rs (Suc n) of (ds, e) \<Rightarrow> (d # ds, e))
   | a \<Rightarrow> ([], Some a))"

lemma attempts_delays: "n \<le> 3 \<Longrightarrow> \<exists>k. fst (attempts rs n) = take k (drop n [1, 2, 4])"
proof (induction rs arbitrary: n)
  case (Cons r rs)
  show ?case
  proof (cases "handleErr r n True")
    case (Retry d)
    then have n: "n < 3" "d = 2 ^ n" using retry_bound [OF Retry] by (simp_all add: maxRetries_def backoffDelay_def)
    then obtain k where k: "fst (attempts rs (Suc n)) = take k (drop (Suc n) [1, 2, 4])"
      using Cons.IH [of "Suc n"] by auto
    have "n = 0 \<or> n = 1 \<or> n = 2" using n(1) by auto
    then have d: "drop n [1, 2, 4] = d # drop (Suc n) [1, 2, 4]" using n(2) by auto
    have "fst (attempts (r # rs) n) = d # fst (attempts rs (Suc n))"
      using Retry by (simp split: prod.splits)
    also have "\<dots> = take (Suc k) (drop n [1, 2, 4])" by (simp only: k d take_Suc_Cons)
    finally have "fst (attempts (r # rs) n) = take (Suc k) (drop n [1, 2, 4])" .
    then show ?thesis by blast
  qed (auto intro: exI [of _ 0])
qed (auto intro: exI [of _ 0])

lemma attempts_end: "n \<le> 3 \<Longrightarrow> 3 - n < length rs \<Longrightarrow> snd (attempts rs n) \<noteq> None"
proof (induction rs arbitrary: n)
  case (Cons r rs)
  show ?case
  proof (cases "handleErr r n True")
    case (Retry d)
    then have "n < 3" using retry_bound [OF Retry] by (simp add: maxRetries_def)
    then have "snd (attempts rs (Suc n)) \<noteq> None" using Cons by auto
    then show ?thesis using Retry by (auto split: prod.splits)
  qed simp_all
qed simp



section \<open>A race\<close>


end
