(* ===== verification/Shutdown.thy ===== *)
theory Shutdown
  imports Lifecycle_Theorems
begin

text \<open>
  The end of the file service: from every reachable state, once the service is stopping, all goroutines
  can run to their end, in whatever they are interrupted. A weight on the program counters gives the
  order in which they do.
\<close>

section \<open>What is left to do\<close>

fun clean_weight :: "clean_pc \<Rightarrow> nat" where
  "clean_weight CMark = 10"
| "clean_weight CConvLookup = 9"
| "clean_weight (CConvCheck h) = 8"
| "clean_weight (CConvWait h) = 7"
| "clean_weight CLeaseLookup = 6"
| "clean_weight (CLeaseCheck h) = 5"
| "clean_weight (CLeaseWait h) = 4"
| "clean_weight CRemove = 3"
| "clean_weight CDeleteRow = 2"
| "clean_weight CEnd = 1"

fun rest_weight :: "File list option \<Rightarrow> nat" where
  "rest_weight None = 0"
| "rest_weight (Some fs) = 12 * length fs + 1"

fun work_weight :: "work_pc \<Rightarrow> nat" where
  "work_weight WStart = 8" | "work_weight WResolve = 7" | "work_weight WConvert = 6" | "work_weight WFinish = 5"

fun weight :: "proc \<Rightarrow> nat" where
  "weight Idle = 0"
| "weight (Starter is) = length is + 1"
| "weight (CreateAdd f) = 2"
| "weight (CreateCleanup f) = 1"
| "weight (CreateEnqueue j) = 1"
| "weight (ReadAcquire f) = 2"
| "weight (Reading f h) = 1"
| "weight (DeleteBegin f rest) = 11 + rest_weight rest"
| "weight (Cleaning c f ch rest) = clean_weight c + rest_weight rest"
| "weight (JanitorNext fs) = rest_weight (Some fs)"
| "weight (WorkBegin j) = 10"
| "weight (WorkLookup j h) = 9"
| "weight (Working w j h f) = work_weight w"
| "weight (WorkUnregister j h res) = 4"
| "weight (WorkDone j h res) = 3"
| "weight (HandleErr j res) = 2"

lemma weight_after_clean [simp]: "weight (after_clean rest) = rest_weight rest"
  by (cases rest) auto

lemma weight_Idle: "weight p = 0 \<longleftrightarrow> p = Idle"
proof (cases p)
  case (Cleaning c f ch rest)
  then show ?thesis by (cases c) auto
next
  case (Working w j h f)
  then show ?thesis by (cases w) auto
qed auto

text \<open>A step that brings goroutine \<open>t\<close> closer to its end, the others staying where they are.\<close>

definition advances :: "sys \<Rightarrow> nat \<Rightarrow> bool" where
  "advances s t \<longleftrightarrow> (\<exists>s' p. step s s' \<and> procs s' = (procs s)(t := p) \<and> weight p < weight (procs s t) \<and> stopping s')"

lemma advancesI:
  "step s (goto t p s0) \<Longrightarrow> procs s0 = procs s \<Longrightarrow> stopping s0 \<Longrightarrow> weight p < weight (procs s t) \<Longrightarrow> advances s t"
  unfolding advances_def by (intro exI [of _ "goto t p s0"] exI [of _ p]) (simp add: goto_def)

section \<open>Every goroutine, unless it waits\<close>

lemma add_stopping: "\<exists>q' ok. (q', ok) \<in> set (queue_Add True q x)"
  using either.add_cancel [of True q x] by (metis last_in_set surj_pair)

lemma upload_advances:
  assumes "stopping s" and "procs s t = Starter is \<or> procs s t = CreateAdd f \<or> procs s t = CreateCleanup f \<or> procs s t = CreateEnqueue j"
  shows "advances s t"
  using assms(2)
proof (elim disjE)
  assume p: "procs s t = Starter is"
  show ?thesis
  proof (cases "is")
    case Nil
    show ?thesis by (rule advancesI [OF run_done [OF p [unfolded Nil]]]) (use assms(1) p in auto)
  next
    case (Cons i rest)
    obtain q' ok where q: "(q', ok) \<in> set (queue_Add (stopping s) (jobs s) \<lparr>job_id = i, has_converter = False\<rparr>)"
      using add_stopping [of "jobs s" "\<lparr>job_id = i, has_converter = False\<rparr>"] assms(1) by auto
    show ?thesis by (rule advancesI [OF run_enqueue [OF p [unfolded Cons] q]]) (use assms(1) p Cons in auto)
  qed
next
  assume p: "procs s t = CreateAdd f"
  show ?thesis by (rule advancesI [OF create_reject [OF p]]) (use assms(1) p in auto)
next
  assume p: "procs s t = CreateCleanup f"
  show ?thesis by (rule advancesI [OF create_cleanup [OF p, of "disk s"]]) (use assms(1) p in auto)
next
  assume p: "procs s t = CreateEnqueue j"
  obtain q' ok where q: "(q', ok) \<in> set (queue_Add (stopping s) (jobs s) j)" using add_stopping [of "jobs s" j] assms(1) by auto
  show ?thesis by (rule advancesI [OF create_enqueue [OF p q]]) (use assms(1) p in auto)
qed

lemma reader_advances:
  assumes "stopping s" and "procs s t = ReadAcquire f \<or> procs s t = Reading f h"
  shows "advances s t"
  using assms(2)
proof
  assume p: "procs s t = ReadAcquire f"
  obtain r' x where a: "acquireLease (regs s) (ID f) = (r', x)" by fastforce
  show ?thesis
  proof (cases x)
    case (Inl e)
    show ?thesis by (rule advancesI [OF read_refused [OF p a [unfolded Inl]]]) (use assms(1) p in auto)
  next
    case (Inr h)
    show ?thesis by (rule advancesI [OF read_acquire [OF p a [unfolded Inr]]]) (use assms(1) p in auto)
  qed
next
  assume p: "procs s t = Reading f h"
  show ?thesis by (rule advancesI [OF read_release [OF p]]) (use assms(1) p in auto)
qed

lemma worker_advances:
  assumes "stopping s" and "procs s t = WorkBegin j \<or> procs s t = WorkLookup j h \<or> procs s t = Working w j h f \<or>
    procs s t = WorkUnregister j h res \<or> procs s t = WorkDone j h res \<or> procs s t = HandleErr j res"
  shows "advances s t"
  using assms(2)
proof (elim disjE)
  assume p: "procs s t = WorkBegin j"
  show ?thesis by (rule advancesI [OF work_begin [OF p surjective_pairing]]) (use assms(1) p in auto)
next
  assume p: "procs s t = WorkLookup j h"
  show ?thesis
  proof (cases "convert_lookup (store_GetInternal NoFault (db s) (job_id j))")
    case (Inl x)
    show ?thesis by (rule advancesI [OF work_lookup_return [OF p Inl]]) (use assms(1) p in auto)
  next
    case (Inr g)
    show ?thesis by (rule advancesI [OF work_lookup [OF p Inr]]) (use assms(1) p in auto)
  qed
next
  assume p: "procs s t = Working w j h f"
  show ?thesis
  proof (cases w)
    case WStart
    obtain db' r where u: "store_UpdateStatus NoFault (db s) (job_id j) ''processing'' [] [] = (db', r)" by fastforce
    show ?thesis
    proof (cases "convert_started r")
      case (Inl x)
      show ?thesis by (rule advancesI [OF work_start_return [OF p [unfolded WStart] u Inl]]) (use assms(1) p WStart in auto)
    next
      case (Inr x)
      then have c: "convert_started r = Inr ()" by simp
      show ?thesis by (rule advancesI [OF work_start [OF p [unfolded WStart] u c]]) (use assms(1) p WStart in auto)
    qed
  next
    case WResolve
    show ?thesis by (rule advancesI [OF work_resolve [OF p [unfolded WResolve]]]) (use assms(1) p WResolve in auto)
  next
    case WConvert
    show ?thesis by (rule advancesI [OF work_convert [OF p [unfolded WConvert]]]) (use assms(1) p WConvert in auto)
  next
    case WFinish
    show ?thesis by (rule advancesI [OF work_finish [OF p [unfolded WFinish] surjective_pairing]]) (use assms(1) p WFinish in auto)
  qed
next
  assume p: "procs s t = WorkUnregister j h res"
  show ?thesis by (rule advancesI [OF work_unregister [OF p]]) (use assms(1) p in auto)
next
  assume p: "procs s t = WorkDone j h res"
  show ?thesis by (rule advancesI [OF work_done [OF p]]) (use assms(1) p in auto)
next
  assume p: "procs s t = HandleErr j res"
  show ?thesis
  proof (cases "handleErr res (retryCount s (job_id j)) (fileActive NoFault (db s) (job_id j))")
    case Forget
    show ?thesis by (rule advancesI [OF err_forget [OF p Forget]]) (use assms(1) p in auto)
  next
    case (FailAndForget e)
    show ?thesis by (rule advancesI [OF err_fail [OF p FailAndForget]]) (use assms(1) p in auto)
  next
    case (Retry d)
    show ?thesis by (rule advancesI [OF err_retry [OF p Retry]]) (use assms(1) p in auto)
  qed
qed

lemma janitor_advances:
  assumes "stopping s" and "procs s t = JanitorNext fs \<or> procs s t = DeleteBegin f rest"
  shows "advances s t"
  using assms(2)
proof
  assume p: "procs s t = JanitorNext fs"
  show ?thesis
  proof (cases fs)
    case Nil
    show ?thesis by (rule advancesI [OF janitor_done [OF p [unfolded Nil]]]) (use assms(1) p in auto)
  next
    case (Cons g gs)
    show ?thesis by (rule advancesI [OF janitor_next [OF p [unfolded Cons]]]) (use assms(1) p Cons in auto)
  qed
next
  assume p: "procs s t = DeleteBegin f rest"
  obtain r' x where b: "beginDeletion (regs s) (ID f) = (r', x)" by fastforce
  show ?thesis
  proof (cases x)
    case None
    show ?thesis by (rule advancesI [OF delete_refused [OF p b [unfolded None]]]) (use assms(1) p in auto)
  next
    case (Some ch)
    show ?thesis by (rule advancesI [OF delete_claim [OF p b [unfolded Some]]]) (use assms(1) p in auto)
  qed
qed

text \<open>A cleanup, unless it waits for something that is not over.\<close>

lemma cleanup_advances:
  assumes "stopping s" and p: "procs s t = Cleaning c f ch rest"
    and "\<And>h. c = CConvWait h \<Longrightarrow> waitForConversion_done (regs s) h" and "\<And>h. c = CLeaseWait h \<Longrightarrow> waitForLease_done (regs s) h"
  shows "advances s t"
proof (cases c)
  case CMark
  show ?thesis by (rule advancesI [OF clean_mark [OF p [unfolded CMark] surjective_pairing]]) (use assms(1) p CMark in auto)
next
  case CConvLookup
  show ?thesis
    by (rule advancesI [OF clean_conv_lookup [OF p [unfolded CConvLookup]]]) (use assms(1) p CConvLookup in \<open>auto split: option.split\<close>)
next
  case (CConvCheck h)
  show ?thesis by (rule advancesI [OF clean_conv_check [OF p [unfolded CConvCheck] surjective_pairing]]) (use assms(1) p CConvCheck in auto)
next
  case (CConvWait h)
  show ?thesis by (rule advancesI [OF clean_conv_wait [OF p [unfolded CConvWait] assms(3) [OF CConvWait]]]) (use assms(1) p CConvWait in auto)
next
  case CLeaseLookup
  show ?thesis
    by (rule advancesI [OF clean_lease_lookup [OF p [unfolded CLeaseLookup]]]) (use assms(1) p CLeaseLookup in \<open>auto split: option.split\<close>)
next
  case (CLeaseCheck h)
  show ?thesis by (rule advancesI [OF clean_lease_check [OF p [unfolded CLeaseCheck]]]) (use assms(1) p CLeaseCheck in auto)
next
  case (CLeaseWait h)
  show ?thesis by (rule advancesI [OF clean_lease_wait [OF p [unfolded CLeaseWait] assms(4) [OF CLeaseWait]]]) (use assms(1) p CLeaseWait in auto)
next
  case CRemove
  show ?thesis by (rule advancesI [OF clean_remove [OF p [unfolded CRemove]]]) (use assms(1) p CRemove in auto)
next
  case CDeleteRow
  show ?thesis by (rule advancesI [OF clean_delete_row [OF p [unfolded CDeleteRow] surjective_pairing]]) (use assms(1) p CDeleteRow in auto)
next
  case CEnd
  show ?thesis by (rule advancesI [OF clean_end [OF p [unfolded CEnd]]]) (use assms(1) p CEnd in auto)
qed

section \<open>Somebody advances\<close>

lemma holder_advances:
  assumes "stopping s" and "conv_hold (procs s t) = Some (i, h)"
  shows "advances s t"
proof (cases "procs s t")
  case (WorkLookup j k)
  then show ?thesis using worker_advances [OF assms(1), of t j k] by simp
next
  case (Working w j k f)
  then show ?thesis using worker_advances [OF assms(1), of t j k w f] by simp
next
  case (WorkUnregister j k res)
  then show ?thesis using worker_advances [OF assms(1), of t j k _ _ res] by simp
next
  case (WorkDone j k res)
  then show ?thesis using worker_advances [OF assms(1), of t j k _ _ res] by simp
qed (use assms in auto)

lemma conversion_waiter:
  assumes "inv s" and "stopping s" and p: "procs s t = Cleaning (CConvWait h) f ch rest"
  shows "\<exists>t'. advances s t'"
proof (cases "lc_done (lifecycle_at (regs s) h)")
  case True
  have "advances s t" by (rule cleanup_advances [OF assms(2) p]) (use True in \<open>auto simp: waitForConversion_done_def\<close>)
  then show ?thesis by blast
next
  case False
  have "conv_pc s (procs s t)" using invD(7) [OF assms(1)] unfolding inv_conv_wait_def by blast
  then have "pending_conv s h" using p by simp
  then obtain t' i where "conv_hold (procs s t') = Some (i, h)" using False unfolding pending_conv_def by blast
  then show ?thesis using holder_advances [OF assms(2)] by blast
qed

lemma lease_waiter:
  assumes "inv s" and "stopping s" and p: "procs s t = Cleaning (CLeaseWait h) f ch rest"
  shows "\<exists>t'. advances s t'"
proof (cases "leases (regs s) (ID f) = Some h")
  case True
  then have "readers s (ID f) h \<noteq> {}" using leases_live [OF invD(4) [OF assms(1)]] unfolding lease_live_def by blast
  then obtain t' where "reading (procs s t') = Some (ID f, h)" by (auto simp: readers_def)
  then obtain g where "procs s t' = Reading g h" by (auto elim: reading.elims)
  then show ?thesis using reader_advances [OF assms(2), of t' g h] by blast
next
  case False
  have "lease_pc (regs s) (procs s t)" using invD(5) [OF assms(1)] unfolding inv_lease_wait_def by blast
  then have "lease_done (lease_at (regs s) h)" using p False by (simp add: settled_def)
  then have "advances s t" using cleanup_advances [OF assms(2) p] by (simp add: waitForLease_done_def)
  then show ?thesis by blast
qed

lemma somebody_advances:
  assumes "inv s" and "stopping s" and "procs s t \<noteq> Idle"
  shows "\<exists>t'. advances s t'"
proof (cases "procs s t")
  case (Cleaning c f ch rest)
  consider h where "c = CConvWait h" | h where "c = CLeaseWait h"
    | "\<And>h. c \<noteq> CConvWait h" "\<And>h. c \<noteq> CLeaseWait h" by blast
  then show ?thesis
  proof cases
    case 1
    then show ?thesis using conversion_waiter [OF assms(1,2)] Cleaning by blast
  next
    case 2
    then show ?thesis using lease_waiter [OF assms(1,2)] Cleaning by blast
  next
    case 3
    have "advances s t" by (rule cleanup_advances [OF assms(2) Cleaning]) (use 3 in auto)
    then show ?thesis by blast
  qed
next
  case (Starter js)
  then show ?thesis using upload_advances [OF assms(2), of t js] by blast
next
  case (CreateAdd f)
  then show ?thesis using upload_advances [OF assms(2), of t _ f] by blast
next
  case (CreateCleanup f)
  then show ?thesis using upload_advances [OF assms(2), of t _ f] by blast
next
  case (CreateEnqueue j)
  then show ?thesis using upload_advances [OF assms(2), of t _ _ j] by blast
next
  case (ReadAcquire f)
  then show ?thesis using reader_advances [OF assms(2), of t f] by blast
next
  case (Reading f h)
  then show ?thesis using reader_advances [OF assms(2), of t f h] by blast
next
  case (DeleteBegin f rest)
  then show ?thesis using janitor_advances [OF assms(2), of t _ f rest] by blast
next
  case (JanitorNext fs)
  then show ?thesis using janitor_advances [OF assms(2), of t fs] by blast
next
  case (WorkBegin j)
  then show ?thesis using worker_advances [OF assms(2), of t j] by blast
next
  case (WorkLookup j h)
  then show ?thesis using worker_advances [OF assms(2), of t j h] by blast
next
  case (Working w j h f)
  then show ?thesis using worker_advances [OF assms(2), of t j h w f] by blast
next
  case (WorkUnregister j h res)
  then show ?thesis using worker_advances [OF assms(2), of t j h _ _ res] by blast
next
  case (WorkDone j h res)
  then show ?thesis using worker_advances [OF assms(2), of t j h _ _ res] by blast
next
  case (HandleErr j res)
  then show ?thesis using worker_advances [OF assms(2), of t j _ _ _ res] by blast
qed (use assms(3) in simp)

section \<open>All of them end\<close>

lemma one_update: "\<exists>t p. f(u := q) = f(t := p)" "\<exists>t p. f = f(t := p)"
  by (blast, metis fun_upd_triv)

lemma step_one_proc: "step s s' \<Longrightarrow> \<exists>t p. procs s' = (procs s)(t := p)"
  by (cases rule: step.cases) (auto simp: goto_def one_update)

lemma finitely_busy: "reach cap now rows dirs s \<Longrightarrow> finite {t. procs s t \<noteq> Idle}"
proof (induction rule: reach.induct)
  case boot
  have "{t. procs (boot cap now rows dirs) t \<noteq> Idle} \<subseteq> {0}" by (auto simp: boot_procs)
  then show ?case by (rule finite_subset) simp
next
  case (step s s')
  obtain t p where "procs s' = (procs s)(t := p)" using step_one_proc [OF step.hyps(2)] by blast
  then have "{u. procs s' u \<noteq> Idle} \<subseteq> insert t {u. procs s u \<noteq> Idle}" by auto
  then show ?case by (rule finite_subset) (simp add: step.IH)
qed

lemma reach_steps: "step\<^sup>*\<^sup>* s s' \<Longrightarrow> reach cap now rows dirs s \<Longrightarrow> reach cap now rows dirs s'"
  by (induction rule: rtranclp_induct) (auto intro: reach.step)

lemma run_to_idle:
  assumes "reach cap now rows dirs s" and "stopping s" and "finite A" and "\<And>t. t \<notin> A \<Longrightarrow> procs s t = Idle"
  shows "\<exists>s'. step\<^sup>*\<^sup>* s s' \<and> stopping s' \<and> (\<forall>t. procs s' t = Idle)"
  using assms
proof (induction "\<Sum>t\<in>A. weight (procs s t)" arbitrary: s rule: less_induct)
  case less
  show ?case
  proof (cases "\<forall>t. procs s t = Idle")
    case True
    then show ?thesis using less.prems(2) by blast
  next
    case False
    then obtain t where "procs s t \<noteq> Idle" by blast
    then obtain u where "advances s u" using somebody_advances [OF reach_inv [OF less.prems(1)] less.prems(2)] by blast
    then obtain s1 p where a: "step s s1" "procs s1 = (procs s)(u := p)" "weight p < weight (procs s u)" "stopping s1"
      unfolding advances_def by blast
    have u: "u \<in> A"
    proof (rule ccontr)
      assume "u \<notin> A"
      then show False using less.prems(4) a(3) by simp
    qed
    have "(\<Sum>t\<in>A. weight (procs s1 t)) < (\<Sum>t\<in>A. weight (procs s t))"
      by (rule sum_strict_mono_ex1 [OF less.prems(3)]) (use a(2,3) u in auto)
    moreover have "procs s1 t = Idle" if "t \<notin> A" for t using that u less.prems(4) [OF that] a(2) by auto
    ultimately obtain s' where "step\<^sup>*\<^sup>* s1 s'" "stopping s'" "\<forall>t. procs s' t = Idle"
      using less.hyps [of s1] reach.step [OF less.prems(1) a(1)] a(4) less.prems(3) by blast
    then show ?thesis using converse_rtranclp_into_rtranclp [of step s s1 s'] a(1) by blast
  qed
qed

text \<open>When every goroutine is at its end, the registers are empty.\<close>

lemma idle_registers:
  assumes "inv s" and "\<And>t. procs s t = Idle"
  shows "conversions (regs s) i = None" "leases (regs s) i = None" "deleting (regs s) i = None"
proof -
  show "conversions (regs s) i = None"
    using conv_runs [OF invD(6) [OF assms(1)], of i] assms(2) by (cases "conversions (regs s) i") auto
  show "leases (regs s) i = None"
    using leases_live [OF invD(4) [OF assms(1)], of i] assms(2)
    by (cases "leases (regs s) i") (auto simp: lease_live_def readers_def)
  show "deleting (regs s) i = None"
    using invD(2) [OF assms(1)] assms(2) unfolding inv_own_def by (cases "deleting (regs s) i") auto
qed

text \<open>C5. The service can always be brought to rest. From every reachable state, whatever its uploads,
  readers, deletions, workers and the janitor are doing, a run leads to a state in which the service is
  stopping, every goroutine has ended, and no conversion, read lease or deletion is left registered: no
  combination of leases, cancelled conversions and deletions deadlocks.\<close>

theorem shutdown_completes:
  assumes "reach cap now rows dirs s"
  shows "\<exists>s'. step\<^sup>*\<^sup>* s s' \<and> stopping s' \<and> (\<forall>t. procs s' t = Idle) \<and>
    (\<forall>i. conversions (regs s') i = None \<and> leases (regs s') i = None \<and> deleting (regs s') i = None)"
proof -
  let ?s = "s\<lparr>stopping := True\<rparr>"
  have r: "reach cap now rows dirs ?s" by (rule reach.step [OF assms step.stop])
  obtain s' where s': "step\<^sup>*\<^sup>* ?s s'" "stopping s'" "\<forall>t. procs s' t = Idle"
    using run_to_idle [OF r _ finitely_busy [OF r]] by auto
  have "inv s'" by (rule reach_inv [OF reach_steps [OF s'(1) r]])
  then show ?thesis
    using s' idle_registers [of s'] converse_rtranclp_into_rtranclp [of step s ?s s', OF step.stop] by blast
qed

theorem shutdown_completes_witness:
  "(\<exists>s'. step\<^sup>*\<^sup>* (demo [set_deleted 200 sample_file] {demo_dir} leased_claimed (new_queue 1)
       (three starter_a (Reading sample_file 0) (cleaning_a (CLeaseWait 0) 1))) s' \<and> (\<forall>t. procs s' t = Idle))
   \<and> (\<exists>s'. step\<^sup>*\<^sup>* (demo [set_deleted 200 sample_file] {demo_dir} converting_cancelled (new_queue 1)
       (three (Working WStart demo_job 0 sample_file) Idle (cleaning_a (CConvWait 0) 1))) s' \<and> (\<forall>t. procs s' t = Idle))"
  using shutdown_completes [OF leased_waiting] shutdown_completes [OF conversion_waiting] by blast

end
