(* ===== verification/Utf8.thy ===== *)
theory Utf8
  imports Prelude
begin

text \<open>
  UTF-8 as Go's \<open>unicode/utf8\<close> and \<open>strings\<close> treat it: validity (\<open>utf8.Valid\<close>), the runes of a byte
  string (an invalid byte is a rune of its own) and \<open>strings.Fields\<close>, with the proof that the validity
  test accepts exactly the encodings of Unicode scalar values.
\<close>

section \<open>Runes\<close>

definition cont_byte :: "nat \<Rightarrow> bool" where
  "cont_byte b \<longleftrightarrow> 128 \<le> b \<and> b \<le> 191"

definition second_ok :: "nat \<Rightarrow> nat \<Rightarrow> bool" where
  "second_ok a b \<longleftrightarrow> (if a = 224 then 160 \<le> b \<and> b \<le> 191 else if a = 237 then 128 \<le> b \<and> b \<le> 159
     else if a = 240 then 144 \<le> b \<and> b \<le> 191 else if a = 244 then 128 \<le> b \<and> b \<le> 143 else cont_byte b)"

text \<open>The width of the well-formed encoding at the start of the bytes, 0 if there is none.\<close>

fun enc_width :: "nat list \<Rightarrow> nat" where
  "enc_width [] = 0"
| "enc_width (a # bs) =
     (if a < 128 then 1
      else if 194 \<le> a \<and> a \<le> 223 then (case bs of b # _ \<Rightarrow> if cont_byte b then 2 else 0 | _ \<Rightarrow> 0)
      else if 224 \<le> a \<and> a \<le> 239 then
        (case bs of b # c # _ \<Rightarrow> if second_ok a b \<and> cont_byte c then 3 else 0 | _ \<Rightarrow> 0)
      else if 240 \<le> a \<and> a \<le> 244 then
        (case bs of b # c # d # _ \<Rightarrow> if second_ok a b \<and> cont_byte c \<and> cont_byte d then 4 else 0 | _ \<Rightarrow> 0)
      else 0)"

definition bytes :: "string \<Rightarrow> nat list" where
  "bytes s = map of_char s"

definition rune_width :: "string \<Rightarrow> nat" where
  "rune_width s = enc_width (bytes s)"

function utf8_valid :: "string \<Rightarrow> bool" where
  "utf8_valid s = (if s = [] then True else if rune_width s = 0 then False
     else utf8_valid (drop (rune_width s) s))"
  by pat_completeness auto
termination
  by (relation "measure length") auto

declare utf8_valid.simps [simp del]

function split_runes :: "string \<Rightarrow> string list" where
  "split_runes s = (if s = [] then []
     else take (max 1 (rune_width s)) s # split_runes (drop (max 1 (rune_width s)) s))"
  by pat_completeness auto
termination
  by (relation "measure length") auto

declare split_runes.simps [simp del]

text \<open>\<open>len([]rune(s))\<close>.\<close>

definition rune_count :: "string \<Rightarrow> nat" where
  "rune_count s = length (split_runes s)"

section \<open>Scalar values\<close>

definition scalar :: "nat \<Rightarrow> bool" where
  "scalar c \<longleftrightarrow> c < 55296 \<or> (57344 \<le> c \<and> c < 1114112)"

definition encode_nats :: "nat \<Rightarrow> nat list" where
  "encode_nats c = (if c < 128 then [c]
     else if c < 2048 then [192 + c div 64, 128 + c mod 64]
     else if c < 65536 then [224 + c div 4096, 128 + c div 64 mod 64, 128 + c mod 64]
     else [240 + c div 262144, 128 + c div 4096 mod 64, 128 + c div 64 mod 64, 128 + c mod 64])"

definition utf8_encode :: "nat \<Rightarrow> string" where
  "utf8_encode c = map char_of (encode_nats c)"

lemma encode_nats_byte: "scalar c \<Longrightarrow> \<forall>b \<in> set (encode_nats c). b < 256"
  by (auto simp: scalar_def encode_nats_def)

lemma bytes_encode: "scalar c \<Longrightarrow> bytes (utf8_encode c) = encode_nats c"
proof -
  assume "scalar c"
  then have "\<forall>b \<in> set (encode_nats c). of_char (char_of b :: char) = b"
    using encode_nats_byte by (auto simp: of_char_of)
  then show ?thesis by (simp add: bytes_def utf8_encode_def map_idI)
qed

lemma width_2: "enc_width ((192 + q) # (128 + r) # rest) = 2" if "2 \<le> q" "q < 32" "r < 64"
  using that by (simp add: cont_byte_def)

lemma width_3:
  assumes "q < 16" "r < 64" "t < 64" "q = 0 \<Longrightarrow> 32 \<le> r" "q = 13 \<Longrightarrow> r < 32"
  shows "enc_width ((224 + q) # (128 + r) # (128 + t) # rest) = 3"
  using assms by (auto simp: cont_byte_def second_ok_def)

lemma width_4:
  assumes "q < 5" "r < 64" "t < 64" "u < 64" "q = 0 \<Longrightarrow> 16 \<le> r" "q = 4 \<Longrightarrow> r < 16"
  shows "enc_width ((240 + q) # (128 + r) # (128 + t) # (128 + u) # rest) = 4"
  using assms by (auto simp: cont_byte_def second_ok_def)

lemma digit64: "t < 64 \<Longrightarrow> (m * 64 + t) div 64 = (m :: nat) \<and> (m * 64 + t) mod 64 = t"
  by simp

lemma encode_div:
  "c div 4096 = c div 64 div 64" "c div 262144 = c div 64 div 64 div 64" for c :: nat
  by (simp_all add: div_mult2_eq [symmetric])

lemma split64: "(c :: nat) = c div 64 * 64 + c mod 64" "c mod 64 < 64"
  by simp_all

lemma enc_width_encode: "scalar c \<Longrightarrow> enc_width (encode_nats c @ rest) = length (encode_nats c)"
proof -
  assume s: "scalar c"
  consider "c < 128" | "128 \<le> c" "c < 2048" | "2048 \<le> c" "c < 65536" | "65536 \<le> c" by linarith
  then show ?thesis
  proof cases
    case 1
    then show ?thesis by (simp add: encode_nats_def)
  next
    case 2
    have "2 \<le> c div 64" "c div 64 < 32" using 2 split64 [of c] by linarith+
    then show ?thesis using 2 width_2 [of "c div 64" "c mod 64" rest]
      by (simp add: encode_nats_def del: enc_width.simps)
  next
    case 3
    define y where "y = c div 64"
    have y: "32 \<le> y" "y < 1024" "y < 864 \<or> 896 \<le> y"
      using 3 s split64 [of c] unfolding y_def scalar_def by linarith+
    have "y div 64 < 16" "y div 64 = 0 \<Longrightarrow> 32 \<le> y mod 64" "y div 64 = 13 \<Longrightarrow> y mod 64 < 32"
      using y split64 [of y] by linarith+
    then show ?thesis using 3 width_3 [of "y div 64" "y mod 64" "c mod 64" rest]
      by (simp add: encode_nats_def encode_div y_def del: enc_width.simps)
  next
    case 4
    define y where "y = c div 64"
    define z where "z = y div 64"
    have "c < 1114112" using s 4 by (simp add: scalar_def)
    then have y: "1024 \<le> y" "y < 17408" using 4 split64 [of c] unfolding y_def by linarith+
    then have z: "16 \<le> z" "z < 272" using split64 [of y] unfolding z_def by linarith+
    then have "z div 64 < 5" "z div 64 = 0 \<Longrightarrow> 16 \<le> z mod 64" "z div 64 = 4 \<Longrightarrow> z mod 64 < 16"
      using split64 [of z] by linarith+
    then show ?thesis using 4 width_4 [of "z div 64" "z mod 64" "y mod 64" "c mod 64" rest]
      by (simp add: encode_nats_def encode_div y_def z_def del: enc_width.simps)
  qed
qed

lemma decode_2: "194 \<le> a \<Longrightarrow> a \<le> 223 \<Longrightarrow> cont_byte b \<Longrightarrow> \<exists>c. scalar c \<and> encode_nats c = [a, b]"
proof -
  assume *: "194 \<le> a" "a \<le> 223" "cont_byte b"
  define q r where "q = a - 192" and "r = b - 128"
  have v: "a = 192 + q" "b = 128 + r" and l: "2 \<le> q" "q < 32" "r < 64"
    using * by (auto simp: q_def r_def cont_byte_def)
  have lo: "128 \<le> q * 64 + r" and hi: "q * 64 + r < 2048" using l by linarith+
  have "encode_nats (q * 64 + r) = [a, b]"
    using lo hi digit64 [OF l(3), of q] v by (simp add: encode_nats_def)
  moreover have "scalar (q * 64 + r)" using hi by (simp add: scalar_def)
  ultimately show ?thesis by blast
qed

lemma decode_3:
  assumes "224 \<le> a" "a \<le> 239" "second_ok a b" "cont_byte c"
  shows "\<exists>x. scalar x \<and> encode_nats x = [a, b, c]"
proof -
  define q r t where "q = a - 224" and "r = b - 128" and "t = c - 128"
  have v: "a = 224 + q" "b = 128 + r" "c = 128 + t" and l: "q < 16" "r < 64" "t < 64"
    and e: "q = 0 \<Longrightarrow> 32 \<le> r" "q = 13 \<Longrightarrow> r < 32"
    using assms by (auto simp: q_def r_def t_def cont_byte_def second_ok_def split: if_splits)
  define y where "y = q * 64 + r"
  have y: "y div 64 = q" "y mod 64 = r" "32 \<le> y" "y < 1024"
    using digit64 [OF l(2), of q] e(1) l by (cases "q = 0"; simp add: y_def)+
  have n: "y < 864 \<or> 896 \<le> y"
  proof (cases "q = 13")
    case True
    then show ?thesis using e(2) by (simp add: y_def)
  next
    case False
    then have "q \<le> 12 \<or> 14 \<le> q" by linarith
    then show ?thesis using l by (auto simp: y_def)
  qed
  let ?x = "y * 64 + t"
  have lo: "2048 \<le> ?x" and hi: "?x < 65536" using y l by linarith+
  have "?x < 55296 \<or> 57344 \<le> ?x" using n l by linarith
  then have "scalar ?x" using hi by (auto simp: scalar_def)
  moreover have "encode_nats ?x = [a, b, c]"
    using lo hi digit64 [OF l(3), of y] y v by (simp add: encode_nats_def encode_div)
  ultimately show ?thesis by blast
qed

lemma decode_4:
  assumes "240 \<le> a" "a \<le> 244" "second_ok a b" "cont_byte c" "cont_byte d"
  shows "\<exists>x. scalar x \<and> encode_nats x = [a, b, c, d]"
proof -
  define q r t u where "q = a - 240" and "r = b - 128" and "t = c - 128" and "u = d - 128"
  have v: "a = 240 + q" "b = 128 + r" "c = 128 + t" "d = 128 + u"
    and l: "q < 5" "r < 64" "t < 64" "u < 64" and e: "q = 0 \<Longrightarrow> 16 \<le> r" "q = 4 \<Longrightarrow> r < 16"
    using assms by (auto simp: q_def r_def t_def u_def cont_byte_def second_ok_def split: if_splits)
  define y where "y = q * 64 + r"
  have y: "y div 64 = q" "y mod 64 = r" using digit64 [OF l(2), of q] by (simp_all add: y_def)
  have lo: "16 \<le> y" using e(1) by (cases "q = 0") (simp_all add: y_def)
  have hi: "y < 272" using e(2) l by (cases "q = 4") (simp_all add: y_def)
  define z where "z = y * 64 + t"
  have z: "z div 64 = y" "z mod 64 = t" using digit64 [OF l(3), of y] by (simp_all add: z_def)
  let ?x = "z * 64 + u"
  have b: "1024 \<le> z" "z < 17408" using lo hi l by (simp_all add: z_def)
  then have x: "65536 \<le> ?x" "?x < 1114112" using l by linarith+
  then have "scalar ?x" by (simp add: scalar_def)
  moreover have "encode_nats ?x = [a, b, c, d]"
    using x digit64 [OF l(4), of z] y z v by (simp add: encode_nats_def encode_div)
  ultimately show ?thesis by blast
qed

lemma decode_prefix: "enc_width bs \<noteq> 0 \<Longrightarrow> \<exists>c rest. scalar c \<and> bs = encode_nats c @ rest"
proof (cases bs)
  case (Cons a as)
  assume w: "enc_width bs \<noteq> 0"
  consider "a < 128" | b r where "as = b # r" "194 \<le> a" "a \<le> 223" "cont_byte b"
    | b c r where "as = b # c # r" "224 \<le> a" "a \<le> 239" "second_ok a b" "cont_byte c"
    | b c d r where "as = b # c # d # r" "240 \<le> a" "a \<le> 244" "second_ok a b" "cont_byte c" "cont_byte d"
    using w Cons by (auto split: if_splits list.splits)
  then show ?thesis
  proof cases
    case 1
    then have "scalar a \<and> bs = encode_nats a @ as" using Cons by (simp add: scalar_def encode_nats_def)
    then show ?thesis by blast
  next
    case (2 b r)
    with decode_2 Cons show ?thesis by (metis append_Cons append_Nil)
  next
    case (3 b c r)
    with decode_3 Cons show ?thesis by (metis append_Cons append_Nil)
  next
    case (4 b c d r)
    with decode_4 Cons show ?thesis by (metis append_Cons append_Nil)
  qed
qed simp

lemma encode_nats_ne [simp]: "encode_nats c \<noteq> []"
  by (simp add: encode_nats_def)

lemma utf8_encode_ne [simp]: "utf8_encode c \<noteq> []"
  by (simp add: utf8_encode_def)

lemma rune_width_encode: "scalar c \<Longrightarrow> rune_width (utf8_encode c @ s) = length (utf8_encode c)"
  using enc_width_encode [of c "bytes s"] bytes_encode [of c]
  by (simp add: rune_width_def bytes_def utf8_encode_def)

lemma valid_encode: "scalar c \<Longrightarrow> utf8_valid (utf8_encode c @ s) = utf8_valid s"
  by (subst utf8_valid.simps) (simp add: rune_width_encode)

lemma runes_encode: "scalar c \<Longrightarrow> split_runes (utf8_encode c @ s) = utf8_encode c # split_runes s"
  by (subst split_runes.simps) (simp add: rune_width_encode max_def Suc_le_eq)

lemma utf8_valid_Nil [simp]: "utf8_valid []"
  by (subst utf8_valid.simps) simp

lemma split_runes_Nil [simp]: "split_runes [] = []"
  by (subst split_runes.simps) simp

lemma valid_concat: "list_all scalar cs \<Longrightarrow> utf8_valid (concat (map utf8_encode cs))"
  by (induction cs) (simp_all add: valid_encode)

lemma runes_concat: "list_all scalar cs \<Longrightarrow> split_runes (concat (map utf8_encode cs)) = map utf8_encode cs"
  by (induction cs) (simp_all add: runes_encode)

lemma bytes_inj: "bytes s = bytes t \<Longrightarrow> s = t"
  unfolding bytes_def by (rule map_injective) (auto simp: inj_def)

lemma valid_decode: "utf8_valid s \<Longrightarrow> \<exists>cs. list_all scalar cs \<and> s = concat (map utf8_encode cs)"
proof (induction s rule: utf8_valid.induct)
  case (1 s)
  show ?case
  proof (cases "s = []")
    case True
    then show ?thesis by (intro exI [of _ "[]"]) simp
  next
    case False
    have w: "rune_width s \<noteq> 0" and v: "utf8_valid (drop (rune_width s) s)"
      using 1(2) False by (subst (asm) utf8_valid.simps, simp split: if_splits)+
    obtain c rest where c: "scalar c" "bytes s = encode_nats c @ rest"
      using decode_prefix w unfolding rune_width_def by blast
    then have l: "rune_width s = length (encode_nats c)" by (simp add: rune_width_def enc_width_encode)
    have "bytes (take (rune_width s) s) = encode_nats c"
      using c(2) l by (simp add: bytes_def take_map [symmetric])
    then have "take (rune_width s) s = utf8_encode c" using bytes_encode [OF c(1)] bytes_inj by metis
    moreover obtain cs where "list_all scalar cs" "drop (rune_width s) s = concat (map utf8_encode cs)"
      using 1(1) [OF False w v] by blast
    ultimately have "list_all scalar (c # cs) \<and> s = concat (map utf8_encode (c # cs))"
      using c(1) append_take_drop_id [of "rune_width s" s] by simp
    then show ?thesis by blast
  qed
qed

text \<open>The runes of a string are its bytes, cut up.\<close>

lemma concat_split_runes [simp]: "concat (split_runes s) = s"
proof (induction s rule: split_runes.induct)
  case (1 s)
  then show ?case by (subst split_runes.simps) auto
qed

section \<open>Fields\<close>

definition space_rune :: "string \<Rightarrow> bool" where
  "space_rune r \<longleftrightarrow> (let b = bytes r in
     b \<in> {[9], [10], [11], [12], [13], [32], [194, 133], [194, 160], [225, 154, 128], [226, 128, 168],
          [226, 128, 169], [226, 128, 175], [226, 129, 159], [227, 128, 128]}
     \<or> (\<exists>k \<in> set [128..<139]. b = [226, 128, k]))"

text \<open>\<open>strings.Fields\<close>: the maximal runs of runes that are not white space.\<close>

fun group_fields :: "string list \<Rightarrow> string \<Rightarrow> string list" where
  "group_fields [] acc = (if acc = [] then [] else [acc])"
| "group_fields (r # rs) acc =
     (if space_rune r then (if acc = [] then [] else [acc]) @ group_fields rs []
      else group_fields rs (acc @ r))"

definition str_fields :: "string \<Rightarrow> string list" where
  "str_fields s = group_fields (split_runes s) []"

lemma group_fields_ne: "\<forall>r \<in> set rs. r \<noteq> [] \<Longrightarrow> x \<in> set (group_fields rs acc) \<Longrightarrow> x \<noteq> []"
  by (induction rs arbitrary: acc) (auto split: if_splits)

lemma split_runes_ne: "r \<in> set (split_runes s) \<Longrightarrow> r \<noteq> []"
proof (induction s rule: split_runes.induct)
  case (1 s)
  then show ?case by (subst (asm) (2) split_runes.simps) (auto split: if_splits)
qed

lemma str_fields_ne: "x \<in> set (str_fields s) \<Longrightarrow> x \<noteq> []"
  unfolding str_fields_def using group_fields_ne split_runes_ne by blast

end
