(* ===== verification/Extractor.thy ===== *)
theory Extractor
  imports Utf8 Errors
begin

text \<open>
  The package \<open>internal/converter/extractor\<close>: plain text, CSV and HTML extraction. An extractor is a
  function of what \<open>os.ReadFile\<close> returned. \<open>encoding/csv\<close> is modelled as the extractor configures it
  (comma, no comments, strict quotes, any number of fields); the HTML parser of \<open>golang.org/x/net/html\<close>
  is the parameter \<open>parse\<close>, which returns the tree that the walk visits.
\<close>

type_synonym extractor = "string result \<Rightarrow> string result"

section \<open>Plain text\<close>

definition utf8_bom :: string where
  "utf8_bom = map char_of [239, 187, 191 :: nat]"

definition nul :: char where
  "nul = char_of (0 :: nat)"

definition readUTF8 :: extractor where
  "readUTF8 file = (case file of
     Inl e \<Rightarrow> Inl e
   | Inr raw \<Rightarrow>
       (let content = (if length raw \<ge> 3 \<and> take 3 raw = utf8_bom then drop 3 raw else raw)
        in if \<not> utf8_valid content then Inl (ValidationError ''text file must be valid UTF-8'')
           else if nul \<in> set content then Inl (ValidationError ''text file must not contain null bytes'')
           else Inr content))"

definition PlainText :: extractor where
  "PlainText file = readUTF8 file"

section \<open>CSV\<close>

datatype csv_error = ErrBareQuote | ErrQuote

text \<open>The reader turns \<open>\r\n\<close> into \<open>\n\<close> and drops a carriage return before the end of the input.\<close>

abbreviation CR :: char where "CR \<equiv> CHR 0x0D"
abbreviation LF :: char where "LF \<equiv> CHR 0x0A"
abbreviation QT :: char where "QT \<equiv> CHR 0x22"
abbreviation COMMA :: char where "COMMA \<equiv> CHR 0x2C"

fun csv_normalize :: "string \<Rightarrow> string" where
  "csv_normalize [] = []"
| "csv_normalize [c] = (if c = CR then [] else [c])"
| "csv_normalize (c # d # s) =
     (if c = CR \<and> d = LF then csv_normalize (d # s) else c # csv_normalize (d # s))"

text \<open>The rest of a quoted field: its text, and the input from the delimiter on.\<close>

fun csv_quoted :: "string \<Rightarrow> string \<Rightarrow> csv_error + (string \<times> string)" where
  "csv_quoted acc [] = Inl ErrQuote"
| "csv_quoted acc (c # s) =
     (if c \<noteq> QT then csv_quoted (acc @ [c]) s
      else case s of
        [] \<Rightarrow> Inr (acc, [])
      | d # t \<Rightarrow> if d = QT then csv_quoted (acc @ [QT]) t
                 else if d = COMMA \<or> d = LF then Inr (acc, s) else Inl ErrQuote)"

definition csv_plain :: "string \<Rightarrow> csv_error + (string \<times> string)" where
  "csv_plain s =
     (let field = takeWhile (\<lambda>c. c \<noteq> COMMA \<and> c \<noteq> LF) s
      in if QT \<in> set field then Inl ErrBareQuote else Inr (field, drop (length field) s))"

definition csv_field :: "string \<Rightarrow> csv_error + (string \<times> string)" where
  "csv_field s = (case s of c # t \<Rightarrow> if c = QT then csv_quoted [] t else csv_plain s | [] \<Rightarrow> csv_plain s)"

lemma csv_quoted_length: "csv_quoted acc s = Inr (f, rest) \<Longrightarrow> length rest < length s"
  by (induction acc s rule: csv_quoted.induct) (fastforce split: if_splits list.splits)+

lemma csv_field_length: "csv_field s = Inr (f, rest) \<Longrightarrow> length rest \<le> length s"
  by (auto simp: csv_field_def csv_plain_def Let_def split: list.splits if_splits
      dest!: csv_quoted_length)

function csv_record :: "string \<Rightarrow> csv_error + (string list \<times> string)" where
  "csv_record s = (case csv_field s of
     Inl e \<Rightarrow> Inl e
   | Inr (f, []) \<Rightarrow> Inr ([f], [])
   | Inr (f, d # t) \<Rightarrow>
       if d = COMMA then (case csv_record t of Inl e \<Rightarrow> Inl e | Inr (fs, rest) \<Rightarrow> Inr (f # fs, rest))
       else Inr ([f], t))"
  by pat_completeness auto
termination
  by (relation "measure length") (auto dest!: csv_field_length)

declare csv_record.simps [simp del]

lemma csv_record_length: "csv_record s = Inr (fs, rest) \<Longrightarrow> s \<noteq> [] \<Longrightarrow> length rest < length s"
proof (induction s arbitrary: fs rest rule: csv_record.induct)
  case (1 s)
  obtain f r where f: "csv_field s = Inr (f, r)"
    using "1.prems"(1) by (subst (asm) csv_record.simps) (auto split: sum.splits)
  note l = csv_field_length [OF f]
  show ?case
  proof (cases r)
    case Nil
    then have "rest = []" using "1.prems"(1) f by (subst (asm) csv_record.simps) simp
    then show ?thesis using "1.prems"(2) by simp
  next
    case (Cons d t)
    show ?thesis
    proof (cases "d = COMMA")
      case True
      then obtain gs where g: "csv_record t = Inr (gs, rest)"
        using "1.prems"(1) f Cons by (subst (asm) csv_record.simps) (auto split: sum.splits)
      show ?thesis
      proof (cases "t = []")
        case True
        then have "rest = []" using g
          by (subst (asm) csv_record.simps) (simp add: csv_field_def csv_plain_def)
        then show ?thesis using "1.prems"(2) by simp
      next
        case False
        have "length rest < length t" by (rule "1.IH" [OF f refl Cons True g False])
        then show ?thesis using l Cons by simp
      qed
    next
      case False
      then have "rest = t" using "1.prems"(1) f Cons by (subst (asm) csv_record.simps) simp
      then show ?thesis using l Cons by simp
    qed
  qed
qed

text \<open>All records of the (normalised) input; empty lines between records are skipped.\<close>

function csv_records :: "string \<Rightarrow> csv_error + string list list" where
  "csv_records s = (let t = dropWhile (\<lambda>c. c = LF) s in
     if t = [] then Inr []
     else case csv_record t of
       Inl e \<Rightarrow> Inl e
     | Inr (row, rest) \<Rightarrow> (case csv_records rest of Inl e \<Rightarrow> Inl e | Inr rows \<Rightarrow> Inr (row # rows)))"
  by pat_completeness auto
termination
proof (relation "measure length")
  fix s t x row rest
  assume "t = dropWhile (\<lambda>c. c = LF) s" "t \<noteq> []" "csv_record t = Inr x" "(row, rest) = x"
  then have "length rest < length t" and "length t \<le> length s"
    using csv_record_length [of t row rest] by (auto simp: length_dropWhile_le)
  then show "(rest, s) \<in> measure length" by simp
qed simp

declare csv_records.simps [simp del]

text \<open>\<open>detail\<close> is the text of a \<open>csv.ParseError\<close>.\<close>

definition ExtractCSV :: "(csv_error \<Rightarrow> string) \<Rightarrow> extractor" where
  "ExtractCSV detail file = (case readUTF8 file of
     Inl e \<Rightarrow> Inl e
   | Inr text \<Rightarrow> (case csv_records (csv_normalize text) of
       Inl e \<Rightarrow> Inl (ValidationError (''CSV file is malformed: '' @ detail e))
     | Inr rows \<Rightarrow> Inr (join_with [LF] (map (join_with [CHR 0x09]) rows))))"

section \<open>HTML\<close>

datatype html_node = HtmlElement string "html_node list" | HtmlText string | HtmlOther "html_node list"

definition hidden_names :: "string set" where
  "hidden_names = {''head'', ''script'', ''style'', ''template''}"

definition block_names :: "string set" where
  "block_names = {''address'', ''article'', ''aside'', ''blockquote'', ''br'', ''div'', ''footer'',
     ''h1'', ''h2'', ''h3'', ''h4'', ''h5'', ''h6'', ''header'', ''hr'', ''li'', ''main'', ''nav'',
     ''ol'', ''p'', ''pre'', ''section'', ''table'', ''td'', ''th'', ''tr'', ''ul''}"

fun walk :: "(string \<Rightarrow> string) \<Rightarrow> bool \<Rightarrow> html_node \<Rightarrow> string" where
  "walk uni insideHidden (HtmlText s) = (if insideHidden then [] else s)"
| "walk uni insideHidden (HtmlOther children) = concat (map (walk uni insideHidden) children)"
| "walk uni insideHidden (HtmlElement data children) =
     (let name = to_lower uni data;
          hidden = (insideHidden \<or> name \<in> hidden_names);
          line = (if \<not> hidden \<and> name \<in> block_names then [LF] else [])
      in line @ concat (map (walk uni hidden) children) @ line)"

definition visible_lines :: "string \<Rightarrow> string list" where
  "visible_lines output =
     filter (\<lambda>l. l \<noteq> []) (map (\<lambda>line. join_with '' '' (str_fields line)) (split_on LF output))"

definition visibleHTMLText :: "(string \<Rightarrow> string) \<Rightarrow> (string \<Rightarrow> html_node result) \<Rightarrow> string \<Rightarrow> string result" where
  "visibleHTMLText uni parse source = (case parse source of
     Inl e \<Rightarrow> Inl e
   | Inr r \<Rightarrow> Inr (join_with [LF] (visible_lines (walk uni False r))))"

definition ExtractHTML :: "(string \<Rightarrow> string) \<Rightarrow> (string \<Rightarrow> html_node result) \<Rightarrow> extractor" where
  "ExtractHTML uni parse file = (case readUTF8 file of
     Inl e \<Rightarrow> Inl e | Inr text \<Rightarrow> visibleHTMLText uni parse text)"

section \<open>What plain text is\<close>

lemma encode_nats_zero: "0 \<in> set (encode_nats c) \<longleftrightarrow> c = 0"
  by (auto simp: encode_nats_def)

lemma nul_encode: "scalar c \<Longrightarrow> nul \<in> set (utf8_encode c) \<longleftrightarrow> c = 0"
proof -
  assume s: "scalar c"
  have "nul \<in> set (utf8_encode c) \<longleftrightarrow> 0 \<in> set (bytes (utf8_encode c))"
    unfolding bytes_def nul_def set_map
    by (metis (no_types, lifting) char_of_nat image_iff nat_of_char of_char_of of_char_eq_iff char_of_char
        zero_less_numeral mod_less)
  then show ?thesis using bytes_encode [OF s] encode_nats_zero by simp
qed

text \<open>C18. The text extractor accepts a file exactly when, after an optional byte order mark, it is the
  UTF-8 encoding of Unicode scalar values other than U+0000; it returns the file without the mark, and
  the number of runes it counts in it is the number of those values.\<close>

theorem readUTF8_exact:
  "readUTF8 (Inr raw) = Inr text \<longleftrightarrow>
     text = (if has_prefix raw utf8_bom then drop 3 raw else raw) \<and>
     (\<exists>cs. list_all (\<lambda>c. scalar c \<and> c \<noteq> 0) cs \<and> text = concat (map utf8_encode cs) \<and> rune_count text = length cs)"
proof -
  have b: "length raw \<ge> 3 \<and> take 3 raw = utf8_bom \<longleftrightarrow> has_prefix raw utf8_bom"
  proof -
    have l: "length utf8_bom = 3" by (simp add: utf8_bom_def)
    have "take 3 raw = utf8_bom \<Longrightarrow> 3 \<le> length raw"
      using l by (metis length_take min.absorb_iff2 min.commute)
    then show ?thesis by (auto simp: has_prefix_def l)
  qed
  have v: "utf8_valid t \<and> nul \<notin> set t \<longleftrightarrow>
      (\<exists>cs. list_all (\<lambda>c. scalar c \<and> c \<noteq> 0) cs \<and> t = concat (map utf8_encode cs) \<and> rune_count t = length cs)" for t
  proof
    assume t: "utf8_valid t \<and> nul \<notin> set t"
    then obtain cs where cs: "list_all scalar cs" "t = concat (map utf8_encode cs)"
      using valid_decode by blast
    have "c \<noteq> 0" if "c \<in> set cs" for c
      using t cs that nul_encode [of c] by (auto simp: list_all_iff)
    then have "list_all (\<lambda>c. scalar c \<and> c \<noteq> 0) cs" using cs(1) by (auto simp: list_all_iff)
    moreover have "rune_count t = length cs" using cs by (simp add: rune_count_def runes_concat)
    ultimately show "\<exists>cs. list_all (\<lambda>c. scalar c \<and> c \<noteq> 0) cs \<and> t = concat (map utf8_encode cs) \<and> rune_count t = length cs"
      using cs(2) by blast
  next
    assume "\<exists>cs. list_all (\<lambda>c. scalar c \<and> c \<noteq> 0) cs \<and> t = concat (map utf8_encode cs) \<and> rune_count t = length cs"
    then obtain cs where cs: "list_all (\<lambda>c. scalar c \<and> c \<noteq> 0) cs" "t = concat (map utf8_encode cs)" by blast
    then have "list_all scalar cs" by (simp add: list_all_iff)
    then show "utf8_valid t \<and> nul \<notin> set t"
      using cs valid_concat nul_encode by (auto simp: list_all_iff)
  qed
  define t where "t = (if has_prefix raw utf8_bom then drop 3 raw else raw)"
  have "readUTF8 (Inr raw) = (if \<not> utf8_valid t then Inl (ValidationError ''text file must be valid UTF-8'')
      else if nul \<in> set t then Inl (ValidationError ''text file must not contain null bytes'') else Inr t)"
    unfolding t_def by (simp only: readUTF8_def sum.case b Let_def)
  then have "readUTF8 (Inr raw) = Inr text \<longleftrightarrow> text = t \<and> utf8_valid t \<and> nul \<notin> set t"
    by (auto split: if_splits)
  then show ?thesis unfolding t_def [symmetric] v by metis
qed

section \<open>What the CSV reader reads\<close>

definition csv_quote :: "string \<Rightarrow> string" where
  "csv_quote f = QT # concat (map (\<lambda>c. if c = QT then [QT, QT] else [c]) f) @ [QT]"

definition csv_row :: "string list \<Rightarrow> string" where
  "csv_row row = join_with [COMMA] (map csv_quote row) @ [LF]"

definition csv_write :: "string list list \<Rightarrow> string" where
  "csv_write rows = concat (map csv_row rows)"

lemma csv_quoted_quote:
  assumes "d = COMMA \<or> d = LF"
  shows "csv_quoted acc (concat (map (\<lambda>c. if c = QT then [QT, QT] else [c]) f) @ QT # d # rest)
    = Inr (acc @ f, d # rest)"
  using assms by (induction f arbitrary: acc) auto

lemma csv_field_quote: "d = COMMA \<or> d = LF \<Longrightarrow> csv_field (csv_quote f @ d # rest) = Inr (f, d # rest)"
  using csv_quoted_quote [of d "[]" f rest] by (simp add: csv_field_def csv_quote_def)

lemma csv_record_row: "row \<noteq> [] \<Longrightarrow> csv_record (csv_row row @ rest) = Inr (row, rest)"
proof (induction row rule: induct_list012)
  case (2 f)
  then show ?case using csv_field_quote [of LF f rest]
    by (subst csv_record.simps) (simp add: csv_row_def)
next
  case (3 f g fs)
  have "csv_row (f # g # fs) @ rest = csv_quote f @ COMMA # (csv_row (g # fs) @ rest)"
    by (simp add: csv_row_def)
  moreover have "csv_record (csv_row (g # fs) @ rest) = Inr (g # fs, rest)" using 3 by simp
  ultimately show ?case
    using csv_field_quote [of COMMA f "csv_row (g # fs) @ rest"] by (subst csv_record.simps) simp
qed simp

lemma csv_row_hd: "row \<noteq> [] \<Longrightarrow> \<exists>t. csv_row row = QT # t"
  by (cases row; cases "tl row") (auto simp: csv_row_def csv_quote_def)

lemma csv_records_write: "\<forall>row \<in> set rows. row \<noteq> [] \<Longrightarrow> csv_records (csv_write rows) = Inr rows"
proof (induction rows)
  case Nil
  then show ?case by (subst csv_records.simps) (simp add: csv_write_def)
next
  case (Cons row rows)
  then obtain t where t: "csv_row row = QT # t" using csv_row_hd by auto
  then have d: "dropWhile (\<lambda>c. c = LF) (csv_write (row # rows)) = csv_row row @ csv_write rows"
    by (simp add: csv_write_def)
  have "csv_record (csv_row row @ csv_write rows) = Inr (row, csv_write rows)"
    using Cons.prems by (intro csv_record_row) simp
  then show ?case using Cons t by (subst csv_records.simps) (simp add: d Let_def)
qed

lemma csv_normalize_id: "CR \<notin> set s \<Longrightarrow> csv_normalize s = s"
  by (induction s rule: csv_normalize.induct) auto

lemma csv_quote_no_CR: "CR \<notin> set f \<Longrightarrow> CR \<notin> set (csv_quote f)"
  by (auto simp: csv_quote_def split: if_splits)

lemma join_no_CR: "CR \<notin> set sep \<Longrightarrow> \<forall>x \<in> set xs. CR \<notin> set x \<Longrightarrow> CR \<notin> set (join_with sep xs)"
  by (induction xs rule: induct_list012) auto

text \<open>C19. The CSV extractor reads what a CSV writer wrote: from the quoted form of any table without
  empty records and carriage returns, whatever quotes, commas, tabs and line breaks its fields
  contain, it returns the fields of each record joined by tabs, one record per line.\<close>

theorem csv_roundtrip:
  assumes "\<forall>row \<in> set rows. row \<noteq> [] \<and> (\<forall>f \<in> set row. CR \<notin> set f)"
    and "readUTF8 file = Inr (csv_write rows)"
  shows "csv_records (csv_normalize (csv_write rows)) = Inr rows
    \<and> ExtractCSV detail file = Inr (join_with [LF] (map (join_with [CHR 0x09]) rows))"
proof -
  have "CR \<notin> set (csv_row row)" if "row \<in> set rows" for row
    using assms(1) that join_no_CR [of "[COMMA]" "map csv_quote row"] csv_quote_no_CR
    by (auto simp: csv_row_def)
  then have "CR \<notin> set (csv_write rows)" by (auto simp: csv_write_def)
  then have "csv_records (csv_normalize (csv_write rows)) = Inr rows"
    using assms(1) by (simp add: csv_normalize_id csv_records_write)
  then show ?thesis using assms(2) by (simp add: ExtractCSV_def)
qed

theorem csv_roundtrip_witness:
  "csv_write [[''a'', [CHR ''b'', COMMA, QT]], [''c'']] =
     [QT, CHR ''a'', QT, COMMA, QT, CHR ''b'', COMMA, QT, QT, QT, LF, QT, CHR ''c'', QT, LF]
   \<and> ExtractCSV (\<lambda>_. ''bad'') (Inr (csv_write [[''a'', [CHR ''b'', COMMA, QT]], [''c'']])) =
     Inr [CHR ''a'', CHR 0x09, CHR ''b'', COMMA, QT, LF, CHR ''c'']"
proof -
  let ?rows = "[[''a'', [CHR ''b'', COMMA, QT]], [''c'']]"
  have w: "csv_write ?rows =
      [QT, CHR ''a'', QT, COMMA, QT, CHR ''b'', COMMA, QT, QT, QT, LF, QT, CHR ''c'', QT, LF]"
    by (simp add: csv_write_def csv_row_def csv_quote_def)
  have r: "readUTF8 (Inr (csv_write ?rows)) = Inr (csv_write ?rows)"
    unfolding w by code_simp
  show ?thesis
    using csv_roundtrip [of ?rows, OF _ r] w by simp
qed

section \<open>What HTML extraction shows\<close>

text \<open>The tree without its hidden elements.\<close>

fun prune :: "(string \<Rightarrow> string) \<Rightarrow> html_node \<Rightarrow> html_node list" where
  "prune uni (HtmlText s) = [HtmlText s]"
| "prune uni (HtmlOther children) = [HtmlOther (concat (map (prune uni) children))]"
| "prune uni (HtmlElement data children) =
     (if to_lower uni data \<in> hidden_names then []
      else [HtmlElement data (concat (map (prune uni) children))])"

lemma walk_hidden: "walk uni True t = []"
  by (induction t) (auto simp: Let_def)

lemma walk_prune: "concat (map (walk uni False) (prune uni t)) = walk uni False t"
proof (induction t)
  case (HtmlElement data children)
  have "concat (map (walk uni False) (concat (map (prune uni) children))) = concat (map (walk uni False) children)"
    using HtmlElement by (induction children) auto
  then show ?case by (auto simp: Let_def walk_hidden)
next
  case (HtmlOther children)
  have "concat (map (walk uni False) (concat (map (prune uni) children))) = concat (map (walk uni False) children)"
    using HtmlOther by (induction children) auto
  then show ?case by simp
qed simp

lemma group_fields_set: "x \<in> set (group_fields rs acc) \<Longrightarrow> set x \<subseteq> set acc \<union> set (concat rs)"
  by (induction rs arbitrary: acc) (fastforce split: if_splits)+

lemma str_fields_set: "x \<in> set (str_fields s) \<Longrightarrow> set x \<subseteq> set s"
  using group_fields_set [of x "split_runes s" "[]"] by (simp add: str_fields_def flip: set_concat)

lemma join_set: "set (join_with sep xs) \<subseteq> set sep \<union> (\<Union>x \<in> set xs. set x)"
  by (induction xs rule: induct_list012) auto

lemma split_on_set: "l \<in> set (split_on c s) \<Longrightarrow> c \<notin> set l"
proof (induction s arbitrary: l)
  case (Cons x xs)
  obtain y ys where y: "split_on c xs = y # ys" by (cases "split_on c xs") auto
  then have "c \<notin> set y" "\<And>l. l \<in> set ys \<Longrightarrow> c \<notin> set l" using Cons.IH by auto
  then show ?case using Cons.prems y by (auto split: if_splits)
qed simp



end
