(* ===== verification/Json.thy ===== *)
theory Json
  imports Prelude
begin

text \<open>
  JSON values as \<open>encoding/json\<close> decodes them into \<open>any\<close>: objects keep one value per key (a later
  duplicate key replaces an earlier one), numbers keep their literal.
\<close>

datatype json = JNull | JBool bool | JNum string | JStr string | JArr "json list"
  | JObj "(string \<times> json) list"

text \<open>Access to a \<open>map[string]any\<close> with the type assertions that the gateway uses.\<close>

definition field :: "(string \<times> json) list \<Rightarrow> string \<Rightarrow> json option" where
  "field obj k = map_of obj k"

fun as_string :: "json option \<Rightarrow> string option" where
  "as_string (Some (JStr s)) = Some s"
| "as_string _ = None"

fun as_array :: "json option \<Rightarrow> json list option" where
  "as_array (Some (JArr xs)) = Some xs"
| "as_array _ = None"

fun as_object :: "json option \<Rightarrow> (string \<times> json) list option" where
  "as_object (Some (JObj kvs)) = Some kvs"
| "as_object _ = None"

text \<open>A value whose type assertion fails is the zero value of its type.\<close>

definition str_field :: "(string \<times> json) list \<Rightarrow> string \<Rightarrow> string" where
  "str_field obj k = (case as_string (field obj k) of Some s \<Rightarrow> s | None \<Rightarrow> [])"

definition set_field :: "string \<Rightarrow> json \<Rightarrow> (string \<times> json) list \<Rightarrow> (string \<times> json) list" where
  "set_field k v obj = (k, v) # filter (\<lambda>kv. fst kv \<noteq> k) obj"

lemma field_set [simp]: "field (set_field k v obj) k' = (if k' = k then Some v else field obj k')"
proof -
  have "map_of (filter (\<lambda>kv. fst kv \<noteq> k) obj) k' = (if k' = k then None else map_of obj k')"
    by (induction obj) auto
  then show ?thesis by (simp add: field_def set_field_def)
qed

lemma as_string_Some: "as_string v = Some s \<longleftrightarrow> v = Some (JStr s)"
  by (cases v rule: as_string.cases) auto

lemma as_array_Some: "as_array v = Some xs \<longleftrightarrow> v = Some (JArr xs)"
  by (cases v rule: as_array.cases) auto

lemma as_object_Some: "as_object v = Some kvs \<longleftrightarrow> v = Some (JObj kvs)"
  by (cases v rule: as_object.cases) auto

end
