(* ===== verification/File_System.thy ===== *)
theory File_System
  imports Errors Json
begin

text \<open>
  The part of the operating system that the gateway uses: a tree of directories, regular files and
  symbolic links below the data directory, and the calls of package \<open>os\<close> on it, each of which may
  fail. \<open>faults\<close> is the script of the failures of the calls to come (an empty script: no more
  failures), \<open>rm_faults\<close> that of the removals; a failing call may have done a part of its work.
  \<open>ctx_polls\<close> says after how many calls of \<open>ctx.Err\<close> the context is cancelled.
\<close>

datatype content = Raw string | Encoded json

datatype node = Dir | Reg content | Link

datatype fault = Works | Fails go_error nat

record os =
  nodes :: "(path \<times> node) list"
  faults :: "fault list"
  rm_faults :: "fault list"
  ctx_polls :: "nat option"

definition node_at :: "os \<Rightarrow> path \<Rightarrow> node option" where
  "node_at s p = map_of (nodes s) p"

definition ErrNotExist :: go_error where
  "ErrNotExist = Opaque ''file does not exist''"

definition next_fault :: "fault list \<Rightarrow> fault" where
  "next_fault fs = (case fs of [] \<Rightarrow> Works | f # _ \<Rightarrow> f)"

definition set_node :: "path \<Rightarrow> node \<Rightarrow> (path \<times> node) list \<Rightarrow> (path \<times> node) list" where
  "set_node p n ns = (p, n) # filter (\<lambda>x. fst x \<noteq> p) ns"

text \<open>\<open>os.MkdirAll\<close>; on a failure some of the proper ancestors may have been made.\<close>

fun mkdirs :: "path list \<Rightarrow> (path \<times> node) list \<Rightarrow> (path \<times> node) list result" where
  "mkdirs [] ns = Inr ns"
| "mkdirs (p # ps) ns = (case map_of ns p of
     None \<Rightarrow> mkdirs ps (set_node p Dir ns)
   | Some Dir \<Rightarrow> mkdirs ps ns
   | Some _ \<Rightarrow> Inl (Opaque ''not a directory''))"

definition ancestors :: "path \<Rightarrow> path list" where
  "ancestors p = map (\<lambda>n. take n p) [1..<Suc (length p)]"

definition mkdir_all :: "path \<Rightarrow> os \<Rightarrow> os \<times> unit result" where
  "mkdir_all p s =
     (let s1 = s\<lparr>faults := tl (faults s)\<rparr>
      in case next_fault (faults s) of
        Fails e n \<Rightarrow> (case mkdirs (take n (butlast (ancestors p))) (nodes s) of
          Inl _ \<Rightarrow> (s1, Inl e) | Inr ns \<Rightarrow> (s1\<lparr>nodes := ns\<rparr>, Inl e))
      | Works \<Rightarrow> (case mkdirs (ancestors p) (nodes s) of
          Inl e \<Rightarrow> (s1, Inl e) | Inr ns \<Rightarrow> (s1\<lparr>nodes := ns\<rparr>, Inr ())))"

text \<open>\<open>os.RemoveAll\<close>; on a failure the first \<open>n\<close> nodes of the tree may be gone.\<close>

definition below :: "path \<Rightarrow> path \<Rightarrow> bool" where
  "below d p \<longleftrightarrow> take (length d) p = d"

fun drop_below :: "path \<Rightarrow> nat \<Rightarrow> (path \<times> node) list \<Rightarrow> (path \<times> node) list" where
  "drop_below d n [] = []"
| "drop_below d n (x # xs) = (if below d (fst x) then (case n of 0 \<Rightarrow> x # xs | Suc m \<Rightarrow> drop_below d m xs)
     else x # drop_below d n xs)"

definition remove_all :: "path \<Rightarrow> os \<Rightarrow> os \<times> unit result" where
  "remove_all d s =
     (let s1 = s\<lparr>rm_faults := tl (rm_faults s)\<rparr>
      in case next_fault (rm_faults s) of
        Fails e n \<Rightarrow> (s1\<lparr>nodes := drop_below d n (nodes s)\<rparr>, Inl e)
      | Works \<Rightarrow> (s1\<lparr>nodes := filter (\<lambda>x. \<not> below d (fst x)) (nodes s)\<rparr>, Inr ()))"

text \<open>\<open>os.Remove\<close> of a file.\<close>

definition remove_file :: "path \<Rightarrow> os \<Rightarrow> os \<times> unit result" where
  "remove_file p s =
     (let s1 = s\<lparr>rm_faults := tl (rm_faults s)\<rparr>
      in case next_fault (rm_faults s) of
        Fails e n \<Rightarrow> (s1, Inl e)
      | Works \<Rightarrow> (if node_at s p = None then (s1, Inl ErrNotExist)
                  else (s1\<lparr>nodes := filter (\<lambda>x. fst x \<noteq> p) (nodes s)\<rparr>, Inr ())))"

text \<open>\<open>os.WriteFile\<close> and \<open>os.OpenFile\<close> for writing: the parent must be a directory; a failing write may
  leave a part of the content.\<close>

definition cut :: "nat \<Rightarrow> content \<Rightarrow> content" where
  "cut n c = (case c of Raw s \<Rightarrow> Raw (take n s) | Encoded j \<Rightarrow> Raw [])"

fun writable :: "node option \<Rightarrow> bool" where
  "writable None = True"
| "writable (Some (Reg _)) = True"
| "writable _ = False"

definition write_file :: "path \<Rightarrow> content \<Rightarrow> os \<Rightarrow> os \<times> unit result" where
  "write_file p c s =
     (let s1 = s\<lparr>faults := tl (faults s)\<rparr>
      in if p = [] \<or> (butlast p \<noteq> [] \<and> node_at s (butlast p) \<noteq> Some Dir) then (s1, Inl ErrNotExist)
         else case next_fault (faults s) of
           Fails e 0 \<Rightarrow> (s1, Inl e)
         | Fails e (Suc n) \<Rightarrow> (s1\<lparr>nodes := set_node p (Reg (cut n c)) (nodes s)\<rparr>, Inl e)
         | Works \<Rightarrow> (if writable (node_at s p)
             then (s1\<lparr>nodes := set_node p (Reg c) (nodes s)\<rparr>, Inr ())
             else (s1, Inl (Opaque ''is a directory''))))"

text \<open>\<open>os.ReadFile\<close>.\<close>

definition read_file :: "path \<Rightarrow> os \<Rightarrow> os \<times> content result" where
  "read_file p s =
     (let s1 = s\<lparr>faults := tl (faults s)\<rparr>
      in case next_fault (faults s) of
        Fails e n \<Rightarrow> (s1, Inl e)
      | Works \<Rightarrow> (s1, case node_at s p of
          Some (Reg c) \<Rightarrow> Inr c | Some _ \<Rightarrow> Inl (Opaque ''is a directory'') | None \<Rightarrow> Inl ErrNotExist))"

text \<open>\<open>ctx.Err()\<close>: once cancelled, always cancelled.\<close>

definition ctx_Err :: "os \<Rightarrow> os \<times> go_error option" where
  "ctx_Err s = (case ctx_polls s of
     None \<Rightarrow> (s, None)
   | Some 0 \<Rightarrow> (s, Some Canceled)
   | Some (Suc n) \<Rightarrow> (s\<lparr>ctx_polls := Some n\<rparr>, None))"

text \<open>Sequencing with Go's early return on an error.\<close>

definition and_then :: "('s \<Rightarrow> 's \<times> 'a result) \<Rightarrow> ('a \<Rightarrow> 's \<Rightarrow> 's \<times> 'b result) \<Rightarrow> 's \<Rightarrow> 's \<times> 'b result" where
  "and_then m k s = (case m s of (s', Inl e) \<Rightarrow> (s', Inl e) | (s', Inr x) \<Rightarrow> k x s')"

definition returns :: "'a \<Rightarrow> 's \<Rightarrow> 's \<times> 'a result" where
  "returns x s = (s, Inr x)"

definition fails :: "go_error \<Rightarrow> 's \<Rightarrow> 's \<times> 'a result" where
  "fails e s = (s, Inl e)"

text \<open>A call after a poll of the context.\<close>

definition unless_cancelled :: "(os \<Rightarrow> os \<times> 'a result) \<Rightarrow> os \<Rightarrow> os \<times> 'a result" where
  "unless_cancelled m s = (case ctx_Err s of (s', Some e) \<Rightarrow> (s', Inl e) | (s', None) \<Rightarrow> m s')"

section \<open>What the calls change\<close>

lemma map_of_filter_fst: "map_of (filter (\<lambda>x. P (fst x)) xs) k = (if P k then map_of xs k else None)"
  by (induction xs) auto

lemma node_at_simps [simp]:
  "node_at (s\<lparr>faults := f\<rparr>) p = node_at s p" "node_at (s\<lparr>rm_faults := f\<rparr>) p = node_at s p"
  "node_at (s\<lparr>ctx_polls := c\<rparr>) p = node_at s p"
  by (simp_all add: node_at_def)

lemma set_node_at: "map_of (set_node p n ns) q = (if q = p then Some n else map_of ns q)"
  using map_of_filter_fst [of "\<lambda>k. k \<noteq> p" ns q] by (simp add: set_node_def)

lemma below_append [simp]: "below d (d @ p)"
  by (simp add: below_def)

lemma below_iff: "below d p \<longleftrightarrow> (\<exists>x. p = d @ x)"
  by (metis append_take_drop_id below_append below_def)

lemma below_refl [simp]: "below d d"
  by (simp add: below_def)

lemma drop_below_at: "\<not> below d p \<Longrightarrow> map_of (drop_below d n xs) p = map_of xs p"
  by (induction d n xs rule: drop_below.induct) (auto split: nat.splits)

lemma drop_below_None: "map_of xs p = None \<Longrightarrow> map_of (drop_below d n xs) p = None"
  by (induction d n xs rule: drop_below.induct) (auto split: nat.splits if_splits)

lemma map_of_not_below:
  "map_of (filter (\<lambda>x. \<not> below d (fst x)) xs) k = (if below d k then None else map_of xs k)"
  using map_of_filter_fst [of "\<lambda>k. \<not> below d k" xs k] by simp

lemma remove_all_frame: "remove_all d s = (s', r) \<Longrightarrow> \<not> below d p \<Longrightarrow> node_at s' p = node_at s p"
  by (auto simp: remove_all_def node_at_def Let_def drop_below_at map_of_not_below split: fault.splits)

lemma remove_all_gone: "remove_all d s = (s', Inr ()) \<Longrightarrow> below d p \<Longrightarrow> node_at s' p = None"
  by (auto simp: remove_all_def node_at_def Let_def map_of_not_below split: fault.splits)

lemma remove_all_works: "rm_faults s = [] \<Longrightarrow> \<exists>s'. remove_all d s = (s', Inr ()) \<and> rm_faults s' = []"
  by (simp add: remove_all_def next_fault_def)

lemma remove_file_frame: "remove_file p s = (s', r) \<Longrightarrow> q \<noteq> p \<Longrightarrow> node_at s' q = node_at s q"
  using map_of_filter_fst [of "\<lambda>k. k \<noteq> p" "nodes s" q]
  by (auto simp: remove_file_def node_at_def Let_def split: fault.splits if_splits)

lemma remove_file_gone:
  "remove_file p s = (s', r) \<Longrightarrow> r = Inr () \<or> r = Inl ErrNotExist \<and> next_fault (rm_faults s) = Works \<Longrightarrow> node_at s' p = None"
  using map_of_filter_fst [of "\<lambda>k. k \<noteq> p" "nodes s" p]
  by (auto simp: remove_file_def node_at_def Let_def split: fault.splits if_splits)

lemma mkdirs_frame: "mkdirs ps ns = Inr ns' \<Longrightarrow> q \<notin> set ps \<Longrightarrow> map_of ns' q = map_of ns q"
  by (induction ps arbitrary: ns) (auto simp: set_node_at split: option.splits node.splits)

lemma mkdirs_keep: "mkdirs ps ns = Inr ns' \<Longrightarrow> map_of ns q = Some n \<Longrightarrow> map_of ns' q = Some n"
proof (induction ps arbitrary: ns)
  case (Cons p ps)
  show ?case
  proof (cases "map_of ns p")
    case None
    then have "map_of (set_node p Dir ns) q = Some n" using Cons.prems(2) by (auto simp: set_node_at)
    then show ?thesis using Cons None by simp
  next
    case (Some m)
    then show ?thesis using Cons by (cases m) auto
  qed
qed simp

lemma mkdirs_made: "mkdirs ps ns = Inr ns' \<Longrightarrow> q \<in> set ps \<Longrightarrow> map_of ns' q = Some Dir"
proof (induction ps arbitrary: ns)
  case (Cons p ps)
  then show ?case
    by (auto simp: set_node_at split: option.splits node.splits dest: mkdirs_keep [where q = q and n = Dir])
qed simp

lemma ancestors_below: "q \<in> set (ancestors p) \<Longrightarrow> below q p"
  by (auto simp: ancestors_def below_def min_def)

lemma mkdir_all_frame: "mkdir_all p s = (s', r) \<Longrightarrow> \<not> below q p \<Longrightarrow> node_at s' q = node_at s q"
proof -
  assume m: "mkdir_all p s = (s', r)" and b: "\<not> below q p"
  have n: "q \<notin> set (ancestors p)" using ancestors_below b by blast
  have t: "q \<notin> set (take k (butlast (ancestors p)))" for k using n in_set_takeD in_set_butlastD by fast
  show ?thesis using m mkdirs_frame [OF _ n] mkdirs_frame [OF _ t]
    by (auto simp: mkdir_all_def node_at_def Let_def split: fault.splits sum.splits)
qed

lemma mkdir_all_failed:
  assumes "mkdir_all p s = (s', Inl e)" and "below p q"
  shows "node_at s' q = node_at s q"
proof -
  have "length x < length p" if "x \<in> set (butlast (ancestors p))" for x
    using that by (auto simp: ancestors_def simp flip: map_butlast split: if_splits)
  moreover have "length p \<le> length q" using assms(2) unfolding below_def by (metis length_take min.cobounded1)
  ultimately have t: "q \<notin> set (take k (butlast (ancestors p)))" for k
    using in_set_takeD by (metis leD)
  show ?thesis using assms(1) mkdirs_frame [OF _ t]
    by (auto simp: mkdir_all_def node_at_def Let_def split: fault.splits sum.splits)
qed

lemma mkdir_all_keep: "mkdir_all p s = (s', r) \<Longrightarrow> node_at s q = Some n \<Longrightarrow> node_at s' q = Some n"
  by (auto simp: mkdir_all_def node_at_def Let_def split: fault.splits sum.splits dest: mkdirs_keep)

lemma mkdir_all_made: "mkdir_all p s = (s', Inr ()) \<Longrightarrow> p \<noteq> [] \<Longrightarrow> node_at s' p = Some Dir"
proof -
  assume p: "p \<noteq> []" and m: "mkdir_all p s = (s', Inr ())"
  then have "take (length p) p \<in> set (ancestors p)"
    unfolding ancestors_def set_map by (intro imageI) (simp add: Suc_le_eq)
  then show ?thesis using m
    by (auto simp: mkdir_all_def node_at_def Let_def split: fault.splits sum.splits dest: mkdirs_made)
qed

lemma write_file_frame: "write_file p c s = (s', r) \<Longrightarrow> q \<noteq> p \<Longrightarrow> node_at s' q = node_at s q"
  by (auto simp: write_file_def node_at_def Let_def set_node_at split: fault.splits if_splits nat.splits)

lemma write_file_wrote: "write_file p c s = (s', Inr ()) \<Longrightarrow> node_at s' p = Some (Reg c)"
  by (auto simp: write_file_def node_at_def Let_def set_node_at split: fault.splits if_splits nat.splits)

lemma read_file_frame: "read_file p s = (s', r) \<Longrightarrow> node_at s' q = node_at s q"
  by (auto simp: read_file_def node_at_def Let_def split: fault.splits)

lemma read_file_Inr: "read_file p s = (s', Inr c) \<Longrightarrow> node_at s p = Some (Reg c)"
  by (auto simp: read_file_def Let_def split: fault.splits option.splits node.splits)

lemma ctx_Err_frame: "ctx_Err s = (s', r) \<Longrightarrow> node_at s' q = node_at s q \<and> rm_faults s' = rm_faults s"
  by (auto simp: ctx_Err_def split: option.splits nat.splits)

lemma rm_faults_same:
  "mkdir_all p s = (s', r) \<Longrightarrow> rm_faults s' = rm_faults s"
  "write_file p c s = (s', r) \<Longrightarrow> rm_faults s' = rm_faults s"
  "read_file p s = (s', r') \<Longrightarrow> rm_faults s' = rm_faults s"
  by (auto simp: mkdir_all_def write_file_def read_file_def Let_def
      split: fault.splits sum.splits if_splits nat.splits)

end
