(* ===== verification/Converter.thy ===== *)
theory Converter
  imports Extractor File_System
begin

text \<open>
  The package \<open>internal/converter\<close>: the manifest and its JSON form, the validation of uploads, the
  conversion routines with their output directory, the converters of each format, the registry and
  the dispatcher. What is not in the repository (the document renderer, the image decoders, the HTML
  parser, SHA-256, the Unicode case tables, the text of JSON values, quoted strings and floating-point
  numbers) is the environment \<open>env\<close>.
\<close>

section \<open>Types\<close>

record Options =
  MaxPages :: int
  MaxTextChars :: int
  DisableTextExtraction :: bool

record ManifestPart =
  PartNumber :: int
  PageNumber :: "int option"
  TextPath :: string
  ImagePath :: "string option"
  Width :: "int option"
  Height :: "int option"
  PartMediaType :: "string option"
  PartSHA256 :: "string option"

record ManifestSource =
  SourceMediaType :: string
  SourceSHA256 :: string

record ManifestDocument =
  Name :: string
  Parts :: "ManifestPart list"

record Manifest =
  SchemaVersion :: int
  ConverterVersion :: string
  Source :: ManifestSource
  Documents :: "ManifestDocument list"
  Warnings :: "string list"

record Result =
  ResultManifest :: Manifest
  Artifacts :: "ManifestPart list"
  ResultWarnings :: "string list"

datatype ImageFormat = ImageFormatPNG | ImageFormatJPEG

record ConverterConfig =
  DPI :: int
  ImageFormat :: ImageFormat
  RenderTimeout :: int
  LibreOfficeTimeout :: int
  MaxPDFBytes :: int
  MaxPageWidth :: int
  MaxPageHeight :: int
  MaxPagePixels :: int
  MaxDocumentPixels :: int
  MaxOOXMLMembers :: int
  MaxOOXMLMemberBytes :: int
  MaxOOXMLTotalBytes :: int

text \<open>Times are nanoseconds.\<close>

definition DefaultConverterConfig :: ConverterConfig where
  "DefaultConverterConfig = \<lparr>DPI = 300, ImageFormat = ImageFormatPNG, RenderTimeout = 300 * 10 ^ 9,
     LibreOfficeTimeout = 300 * 10 ^ 9, MaxPDFBytes = 128 * 2 ^ 20, MaxPageWidth = 20000,
     MaxPageHeight = 20000, MaxPagePixels = 200000000, MaxDocumentPixels = 1000000000,
     MaxOOXMLMembers = 10000, MaxOOXMLMemberBytes = 256 * 2 ^ 20, MaxOOXMLTotalBytes = 2 ^ 30\<rparr>"

text \<open>The options passed to the renderer: the fields that the gateway sets over the defaults.\<close>

record renderOptions =
  ro_config :: ConverterConfig
  ro_MaxPages :: int

record extractOptions =
  eo_MaxCharacters :: int
  eo_LibreOfficeTimeout :: int
  eo_MaxPDFBytes :: int
  eo_MaxOOXMLMembers :: int
  eo_MaxOOXMLMemberBytes :: int
  eo_MaxOOXMLTotalBytes :: int

record renderedImage =
  img_Path :: path
  img_PageNumber :: int
  img_Width :: int
  img_Height :: int

record env =
  sha256 :: "string \<Rightarrow> string"
  json_text :: "json \<Rightarrow> string"
  json_parse :: "string \<Rightarrow> json option"
  fmt_g :: "int \<Rightarrow> int \<Rightarrow> string"
  go_quote :: "string \<Rightarrow> string"
  uni_lower :: "string \<Rightarrow> string"
  csv_detail :: "csv_error \<Rightarrow> string"
  html_Parse :: "string \<Rightarrow> html_node result"
  image_DecodeConfig :: "string \<Rightarrow> (int \<times> int \<times> string) result"
  RenderDocument :: "path \<Rightarrow> path \<Rightarrow> renderOptions \<Rightarrow> os \<Rightarrow> os \<times> renderedImage list result"
  ExtractDocument :: "path \<Rightarrow> extractOptions \<Rightarrow> os \<Rightarrow> os \<times> (int \<times> string) list result"

section \<open>The manifest\<close>

definition ManifestSchemaVersion :: int where "ManifestSchemaVersion = 1"
definition ConverterVersion_const :: string where "ConverterVersion_const = ''2026.09.28''"

definition base_name :: "path \<Rightarrow> string" where
  "base_name p = (if p = [] then ''.'' else last p)"

definition newManifest :: "path \<Rightarrow> string \<Rightarrow> string \<Rightarrow> ManifestPart list \<Rightarrow> Manifest" where
  "newManifest source mediaType digest artifacts =
     \<lparr>SchemaVersion = ManifestSchemaVersion, ConverterVersion = ConverterVersion_const,
      Source = \<lparr>SourceMediaType = mediaType, SourceSHA256 = digest\<rparr>,
      Documents = [\<lparr>Name = base_name source, Parts = artifacts\<rparr>], Warnings = []\<rparr>"

text \<open>\<open>json.Marshal\<close> of the structs, by their tags.\<close>

definition opt_json :: "('a \<Rightarrow> json) \<Rightarrow> 'a option \<Rightarrow> json" where
  "opt_json f v = (case v of None \<Rightarrow> JNull | Some x \<Rightarrow> f x)"

definition int_json :: "int \<Rightarrow> json" where
  "int_json i = JNum (show_int i)"

definition part_json :: "ManifestPart \<Rightarrow> json" where
  "part_json p = JObj [(''part_number'', int_json (PartNumber p)), (''page_number'', opt_json int_json (PageNumber p)),
     (''text_path'', JStr (TextPath p)), (''image_path'', opt_json JStr (ImagePath p)),
     (''width'', opt_json int_json (Width p)), (''height'', opt_json int_json (Height p)),
     (''media_type'', opt_json JStr (PartMediaType p)), (''sha256'', opt_json JStr (PartSHA256 p))]"

definition document_json :: "ManifestDocument \<Rightarrow> json" where
  "document_json d = JObj [(''name'', JStr (Name d)), (''parts'', JArr (map part_json (Parts d)))]"

definition manifest_json :: "Manifest \<Rightarrow> json" where
  "manifest_json m = JObj [(''schema_version'', int_json (SchemaVersion m)),
     (''converter_version'', JStr (ConverterVersion m)),
     (''source'', JObj [(''media_type'', JStr (SourceMediaType (Source m))), (''sha256'', JStr (SourceSHA256 (Source m)))]),
     (''documents'', JArr (map document_json (Documents m))), (''warnings'', JArr (map JStr (Warnings m)))]"

text \<open>\<open>json.Unmarshal\<close> into the structs: a missing or null field is the zero value, a value of another
  type an error.\<close>

definition read_int :: "string \<Rightarrow> int option" where
  "read_int s = (let d = (if has_prefix s ''-'' then drop 1 s else s)
     in if d = [] \<or> \<not> list_all is_digit d then None
        else let i = (if has_prefix s ''-'' then - int (dec_val d) else int (dec_val d))
             in if in64 i then Some i else None)"

fun json_str :: "json option \<Rightarrow> string option" where
  "json_str None = Some []" | "json_str (Some JNull) = Some []" | "json_str (Some (JStr s)) = Some s" | "json_str _ = None"

fun json_int :: "json option \<Rightarrow> int option" where
  "json_int None = Some 0" | "json_int (Some JNull) = Some 0" | "json_int (Some (JNum n)) = read_int n" | "json_int _ = None"

fun json_ptr :: "(json option \<Rightarrow> 'a option) \<Rightarrow> json option \<Rightarrow> 'a option option" where
  "json_ptr f None = Some None" | "json_ptr f (Some JNull) = Some None" | "json_ptr f (Some v) = map_option Some (f (Some v))"

fun json_obj :: "json option \<Rightarrow> (string \<times> json) list option" where
  "json_obj None = Some []" | "json_obj (Some JNull) = Some []" | "json_obj (Some (JObj o')) = Some o'" | "json_obj _ = None"

fun all_Some :: "'a option list \<Rightarrow> 'a list option" where
  "all_Some [] = Some []"
| "all_Some (None # xs) = None"
| "all_Some (Some x # xs) = map_option ((#) x) (all_Some xs)"

fun json_list :: "(json option \<Rightarrow> 'a option) \<Rightarrow> json option \<Rightarrow> 'a list option" where
  "json_list f None = Some []" | "json_list f (Some JNull) = Some []"
| "json_list f (Some (JArr xs)) = all_Some (map (\<lambda>x. f (Some x)) xs)" | "json_list f _ = None"

definition part_of_json :: "json option \<Rightarrow> ManifestPart option" where
  "part_of_json v = (case json_obj v of None \<Rightarrow> None | Some ob \<Rightarrow>
     (case (json_int (field ob ''part_number''), json_ptr json_int (field ob ''page_number''),
            json_str (field ob ''text_path''), json_ptr json_str (field ob ''image_path''),
            json_ptr json_int (field ob ''width''), json_ptr json_int (field ob ''height''),
            json_ptr json_str (field ob ''media_type''), json_ptr json_str (field ob ''sha256'')) of
        (Some n, Some pn, Some tp, Some ip, Some w, Some h, Some mt, Some sh) \<Rightarrow>
          Some \<lparr>PartNumber = n, PageNumber = pn, TextPath = tp, ImagePath = ip, Width = w, Height = h,
            PartMediaType = mt, PartSHA256 = sh\<rparr>
      | _ \<Rightarrow> None))"

definition document_of_json :: "json option \<Rightarrow> ManifestDocument option" where
  "document_of_json v = (case json_obj v of None \<Rightarrow> None | Some ob \<Rightarrow>
     (case (json_str (field ob ''name''), json_list part_of_json (field ob ''parts'')) of
        (Some n, Some ps) \<Rightarrow> Some \<lparr>Name = n, Parts = ps\<rparr> | _ \<Rightarrow> None))"

definition source_of_json :: "json option \<Rightarrow> ManifestSource option" where
  "source_of_json v = (case json_obj v of None \<Rightarrow> None | Some ob \<Rightarrow>
     (case (json_str (field ob ''media_type''), json_str (field ob ''sha256'')) of
        (Some mt, Some sh) \<Rightarrow> Some \<lparr>SourceMediaType = mt, SourceSHA256 = sh\<rparr> | _ \<Rightarrow> None))"

definition manifest_of_json :: "json \<Rightarrow> Manifest option" where
  "manifest_of_json v = (case json_obj (Some v) of None \<Rightarrow> None | Some ob \<Rightarrow>
     (case (json_int (field ob ''schema_version''), json_str (field ob ''converter_version''),
            source_of_json (field ob ''source''), json_list document_of_json (field ob ''documents''),
            json_list json_str (field ob ''warnings'')) of
        (Some sv, Some cv, Some src, Some ds, Some ws) \<Rightarrow>
          Some \<lparr>SchemaVersion = sv, ConverterVersion = cv, Source = src, Documents = ds, Warnings = ws\<rparr>
      | _ \<Rightarrow> None))"

section \<open>Reading files\<close>

definition content_bytes :: "env \<Rightarrow> content \<Rightarrow> string" where
  "content_bytes E c = (case c of Raw s \<Rightarrow> s | Encoded j \<Rightarrow> json_text E j)"

definition read_bytes :: "env \<Rightarrow> path \<Rightarrow> os \<Rightarrow> os \<times> string result" where
  "read_bytes E p = and_then (read_file p) (\<lambda>c. returns (content_bytes E c))"

definition hashFile :: "env \<Rightarrow> path \<Rightarrow> os \<Rightarrow> os \<times> string result" where
  "hashFile E p = and_then (read_bytes E p) (\<lambda>b. returns (hex_encode (sha256 E b)))"

definition copyFile :: "path \<Rightarrow> path \<Rightarrow> os \<Rightarrow> os \<times> unit result" where
  "copyFile source destination = and_then (read_file source) (\<lambda>c. write_file destination c)"

definition imageSize :: "env \<Rightarrow> path \<Rightarrow> os \<Rightarrow> os \<times> (int \<times> int \<times> string) result" where
  "imageSize E source = and_then (read_bytes E source) (\<lambda>b s. (s, image_DecodeConfig E b))"

section \<open>Validation\<close>

definition zipSignature :: string where
  "zipSignature = map char_of [80, 75, 3, 4 :: nat]"

definition oleSignature :: string where
  "oleSignature = map char_of [0xd0, 0xcf, 0x11, 0xe0, 0xa1, 0xb1, 0x1a, 0xe1 :: nat]"

definition signature_error :: go_error where
  "signature_error = Opaque ''file content does not match its extension''"

definition validateSignature :: "env \<Rightarrow> path \<Rightarrow> string list \<Rightarrow> os \<Rightarrow> os \<times> unit result" where
  "validateSignature E source signatures = and_then (read_bytes E source) (\<lambda>b s.
     (s, let header = take 8 b
         in if header = [] then Inl (Opaque ''EOF'')
            else if list_ex (\<lambda>sig. length header \<ge> length sig \<and> take (length sig) header = sig) signatures
            then Inr () else Inl signature_error))"

definition validateImage :: "env \<Rightarrow> path \<Rightarrow> string \<Rightarrow> os \<Rightarrow> os \<times> unit result" where
  "validateImage E source format s = (case imageSize E source s of
     (s', Inl _) \<Rightarrow> (s', Inl (Opaque ''file is not a valid image''))
   | (s', Inr (w, h, detected)) \<Rightarrow> (s', if detected \<noteq> format then Inl signature_error else Inr ()))"

definition extract_file :: "env \<Rightarrow> extractor \<Rightarrow> path \<Rightarrow> os \<Rightarrow> os \<times> string result" where
  "extract_file E extract source s = (case read_bytes E source s of (s', r) \<Rightarrow> (s', extract r))"

definition validateExtractedText :: "env \<Rightarrow> path \<Rightarrow> extractor \<Rightarrow> os \<Rightarrow> os \<times> unit result" where
  "validateExtractedText E source extract = and_then (extract_file E extract source) (\<lambda>_. returns ())"

definition validateTextLimit :: "string list \<Rightarrow> int \<Rightarrow> go_error option" where
  "validateTextLimit textBlocks limit =
     (if limit \<le> 0 then None
      else if int (sum_list (map rune_count textBlocks)) > limit then Some (TextLimitError limit) else None)"

section \<open>The output directory\<close>

definition manifest_at :: "path \<Rightarrow> path" where
  "manifest_at outputDir = butlast outputDir @ [''manifest.json'']"

definition removeConversionOutput :: "path \<Rightarrow> os \<Rightarrow> os \<times> unit result" where
  "removeConversionOutput outputDir = and_then (remove_all outputDir) (\<lambda>_ s.
     (case remove_file (manifest_at outputDir) s of
        (s', Inl e) \<Rightarrow> (s', if e \<noteq> ErrNotExist then Inl e else Inr ())
      | (s', Inr _) \<Rightarrow> (s', Inr ())))"

text \<open>Permissions are not part of the model: the walk may fail.\<close>

definition secureOutputPermissions :: "path \<Rightarrow> os \<Rightarrow> os \<times> unit result" where
  "secureOutputPermissions outputDir s = (s\<lparr>faults := tl (faults s)\<rparr>,
     case next_fault (faults s) of Fails e _ \<Rightarrow> Inl e | Works \<Rightarrow> Inr ())"

definition withOutputDirectory :: "path \<Rightarrow> (os \<Rightarrow> os \<times> 'a result) \<Rightarrow> os \<Rightarrow> os \<times> 'a result" where
  "withOutputDirectory outputDir convert s = (case removeConversionOutput outputDir s of
     (s1, Inl e) \<Rightarrow> (s1, Inl e)
   | (s1, Inr _) \<Rightarrow> (case mkdir_all outputDir s1 of
       (s2, Inl e) \<Rightarrow> (s2, Inl e)
     | (s2, Inr _) \<Rightarrow> (case convert s2 of
         (s3, Inl e) \<Rightarrow> (fst (removeConversionOutput outputDir s3), Inl e)
       | (s3, Inr result) \<Rightarrow> (case secureOutputPermissions outputDir s3 of
           (s4, Inl e) \<Rightarrow> (fst (removeConversionOutput outputDir s4), Inl e)
         | (s4, Inr _) \<Rightarrow> (s4, Inr result)))))"

definition writeResult :: "env \<Rightarrow> path \<Rightarrow> path \<Rightarrow> string \<Rightarrow> ManifestPart list \<Rightarrow> os \<Rightarrow> os \<times> Result result" where
  "writeResult E source outputDir mediaType artifacts = and_then (hashFile E source) (\<lambda>digest.
     let manifest = newManifest source mediaType digest artifacts
     in and_then (write_file (manifest_at outputDir) (Encoded (manifest_json manifest))) (\<lambda>_.
        returns \<lparr>ResultManifest = manifest, Artifacts = artifacts, ResultWarnings = Warnings manifest\<rparr>))"

section \<open>Conversions\<close>

text \<open>\<open>fmt.Sprintf("%04d", n)\<close>.\<close>

definition pad4 :: "nat \<Rightarrow> string" where
  "pad4 n = replicate (4 - length (show_nat n)) (CHR ''0'') @ show_nat n"

definition text_part :: "nat \<Rightarrow> string \<Rightarrow> ManifestPart" where
  "text_part n name = \<lparr>PartNumber = int n, PageNumber = None, TextPath = name, ImagePath = None,
     Width = None, Height = None, PartMediaType = None, PartSHA256 = None\<rparr>"

fun write_text_parts :: "path \<Rightarrow> nat \<Rightarrow> string list \<Rightarrow> os \<Rightarrow> os \<times> ManifestPart list result" where
  "write_text_parts outputDir n [] = returns []"
| "write_text_parts outputDir n (text # texts) =
     (let name = ''part-'' @ pad4 n @ ''.txt''
      in and_then (write_file (outputDir @ [name]) (Raw text)) (\<lambda>_.
         and_then (write_text_parts outputDir (Suc n) texts) (\<lambda>parts.
         returns (text_part n name # parts))))"

definition convertTextDocument ::
  "env \<Rightarrow> path \<Rightarrow> path \<Rightarrow> string \<Rightarrow> string list \<Rightarrow> Options \<Rightarrow> os \<Rightarrow> os \<times> Result result" where
  "convertTextDocument E source outputDir mediaType textBlocks options =
     (case validateTextLimit textBlocks (MaxTextChars options) of
        Some e \<Rightarrow> fails e
      | None \<Rightarrow> withOutputDirectory outputDir (and_then (write_text_parts outputDir 1 textBlocks)
          (writeResult E source outputDir mediaType)))"

text \<open>A poll of the context after a step: when cancelled, its result is dropped.\<close>

definition cancelled_after :: "path \<Rightarrow> os \<times> 'a result \<Rightarrow> os \<times> 'a result" where
  "cancelled_after outputDir sr = (case ctx_Err (fst sr) of
     (s', Some e) \<Rightarrow> (fst (removeConversionOutput outputDir s'), Inl e)
   | (s', None) \<Rightarrow> (s', snd sr))"

definition poll_after :: "(os \<Rightarrow> os \<times> 'a result) \<Rightarrow> os \<Rightarrow> os \<times> 'a result" where
  "poll_after m s = (case m s of (s1, r) \<Rightarrow> (case ctx_Err s1 of
     (s2, Some e) \<Rightarrow> (s2, Inl e) | (s2, None) \<Rightarrow> (s2, r)))"

definition convertExtractedText ::
  "env \<Rightarrow> path \<Rightarrow> path \<Rightarrow> string \<Rightarrow> extractor \<Rightarrow> Options \<Rightarrow> os \<Rightarrow> os \<times> Result result" where
  "convertExtractedText E source outputDir mediaType extract options =
     unless_cancelled (and_then (poll_after (extract_file E extract source)) (\<lambda>text s.
       cancelled_after outputDir (convertTextDocument E source outputDir mediaType [text] options s)))"

definition convertImageDocument ::
  "env \<Rightarrow> path \<Rightarrow> path \<Rightarrow> string \<Rightarrow> int \<Rightarrow> int \<Rightarrow> os \<Rightarrow> os \<times> Result result" where
  "convertImageDocument E source outputDir mediaType width height = withOutputDirectory outputDir
     (let imageName = ''image-0001'' @ to_lower (uni_lower E) (path_ext (base_name source))
      in and_then (copyFile source (outputDir @ [imageName])) (\<lambda>_.
         and_then (write_file (outputDir @ [''part-0001.txt'']) (Raw [])) (\<lambda>_.
         and_then (hashFile E (outputDir @ [imageName])) (\<lambda>digest.
         writeResult E source outputDir mediaType
           [\<lparr>PartNumber = 1, PageNumber = None, TextPath = ''part-0001.txt'', ImagePath = Some imageName,
             Width = Some width, Height = Some height, PartMediaType = Some mediaType,
             PartSHA256 = Some digest\<rparr>]))))"

definition convertImage :: "env \<Rightarrow> path \<Rightarrow> path \<Rightarrow> string \<Rightarrow> os \<Rightarrow> os \<times> Result result" where
  "convertImage E source outputDir mediaType = unless_cancelled
     (and_then (poll_after (imageSize E source)) (\<lambda>(width, height, format) s.
       cancelled_after outputDir (convertImageDocument E source outputDir mediaType width height s)))"

definition mapRendererError :: "go_error \<Rightarrow> int \<Rightarrow> go_error" where
  "mapRendererError err maxPages = (case root err of
     RendererPageLimit _ \<Rightarrow> PageLimitError maxPages
   | RendererCharacterLimit n \<Rightarrow> TextLimitError n
   | _ \<Rightarrow> err)"

definition map_error :: "(go_error \<Rightarrow> go_error) \<Rightarrow> ('s \<Rightarrow> 's \<times> 'a result) \<Rightarrow> 's \<Rightarrow> 's \<times> 'a result" where
  "map_error f m s = (case m s of (s', Inl e) \<Rightarrow> (s', Inl (f e)) | (s', Inr x) \<Rightarrow> (s', Inr x))"

text \<open>\<open>extracted\<close> is None when text extraction is disabled. \<open>strings.TrimSuffix(name, filepath.Ext(name))\<close>
  is the name of the text file.\<close>

fun write_pages :: "env \<Rightarrow> path \<Rightarrow> ImageFormat \<Rightarrow> (int \<times> string) list option \<Rightarrow> nat \<Rightarrow> renderedImage list
    \<Rightarrow> os \<Rightarrow> os \<times> ManifestPart list result" where
  "write_pages E outputDir fmt extracted n [] = returns []"
| "write_pages E outputDir fmt extracted n (page # pages) =
     (let imageName = base_name (img_Path page);
          textPath = (case extracted of None \<Rightarrow> [] | Some _ \<Rightarrow> trim_suffix imageName (path_ext imageName) @ ''.txt'');
          write = (case extracted of None \<Rightarrow> returns ()
            | Some parts \<Rightarrow> write_file (outputDir @ [textPath])
                (Raw (case map_of parts (img_PageNumber page) of Some text \<Rightarrow> text | None \<Rightarrow> [])))
      in and_then write (\<lambda>_.
         and_then (hashFile E (img_Path page)) (\<lambda>digest.
         and_then (write_pages E outputDir fmt extracted (Suc n) pages) (\<lambda>parts.
         returns (\<lparr>PartNumber = int n, PageNumber = Some (img_PageNumber page), TextPath = textPath,
           ImagePath = Some imageName, Width = Some (img_Width page), Height = Some (img_Height page),
           PartMediaType = Some (if fmt = ImageFormatJPEG then ''image/jpeg'' else ''image/png''),
           PartSHA256 = Some digest\<rparr> # parts)))))"

definition convertRenderedDocument ::
  "env \<Rightarrow> path \<Rightarrow> path \<Rightarrow> string \<Rightarrow> ConverterConfig \<Rightarrow> Options \<Rightarrow> os \<Rightarrow> os \<times> Result result" where
  "convertRenderedDocument E source outputDir mediaType config options = withOutputDirectory outputDir
     (and_then (map_error (\<lambda>e. mapRendererError e (MaxPages options))
         (RenderDocument E source outputDir \<lparr>ro_config = config, ro_MaxPages = MaxPages options\<rparr>)) (\<lambda>images.
      and_then (if DisableTextExtraction options then returns None
         else map_error (\<lambda>e. mapRendererError e (MaxPages options))
           (and_then (ExtractDocument E source
             \<lparr>eo_MaxCharacters = MaxTextChars options, eo_LibreOfficeTimeout = LibreOfficeTimeout config,
              eo_MaxPDFBytes = MaxPDFBytes config, eo_MaxOOXMLMembers = MaxOOXMLMembers config,
              eo_MaxOOXMLMemberBytes = MaxOOXMLMemberBytes config,
              eo_MaxOOXMLTotalBytes = MaxOOXMLTotalBytes config\<rparr>) (\<lambda>parts. returns (Some parts)))) (\<lambda>extracted.
      and_then (write_pages E outputDir (ImageFormat config) extracted 1 images)
        (writeResult E source outputDir mediaType))))"

section \<open>Converters\<close>

text \<open>The interface \<open>DocumentConverter\<close>.\<close>

record DocumentConverter =
  Extension :: string
  MediaType :: string
  Validate :: "path \<Rightarrow> os \<Rightarrow> os \<times> unit result"
  Convert :: "path \<Rightarrow> path \<Rightarrow> Options \<Rightarrow> os \<Rightarrow> os \<times> Result result"

definition newTextConverter :: "env \<Rightarrow> string \<Rightarrow> string \<Rightarrow> extractor \<Rightarrow> DocumentConverter" where
  "newTextConverter E extension mediaType extract = \<lparr>Extension = extension, MediaType = mediaType,
     Validate = (\<lambda>source. validateExtractedText E source extract),
     Convert = (\<lambda>source outputDir options. convertExtractedText E source outputDir mediaType extract options)\<rparr>"

definition rendered :: "env \<Rightarrow> string \<Rightarrow> string \<Rightarrow> string list \<Rightarrow> ConverterConfig \<Rightarrow> DocumentConverter" where
  "rendered E extension mediaType signatures config = \<lparr>Extension = extension, MediaType = mediaType,
     Validate = (\<lambda>source. validateSignature E source signatures),
     Convert = (\<lambda>source outputDir options. convertRenderedDocument E source outputDir mediaType config options)\<rparr>"

definition imaged :: "env \<Rightarrow> string \<Rightarrow> string \<Rightarrow> string \<Rightarrow> DocumentConverter" where
  "imaged E extension mediaType format = \<lparr>Extension = extension, MediaType = mediaType,
     Validate = (\<lambda>source. validateImage E source format),
     Convert = (\<lambda>source outputDir _. convertImage E source outputDir mediaType)\<rparr>"

definition pdfConverter :: "env \<Rightarrow> ConverterConfig \<Rightarrow> DocumentConverter" where
  "pdfConverter E = rendered E ''.pdf'' ''application/pdf'' [''%PDF-'']"
definition docConverter :: "env \<Rightarrow> ConverterConfig \<Rightarrow> DocumentConverter" where
  "docConverter E = rendered E ''.doc'' ''application/msword'' [oleSignature]"
definition docxConverter :: "env \<Rightarrow> ConverterConfig \<Rightarrow> DocumentConverter" where
  "docxConverter E = rendered E ''.docx''
     ''application/vnd.openxmlformats-officedocument.wordprocessingml.document'' [zipSignature]"
definition pptConverter :: "env \<Rightarrow> ConverterConfig \<Rightarrow> DocumentConverter" where
  "pptConverter E = rendered E ''.ppt'' ''application/vnd.ms-powerpoint'' [oleSignature]"
definition pptxConverter :: "env \<Rightarrow> ConverterConfig \<Rightarrow> DocumentConverter" where
  "pptxConverter E = rendered E ''.pptx''
     ''application/vnd.openxmlformats-officedocument.presentationml.presentation'' [zipSignature]"
definition xlsConverter :: "env \<Rightarrow> ConverterConfig \<Rightarrow> DocumentConverter" where
  "xlsConverter E = rendered E ''.xls'' ''application/vnd.ms-excel'' [oleSignature]"
definition xlsxConverter :: "env \<Rightarrow> ConverterConfig \<Rightarrow> DocumentConverter" where
  "xlsxConverter E = rendered E ''.xlsx''
     ''application/vnd.openxmlformats-officedocument.spreadsheetml.sheet'' [zipSignature]"
definition xlsmConverter :: "env \<Rightarrow> ConverterConfig \<Rightarrow> DocumentConverter" where
  "xlsmConverter E = rendered E ''.xlsm'' ''application/vnd.ms-excel.sheet.macroEnabled.12'' [zipSignature]"
definition jpgConverter :: "env \<Rightarrow> DocumentConverter" where
  "jpgConverter E = imaged E ''.jpg'' ''image/jpeg'' ''jpeg''"
definition jpegConverter :: "env \<Rightarrow> DocumentConverter" where
  "jpegConverter E = imaged E ''.jpeg'' ''image/jpeg'' ''jpeg''"
definition pngConverter :: "env \<Rightarrow> DocumentConverter" where
  "pngConverter E = imaged E ''.png'' ''image/png'' ''png''"

section \<open>Registry and dispatcher\<close>

text \<open>A registry is a map from extensions to factories; the list gives the order of a \<open>range\<close>.\<close>

type_synonym ConverterFactory = "ConverterConfig \<Rightarrow> DocumentConverter result"
type_synonym Registry = "(string \<times> ConverterFactory) list"

definition Register :: "env \<Rightarrow> Registry \<Rightarrow> string \<Rightarrow> ConverterFactory option \<Rightarrow> Registry result" where
  "Register E registry extension factory =
     (let normalized = to_lower (uni_lower E) extension
      in if normalized = [] \<or> \<not> has_prefix normalized ''.''
         then Inl (Opaque (''invalid converter extension: '' @ extension))
         else case factory of
           None \<Rightarrow> Inl (Opaque ''converter factory must not be nil'')
         | Some f \<Rightarrow> if map_of registry normalized \<noteq> None
             then Inl (Opaque (''converter already registered for '' @ normalized))
             else Inr ((normalized, f) # registry))"

definition Unregister :: "env \<Rightarrow> Registry \<Rightarrow> string \<Rightarrow> Registry result" where
  "Unregister E registry extension =
     (let normalized = to_lower (uni_lower E) extension
      in if map_of registry normalized = None
         then Inl (Opaque (''converter not registered for '' @ normalized))
         else Inr (filter (\<lambda>x. fst x \<noteq> normalized) registry))"

fun register_all :: "env \<Rightarrow> Registry \<Rightarrow> Registry \<Rightarrow> Registry result" where
  "register_all E merged [] = Inr merged"
| "register_all E merged ((extension, factory) # rest) = (case Register E merged extension (Some factory) of
     Inl e \<Rightarrow> Inl e | Inr merged' \<Rightarrow> register_all E merged' rest)"

text \<open>\<open>Merge\<close> returns the registry as it is afterwards.\<close>

definition Merge :: "env \<Rightarrow> Registry \<Rightarrow> Registry \<Rightarrow> Registry \<times> go_error option" where
  "Merge E registry others = (case register_all E registry others of
     Inl e \<Rightarrow> (registry, Some e) | Inr merged \<Rightarrow> (merged, None))"

definition registry_Converter :: "env \<Rightarrow> Registry \<Rightarrow> string \<Rightarrow> ConverterConfig \<Rightarrow> DocumentConverter result" where
  "registry_Converter E registry extension config =
     (let normalized = to_lower (uni_lower E) extension
      in case map_of registry normalized of
        None \<Rightarrow> Inl (WrappedAs (''converter not found: '' @ (if normalized = [] then ''(none)'' else normalized))
          ErrConverterNotFound)
      | Some factory \<Rightarrow> factory config)"

definition ForPath :: "env \<Rightarrow> Registry \<Rightarrow> string \<Rightarrow> ConverterConfig \<Rightarrow> DocumentConverter result" where
  "ForPath E registry p config = registry_Converter E registry (path_ext p) config"

definition Extensions :: "Registry \<Rightarrow> string list" where
  "Extensions registry = sort (map fst registry)"

definition ConverterAdapter :: "(ConverterConfig \<Rightarrow> DocumentConverter) \<Rightarrow> ConverterFactory" where
  "ConverterAdapter construct config = Inr (construct config)"

definition NewInTreeRegistry :: "env \<Rightarrow> Registry" where
  "NewInTreeRegistry E =
     (let csv = ExtractCSV (csv_detail E); html = ExtractHTML (uni_lower E) (html_Parse E)
      in [(''.pdf'', ConverterAdapter (pdfConverter E)), (''.doc'', ConverterAdapter (docConverter E)),
       (''.docx'', ConverterAdapter (docxConverter E)), (''.ppt'', ConverterAdapter (pptConverter E)),
       (''.pptx'', ConverterAdapter (pptxConverter E)), (''.xls'', ConverterAdapter (xlsConverter E)),
       (''.xlsx'', ConverterAdapter (xlsxConverter E)), (''.xlsm'', ConverterAdapter (xlsmConverter E)),
       (''.txt'', ConverterAdapter (\<lambda>_. newTextConverter E ''.txt'' ''text/plain'' PlainText)),
       (''.md'', ConverterAdapter (\<lambda>_. newTextConverter E ''.md'' ''text/markdown'' PlainText)),
       (''.markdown'', ConverterAdapter (\<lambda>_. newTextConverter E ''.markdown'' ''text/markdown'' PlainText)),
       (''.csv'', ConverterAdapter (\<lambda>_. newTextConverter E ''.csv'' ''text/csv'' csv)),
       (''.html'', ConverterAdapter (\<lambda>_. newTextConverter E ''.html'' ''text/html'' html)),
       (''.htm'', ConverterAdapter (\<lambda>_. newTextConverter E ''.htm'' ''text/html'' html)),
       (''.jpg'', ConverterAdapter (\<lambda>_. jpgConverter E)), (''.jpeg'', ConverterAdapter (\<lambda>_. jpegConverter E)),
       (''.png'', ConverterAdapter (\<lambda>_. pngConverter E))])"

record Dispatcher =
  disp_registry :: Registry
  disp_configuration :: ConverterConfig
  disp_fallback :: DocumentConverter

definition NewDispatcher :: "env \<Rightarrow> Registry \<Rightarrow> ConverterConfig \<Rightarrow> Dispatcher" where
  "NewDispatcher E registry configuration = \<lparr>disp_registry = registry, disp_configuration = configuration,
     disp_fallback = newTextConverter E [] ''text/plain'' PlainText\<rparr>"

definition ResolveConverter :: "env \<Rightarrow> Dispatcher \<Rightarrow> string \<Rightarrow> DocumentConverter result" where
  "ResolveConverter E dispatcher p =
     (case ForPath E (disp_registry dispatcher) p (disp_configuration dispatcher) of
        Inr c \<Rightarrow> Inr c
      | Inl e \<Rightarrow> if err_is e ErrConverterNotFound then Inr (disp_fallback dispatcher) else Inl e)"

end
