(* ===== verification/Config.thy ===== *)
theory Config
  imports Converter
begin

text \<open>
  \<open>internal/config/config.go\<close>: the settings of the gateway, read from the environment and validated,
  and the use the process makes of them (\<open>converterConfig\<close> in \<open>cmd/llm-file-gateway/main.go\<close>, the log
  levels of \<open>internal/logging\<close>). An unset variable and an empty one are the same for the code.
  Floating-point numbers and the syntax of URLs are parameters; integers are parsed as \<open>strconv\<close> does,
  with the range of \<open>int64\<close> and \<open>uint64\<close>, and the arithmetic on them wraps.
\<close>

section \<open>Parsing numbers\<close>

definition dec_digits :: "string \<Rightarrow> nat option" where
  "dec_digits s = (if s = [] \<or> \<not> list_all is_digit s then None else Some (dec_val s))"

text \<open>\<open>strconv.ParseInt(s, 10, 64)\<close>, also \<open>strconv.Atoi\<close> as an \<open>int\<close> has 64 bits.\<close>

definition ParseInt :: "string \<Rightarrow> int option" where
  "ParseInt s = (let minus = has_prefix s ''-'';
                     d = (if minus \<or> has_prefix s ''+'' then drop 1 s else s)
     in case dec_digits d of None \<Rightarrow> None
        | Some n \<Rightarrow> let i = (if minus then - int n else int n) in if in64 i then Some i else None)"

definition ParseUint :: "string \<Rightarrow> int option" where
  "ParseUint s = (case dec_digits s of None \<Rightarrow> None | Some n \<Rightarrow> if n < 2 ^ 64 then Some (int n) else None)"

definition ParseBool :: "string \<Rightarrow> bool option" where
  "ParseBool s = (if s \<in> {''1'', ''t'', ''T'', ''TRUE'', ''true'', ''True''} then Some True
     else if s \<in> {''0'', ''f'', ''F'', ''FALSE'', ''false'', ''False''} then Some False else None)"

section \<open>The environment\<close>

record url =
  url_Scheme :: string
  url_Host :: string
  url_Path :: string
  url_RawQuery :: string

text \<open>\<open>float_nanos\<close> is \<open>time.Duration(x * float64(time.Second))\<close>.\<close>

record 'f platform =
  Getenv :: "string \<Rightarrow> string"
  url_Parse :: "string \<Rightarrow> url option"
  ParseFloat :: "string \<Rightarrow> 'f option"
  float_const :: "int \<Rightarrow> 'f"
  float_negative :: "'f \<Rightarrow> bool"
  float_nanos :: "'f \<Rightarrow> int"

definition envString :: "'f platform \<Rightarrow> string \<Rightarrow> string \<Rightarrow> string" where
  "envString P name fallback = (if Getenv P name \<noteq> [] then Getenv P name else fallback)"

definition env_parse :: "(string \<Rightarrow> 'a option) \<Rightarrow> string \<Rightarrow> 'f platform \<Rightarrow> string \<Rightarrow> 'a \<Rightarrow> 'a result" where
  "env_parse parse what P name fallback = (let value = Getenv P name
     in if value = [] then Inr fallback
        else case parse value of None \<Rightarrow> Inl (Opaque (name @ what)) | Some v \<Rightarrow> Inr v)"

definition envBool :: "'f platform \<Rightarrow> string \<Rightarrow> bool \<Rightarrow> bool result" where
  "envBool = env_parse ParseBool '' must be a boolean''"

definition envInt64 :: "'f platform \<Rightarrow> string \<Rightarrow> int \<Rightarrow> int result" where
  "envInt64 = env_parse ParseInt '' must be an integer''"

definition envInt :: "'f platform \<Rightarrow> string \<Rightarrow> int \<Rightarrow> int result" where
  "envInt P name fallback = (case envInt64 P name fallback of Inl e \<Rightarrow> Inl e | Inr v \<Rightarrow> Inr (wrap64 v))"

definition envUint64 :: "'f platform \<Rightarrow> string \<Rightarrow> int \<Rightarrow> int result" where
  "envUint64 = env_parse ParseUint '' must be a non-negative integer''"

definition envFloat :: "'f platform \<Rightarrow> string \<Rightarrow> 'f \<Rightarrow> 'f result" where
  "envFloat P = env_parse (ParseFloat P) '' must be a number'' P"

section \<open>Settings\<close>

record Config =
  Address :: string
  VLLMModel :: string
  VLLMBaseURL :: url
  GatewayAuthRequired :: bool
  GatewayAPIKey :: string
  VLLMAPIKey :: string
  DataDir :: string
  FileTTL :: int
  MaxFileBytes :: int
  MaxRequestBodyBytes :: int
  MaxDocumentPages :: int
  MaxDocumentTextChars :: int
  MaxDocumentPDFBytes :: int
  MaxDocumentPageWidth :: int
  MaxDocumentPageHeight :: int
  MaxDocumentPagePixels :: int
  MaxDocumentPixels_setting :: int
  MaxDocumentOOXMLMembers :: int
  MaxDocumentOOXMLMemberBytes :: int
  MaxDocumentOOXMLTotalBytes :: int
  DocumentDPI :: int
  DocumentRenderTimeout :: int
  DocumentLibreOfficeTimeout :: int
  TextExtractionEnabled :: bool
  Workers :: int
  ConversionQueueCapacity :: int
  MaxConcurrentRequests :: int
  RequestTimeout :: int
  LogVerbosity :: int

text \<open>\<open>v, err := r; if err != nil || !ok(v) { return message }\<close>, and the same passing \<open>err\<close> on.\<close>

definition expect :: "'a result \<Rightarrow> ('a \<Rightarrow> bool) \<Rightarrow> string \<Rightarrow> ('a \<Rightarrow> 'b result) \<Rightarrow> 'b result" where
  "expect r ok message k = (case r of
     Inl _ \<Rightarrow> Inl (Opaque message) | Inr v \<Rightarrow> if ok v then k v else Inl (Opaque message))"

definition attempt :: "'a result \<Rightarrow> ('a \<Rightarrow> 'b result) \<Rightarrow> 'b result" where
  "attempt r k = (case r of Inl e \<Rightarrow> Inl e | Inr v \<Rightarrow> k v)"

definition non_negative :: "string \<Rightarrow> string" where
  "non_negative name = name @ '' must be a non-negative integer''"

text \<open>\<open>net.JoinHostPort\<close>.\<close>

definition JoinHostPort :: "string \<Rightarrow> string \<Rightarrow> string" where
  "JoinHostPort host port = (if CHR '':'' \<in> set host \<or> CHR ''%'' \<in> set host
     then ''['' @ host @ '']:'' @ port else host @ '':'' @ port)"

definition base_url_ok :: "url \<Rightarrow> bool" where
  "base_url_ok u \<longleftrightarrow> url_Scheme u \<noteq> [] \<and> url_Host u \<noteq> [] \<and> trim_right (CHR ''/'') (url_Path u) = ''/v1''"

definition defaultFileTTL :: int where
  "defaultFileTTL = 5 * 60 * 10 ^ 9"

definition Load :: "'f platform \<Rightarrow> Config result" where
  "Load P =
     (let model = Getenv P ''VLLM_MODEL'' in
      if model = [] then Inl (Opaque ''VLLM_MODEL is required'') else
      expect (case url_Parse P (Getenv P ''VLLM_BASE_URL'') of None \<Rightarrow> Inl (Opaque []) | Some u \<Rightarrow> Inr u) base_url_ok
        ''VLLM_BASE_URL must be an absolute URL ending with /v1'' (\<lambda>baseURL.
      attempt (envBool P ''GATEWAY_AUTH_REQUIRED'' False) (\<lambda>authRequired.
      let gatewayHost = envString P ''GATEWAY_HOST'' ''127.0.0.1'' in
      expect (envInt P ''GATEWAY_PORT'' 8080) (\<lambda>v. 1 \<le> v \<and> v \<le> 65535)
        ''GATEWAY_PORT must be an integer between 1 and 65535'' (\<lambda>gatewayPort.
      expect (envInt64 P ''FILE_TTL_SECONDS'' (go_div defaultFileTTL (10 ^ 9))) (\<lambda>v. v \<ge> 0)
        (non_negative ''FILE_TTL_SECONDS'') (\<lambda>fileTTLSeconds.
      expect (envInt64 P ''MAX_FILE_BYTES'' (50 * 1024 * 1024)) (\<lambda>v. v \<ge> 0) (non_negative ''MAX_FILE_BYTES'') (\<lambda>maxFileBytes.
      expect (envInt64 P ''MAX_REQUEST_BODY_BYTES'' (wrap64 (4 * maxFileBytes))) (\<lambda>v. v \<ge> 0)
        (non_negative ''MAX_REQUEST_BODY_BYTES'') (\<lambda>maxRequestBodyBytes.
      expect (envInt P ''MAX_DOCUMENT_PAGES'' 50) (\<lambda>v. v \<ge> 0) (non_negative ''MAX_DOCUMENT_PAGES'') (\<lambda>maxPages.
      expect (envInt P ''MAX_DOCUMENT_TEXT_CHARS'' 500000) (\<lambda>v. v \<ge> 0) (non_negative ''MAX_DOCUMENT_TEXT_CHARS'') (\<lambda>maxTextChars.
      attempt (envUint64 P ''MAX_DOCUMENT_PDF_BYTES'' (128 * 2 ^ 20)) (\<lambda>maxPDFBytes.
      expect (envInt P ''MAX_DOCUMENT_PAGE_WIDTH'' 20000) (\<lambda>v. v \<ge> 0) (non_negative ''MAX_DOCUMENT_PAGE_WIDTH'') (\<lambda>maxPageWidth.
      expect (envInt P ''MAX_DOCUMENT_PAGE_HEIGHT'' 20000) (\<lambda>v. v \<ge> 0) (non_negative ''MAX_DOCUMENT_PAGE_HEIGHT'') (\<lambda>maxPageHeight.
      attempt (envUint64 P ''MAX_DOCUMENT_PAGE_PIXELS'' 200000000) (\<lambda>maxPagePixels.
      attempt (envUint64 P ''MAX_DOCUMENT_PIXELS'' 1000000000) (\<lambda>maxDocumentPixels.
      expect (envInt P ''MAX_DOCUMENT_OOXML_MEMBERS'' 10000) (\<lambda>v. v \<ge> 0) (non_negative ''MAX_DOCUMENT_OOXML_MEMBERS'') (\<lambda>maxOOXMLMembers.
      attempt (envUint64 P ''MAX_DOCUMENT_OOXML_MEMBER_BYTES'' (256 * 2 ^ 20)) (\<lambda>maxOOXMLMemberBytes.
      attempt (envUint64 P ''MAX_DOCUMENT_OOXML_TOTAL_BYTES'' (2 ^ 30)) (\<lambda>maxOOXMLTotalBytes.
      expect (envInt P ''DOCUMENT_DPI'' 300) (\<lambda>v. 1 \<le> v \<and> v \<le> 1200)
        ''DOCUMENT_DPI must be an integer between 1 and 1200'' (\<lambda>documentDPI.
      expect (envFloat P ''DOCUMENT_RENDER_TIMEOUT_SECONDS'' (float_const P 300)) (\<lambda>v. \<not> float_negative P v)
        ''DOCUMENT_RENDER_TIMEOUT_SECONDS must be non-negative'' (\<lambda>documentRenderTimeoutSeconds.
      expect (envFloat P ''DOCUMENT_LIBREOFFICE_TIMEOUT_SECONDS'' (float_const P 300)) (\<lambda>v. \<not> float_negative P v)
        ''DOCUMENT_LIBREOFFICE_TIMEOUT_SECONDS must be non-negative'' (\<lambda>libreOfficeTimeoutSeconds.
      attempt (envBool P ''DOCUMENT_TEXT_EXTRACTION_ENABLED'' True) (\<lambda>textExtractionEnabled.
      expect (envInt P ''CONVERSION_WORKERS'' 2) (\<lambda>v. v \<ge> 1) ''CONVERSION_WORKERS must be a positive integer'' (\<lambda>workers.
      expect (envInt P ''CONVERSION_QUEUE_CAPACITY'' 0) (\<lambda>v. v \<ge> 0) (non_negative ''CONVERSION_QUEUE_CAPACITY'') (\<lambda>conversionQueueCapacity.
      expect (envInt P ''MAX_CONCURRENT_REQUESTS'' 0) (\<lambda>v. v \<ge> 0) (non_negative ''MAX_CONCURRENT_REQUESTS'') (\<lambda>maxConcurrentRequests.
      expect (envFloat P ''REQUEST_TIMEOUT_SECONDS'' (float_const P 300)) (\<lambda>v. \<not> float_negative P v)
        ''REQUEST_TIMEOUT_SECONDS must be non-negative'' (\<lambda>timeoutSeconds.
      expect (envInt P ''LOGLEVEL'' 0) (\<lambda>v. 0 \<le> v \<and> v \<le> 2) ''LOGLEVEL must be an integer between 0 and 2'' (\<lambda>logVerbosity.
      let config =
        \<lparr>Address = JoinHostPort gatewayHost (show_int gatewayPort), VLLMModel = model, VLLMBaseURL = baseURL,
         GatewayAuthRequired = authRequired, GatewayAPIKey = Getenv P ''GATEWAY_API_KEY'',
         VLLMAPIKey = Getenv P ''VLLM_API_KEY'', DataDir = envString P ''GATEWAY_DATA_DIR'' ''gateway-data'',
         FileTTL = wrap64 (fileTTLSeconds * 10 ^ 9), MaxFileBytes = maxFileBytes,
         MaxRequestBodyBytes = maxRequestBodyBytes, MaxDocumentPages = maxPages,
         MaxDocumentTextChars = maxTextChars, MaxDocumentPDFBytes = maxPDFBytes,
         MaxDocumentPageWidth = maxPageWidth, MaxDocumentPageHeight = maxPageHeight,
         MaxDocumentPagePixels = maxPagePixels, MaxDocumentPixels_setting = maxDocumentPixels,
         MaxDocumentOOXMLMembers = maxOOXMLMembers, MaxDocumentOOXMLMemberBytes = maxOOXMLMemberBytes,
         MaxDocumentOOXMLTotalBytes = maxOOXMLTotalBytes, DocumentDPI = documentDPI,
         DocumentRenderTimeout = float_nanos P documentRenderTimeoutSeconds,
         DocumentLibreOfficeTimeout = float_nanos P libreOfficeTimeoutSeconds,
         TextExtractionEnabled = textExtractionEnabled, Workers = workers,
         ConversionQueueCapacity = conversionQueueCapacity, MaxConcurrentRequests = maxConcurrentRequests,
         RequestTimeout = float_nanos P timeoutSeconds, LogVerbosity = logVerbosity\<rparr> in
      if VLLMAPIKey config = [] then Inl (Opaque ''VLLM_API_KEY is required'')
      else if GatewayAuthRequired config \<and> GatewayAPIKey config = []
      then Inl (Opaque ''GATEWAY_API_KEY is required when GATEWAY_AUTH_REQUIRED=true'')
      else Inr config))))))))))))))))))))))))))"

section \<open>The use of the settings\<close>

text \<open>\<open>run\<close> in \<open>main.go\<close>.\<close>

definition converterConfig :: "Config \<Rightarrow> ConverterConfig" where
  "converterConfig settings = DefaultConverterConfig
     \<lparr>DPI := DocumentDPI settings, RenderTimeout := DocumentRenderTimeout settings,
      LibreOfficeTimeout := DocumentLibreOfficeTimeout settings, MaxPDFBytes := MaxDocumentPDFBytes settings,
      MaxPageWidth := MaxDocumentPageWidth settings, MaxPageHeight := MaxDocumentPageHeight settings,
      MaxPagePixels := MaxDocumentPagePixels settings, MaxDocumentPixels := MaxDocumentPixels_setting settings,
      MaxOOXMLMembers := MaxDocumentOOXMLMembers settings,
      MaxOOXMLMemberBytes := MaxDocumentOOXMLMemberBytes settings,
      MaxOOXMLTotalBytes := MaxDocumentOOXMLTotalBytes settings\<rparr>"

text \<open>\<open>internal/logging\<close>: the levels of \<open>slog\<close> (\<open>LevelInfo\<close> is 0, \<open>LevelDebug\<close> -4), and the name under
  which a record is printed, None when the attribute is left as it is.\<close>

definition levelStep :: int where "levelStep = 4"
definition LevelDebug :: int where "LevelDebug = - 4"

definition Level :: "int \<Rightarrow> int" where
  "Level verbosity = wrap64 (0 - wrap64 (verbosity * levelStep))"

definition ReplaceLevel :: "string \<Rightarrow> int option \<Rightarrow> string option" where
  "ReplaceLevel key level = (if key \<noteq> ''level'' then None
     else case level of None \<Rightarrow> None | Some l \<Rightarrow> if l < LevelDebug then Some ''DEBUG'' else None)"

text \<open>A call of \<open>V\<close> at verbosity \<open>v\<close> is printed by a logger of verbosity \<open>configured\<close>.\<close>

definition log_enabled :: "int \<Rightarrow> int \<Rightarrow> bool" where
  "log_enabled configured v \<longleftrightarrow> Level v \<ge> Level configured"

end
