(* ===== verification/Config_Correct.thy ===== *)
theory Config_Correct
  imports Config
begin

text \<open>
  What \<open>Load\<close> accepts: a table of the variables with their ranges is the specification, and the
  sequence of checks of the code accepts exactly the environments that fit it. The settings it returns
  are within their bounds; where the arithmetic on them wraps is stated too.
\<close>

lemma expect_Inr [simp]: "expect r ok m k = Inr c \<longleftrightarrow> (\<exists>v. r = Inr v \<and> ok v \<and> k v = Inr c)"
  by (auto simp: expect_def split: sum.splits)

lemma attempt_Inr [simp]: "attempt r k = Inr c \<longleftrightarrow> (\<exists>v. r = Inr v \<and> k v = Inr c)"
  by (auto simp: attempt_def split: sum.splits)

lemma env_parse_Inr: "env_parse parse what P name fallback = Inr v \<longleftrightarrow>
    (if Getenv P name = [] then v = fallback else parse (Getenv P name) = Some v)"
  by (auto simp: env_parse_def Let_def split: option.splits)

lemma ParseInt_in64: "ParseInt s = Some i \<Longrightarrow> in64 i"
  by (auto simp: ParseInt_def Let_def split: option.splits if_splits)

lemma ParseUint_range: "ParseUint s = Some i \<Longrightarrow> 0 \<le> i \<and> i < 2 ^ 64"
  by (auto simp: ParseUint_def split: option.splits if_splits)

lemma envInt_Inr: "in64 fallback \<Longrightarrow> envInt P name fallback = Inr v \<longleftrightarrow>
    (if Getenv P name = [] then v = fallback else ParseInt (Getenv P name) = Some v)"
  using ParseInt_in64
  by (auto simp: envInt_def envInt64_def env_parse_def Let_def wrap64_id split: option.splits)

section \<open>The specification\<close>

definition int64_max :: int where "int64_max = 2 ^ 63 - 1"

definition int_settings :: "(string \<times> int \<times> int) list" where
  "int_settings = [(''GATEWAY_PORT'', 1, 65535), (''FILE_TTL_SECONDS'', 0, int64_max),
     (''MAX_FILE_BYTES'', 0, int64_max), (''MAX_REQUEST_BODY_BYTES'', 0, int64_max),
     (''MAX_DOCUMENT_PAGES'', 0, int64_max), (''MAX_DOCUMENT_TEXT_CHARS'', 0, int64_max),
     (''MAX_DOCUMENT_PAGE_WIDTH'', 0, int64_max), (''MAX_DOCUMENT_PAGE_HEIGHT'', 0, int64_max),
     (''MAX_DOCUMENT_OOXML_MEMBERS'', 0, int64_max), (''DOCUMENT_DPI'', 1, 1200),
     (''CONVERSION_WORKERS'', 1, int64_max), (''CONVERSION_QUEUE_CAPACITY'', 0, int64_max),
     (''MAX_CONCURRENT_REQUESTS'', 0, int64_max), (''LOGLEVEL'', 0, 2)]"

definition uint_settings :: "string list" where
  "uint_settings = [''MAX_DOCUMENT_PDF_BYTES'', ''MAX_DOCUMENT_PAGE_PIXELS'', ''MAX_DOCUMENT_PIXELS'',
     ''MAX_DOCUMENT_OOXML_MEMBER_BYTES'', ''MAX_DOCUMENT_OOXML_TOTAL_BYTES'']"

definition float_settings :: "string list" where
  "float_settings = [''DOCUMENT_RENDER_TIMEOUT_SECONDS'', ''DOCUMENT_LIBREOFFICE_TIMEOUT_SECONDS'',
     ''REQUEST_TIMEOUT_SECONDS'']"

definition unset_or :: "'f platform \<Rightarrow> string \<Rightarrow> (string \<Rightarrow> 'a option) \<Rightarrow> ('a \<Rightarrow> bool) \<Rightarrow> bool" where
  "unset_or P name parse ok \<longleftrightarrow> Getenv P name = [] \<or> holds ok (parse (Getenv P name))"

text \<open>The value of \<open>MAX_FILE_BYTES\<close>, from which the default of \<open>MAX_REQUEST_BODY_BYTES\<close> comes.\<close>

definition file_limit :: "'f platform \<Rightarrow> int" where
  "file_limit P = (if Getenv P ''MAX_FILE_BYTES'' = [] then 50 * 1024 * 1024
     else the (ParseInt (Getenv P ''MAX_FILE_BYTES'')))"

definition valid_env :: "'f platform \<Rightarrow> bool" where
  "valid_env P \<longleftrightarrow> Getenv P ''VLLM_MODEL'' \<noteq> [] \<and> Getenv P ''VLLM_API_KEY'' \<noteq> [] \<and>
     holds base_url_ok (url_Parse P (Getenv P ''VLLM_BASE_URL'')) \<and>
     list_all (\<lambda>(name, lo, hi). unset_or P name ParseInt (\<lambda>v. lo \<le> v \<and> v \<le> hi)) int_settings \<and>
     list_all (\<lambda>name. unset_or P name ParseUint (\<lambda>_. True)) uint_settings \<and>
     list_all (\<lambda>name. unset_or P name (ParseFloat P) (\<lambda>v. \<not> float_negative P v)) float_settings \<and>
     list_all (\<lambda>name. unset_or P name ParseBool (\<lambda>_. True)) [''GATEWAY_AUTH_REQUIRED'', ''DOCUMENT_TEXT_EXTRACTION_ENABLED''] \<and>
     (Getenv P ''GATEWAY_API_KEY'' = [] \<longrightarrow> ParseBool (Getenv P ''GATEWAY_AUTH_REQUIRED'') \<noteq> Some True) \<and>
     (Getenv P ''MAX_REQUEST_BODY_BYTES'' = [] \<longrightarrow> wrap64 (4 * file_limit P) \<ge> 0)"

section \<open>The checks\<close>

definition accepts :: "'a result \<Rightarrow> bool" where
  "accepts r \<longleftrightarrow> (\<exists>c. r = Inr c)"

definition env_value :: "(string \<Rightarrow> 'a option) \<Rightarrow> 'f platform \<Rightarrow> string \<Rightarrow> 'a \<Rightarrow> 'a" where
  "env_value parse P name d = (if Getenv P name = [] then d else the (parse (Getenv P name)))"

lemma accepts_simps:
  "accepts (Inr c)" "\<not> accepts (Inl e)"
  "accepts (if b then x else y) \<longleftrightarrow> (if b then accepts x else accepts y)"
  by (auto simp: accepts_def)

lemma accepts_env_parse:
  "accepts (expect (env_parse parse what P name d) ok m k) \<longleftrightarrow>
     unset_or P name parse ok \<and> (Getenv P name = [] \<longrightarrow> ok d) \<and> accepts (k (env_value parse P name d))"
  "accepts (attempt (env_parse parse what P name d) k) \<longleftrightarrow>
     unset_or P name parse (\<lambda>_. True) \<and> accepts (k (env_value parse P name d))"
  by (auto simp: expect_def attempt_def env_parse_def Let_def accepts_def unset_or_def env_value_def split: option.splits)

lemma accepts_env64:
  "accepts (expect (envInt64 P name d) ok m k) \<longleftrightarrow>
     unset_or P name ParseInt ok \<and> (Getenv P name = [] \<longrightarrow> ok d) \<and> accepts (k (env_value ParseInt P name d))"
  by (simp add: envInt64_def accepts_env_parse)

lemma accepts_envInt:
  assumes "in64 d" and "ok d"
  shows "accepts (expect (envInt P name d) ok m k) \<longleftrightarrow>
     unset_or P name ParseInt ok \<and> accepts (k (env_value ParseInt P name d))"
proof -
  have e: "envInt P name d = envInt64 P name d"
  proof (cases "envInt64 P name d")
    case (Inr v)
    then have "in64 v" using assms ParseInt_in64 by (auto simp: envInt64_def env_parse_Inr split: if_splits)
    then show ?thesis using Inr by (simp add: envInt_def wrap64_id)
  qed (simp add: envInt_def)
  show ?thesis using assms by (simp add: e accepts_env64)
qed

lemma accepts_env:
  "accepts (attempt (envUint64 P name i) k) \<longleftrightarrow>
     unset_or P name ParseUint (\<lambda>_. True) \<and> accepts (k (env_value ParseUint P name i))"
  "accepts (attempt (envBool P name b) k') \<longleftrightarrow>
     unset_or P name ParseBool (\<lambda>_. True) \<and> accepts (k' (env_value ParseBool P name b))"
  "\<not> float_negative P f \<Longrightarrow> accepts (expect (envFloat P name f) (\<lambda>v. \<not> float_negative P v) m k2) \<longleftrightarrow>
     unset_or P name (ParseFloat P) (\<lambda>v. \<not> float_negative P v) \<and> accepts (k2 (env_value (ParseFloat P) P name f))"
  by (simp_all add: envUint64_def envBool_def envFloat_def accepts_env_parse)

lemma accepts_url: "accepts (expect (case url_Parse P x of None \<Rightarrow> Inl e | Some u \<Rightarrow> Inr u) base_url_ok m k) \<longleftrightarrow>
    holds base_url_ok (url_Parse P x) \<and> accepts (k (the (url_Parse P x)))"
  by (cases "url_Parse P x") (auto simp: expect_def accepts_def)

lemma at_most_max: "unset_or P name ParseInt (\<lambda>v. lo \<le> v \<and> v \<le> int64_max) = unset_or P name ParseInt (\<lambda>v. lo \<le> v)"
proof -
  have "v \<le> int64_max" if "ParseInt s = Some v" for s v
    using ParseInt_in64 [OF that] by (simp add: in64_def int64_max_def)
  then show ?thesis by (auto simp: unset_or_def holds_iff)
qed

lemma auth_value: "unset_or P name ParseBool (\<lambda>_. True) \<Longrightarrow>
    env_value ParseBool P name False \<longleftrightarrow> ParseBool (Getenv P name) = Some True"
  by (auto simp: env_value_def unset_or_def holds_iff ParseBool_def split: if_splits)

lemma load_accepts:
  assumes "\<not> float_negative P (float_const P 300)"
  shows "accepts (Load P) \<longleftrightarrow> valid_env P"
proof -
  have ttl: "go_div defaultFileTTL (10 ^ 9) = 300" by (simp add: go_div_def defaultFileTTL_def)
  have limit: "env_value ParseInt P ''MAX_FILE_BYTES'' 52428800 = file_limit P"
    by (simp add: env_value_def file_limit_def)
  let ?auth = "unset_or P ''GATEWAY_AUTH_REQUIRED'' ParseBool (\<lambda>_. True)"
  have code: "accepts (Load P) \<longleftrightarrow> ?auth \<and> accepts (Load P)" and spec: "valid_env P \<longleftrightarrow> ?auth \<and> valid_env P"
    by (auto simp: Load_def Let_def accepts_simps accepts_url accepts_env valid_env_def)
  have "accepts (Load P) \<longleftrightarrow> valid_env P" if ?auth
    unfolding Load_def Let_def ttl valid_env_def int_settings_def uint_settings_def float_settings_def
    using that
    apply (simp add: accepts_simps accepts_url accepts_env accepts_env64 accepts_envInt assms in64_def limit
        at_most_max auth_value)
    by blast
  then show ?thesis using code spec by blast
qed

section \<open>What is accepted, and what comes out\<close>

text \<open>C21. The configuration loads exactly when the environment fits the table of the settings: the model,
  the upstream key and an absolute base URL ending in \<open>/v1\<close> are given, every numeric, floating-point and
  Boolean variable is unset or parses into its range, a gateway key is given when authentication is
  required, and four times the file limit, the default of the body limit, has not wrapped to a
  negative number. (The constant 300.0 is not negative.)\<close>

theorem load_exact:
  assumes "\<not> float_negative P (float_const P 300)"
  shows "(\<exists>c. Load P = Inr c) \<longleftrightarrow> valid_env P"
  using load_accepts [OF assms] by (simp add: accepts_def)

lemma envInt64_in64: "envInt64 P name d = Inr v \<Longrightarrow> in64 d \<Longrightarrow> in64 v"
  by (auto simp: envInt64_def env_parse_Inr ParseInt_in64 split: if_splits)

lemma load_values:
  assumes "Load P = Inr c"
  obtains ttl where "envInt64 P ''FILE_TTL_SECONDS'' 300 = Inr ttl" "0 \<le> ttl" "FileTTL c = wrap64 (ttl * 10 ^ 9)"
    "envInt64 P ''MAX_FILE_BYTES'' (50 * 1024 * 1024) = Inr (MaxFileBytes c)" "0 \<le> MaxFileBytes c"
    "envInt64 P ''MAX_REQUEST_BODY_BYTES'' (wrap64 (4 * MaxFileBytes c)) = Inr (MaxRequestBodyBytes c)"
    "0 \<le> MaxRequestBodyBytes c"
proof -
  have ttl: "go_div defaultFileTTL (10 ^ 9) = 300" by (simp add: go_div_def defaultFileTTL_def)
  show thesis
    using assms that unfolding Load_def Let_def ttl expect_Inr attempt_Inr
    by (clarsimp split: if_split_asm)
qed



definition demo_platform :: "(string \<times> string) list \<Rightarrow> int platform" where
  "demo_platform vars =
     \<lparr>Getenv = (\<lambda>name. case map_of vars name of None \<Rightarrow> [] | Some v \<Rightarrow> v),
      url_Parse = (\<lambda>s. Some \<lparr>url_Scheme = ''http'', url_Host = ''vllm'', url_Path = ''/v1/'', url_RawQuery = []\<rparr>),
      ParseFloat = ParseInt, float_const = (\<lambda>i. i), float_negative = (\<lambda>i. i < 0), float_nanos = (\<lambda>i. i * 10 ^ 9)\<rparr>"

definition demo_vars :: "(string \<times> string) list" where
  "demo_vars = [(''VLLM_MODEL'', ''m''), (''VLLM_API_KEY'', ''k''), (''MAX_FILE_BYTES'', ''4611686018427387904''),
     (''FILE_TTL_SECONDS'', ''9223372037''), (''REQUEST_TIMEOUT_SECONDS'', ''60'')]"

lemmas demo_eval = demo_platform_def demo_vars_def ParseInt_def ParseUint_def ParseBool_def dec_digits_def
  dec_val_def is_digit_def digit_val_def has_prefix_def Let_def in64_def holds_iff

lemma demo_valid: "valid_env (demo_platform demo_vars)"
proof -
  have "file_limit (demo_platform demo_vars) = 2 ^ 62" by (simp add: file_limit_def demo_eval)
  then show ?thesis
    by (simp add: valid_env_def int_settings_def uint_settings_def float_settings_def unset_or_def demo_eval
        wrap64_def base_url_ok_def trim_right_def int64_max_def)
qed

theorem load_exact_witness:
  "(\<exists>c. Load (demo_platform demo_vars) = Inr c) \<and> \<not> (\<exists>c. Load (demo_platform ((''LOGLEVEL'', ''3'') # demo_vars)) = Inr c)"
proof -
  have n: "\<not> float_negative (demo_platform v) (float_const (demo_platform v) 300)" for v
    by (simp add: demo_platform_def)
  have "\<not> valid_env (demo_platform ((''LOGLEVEL'', ''3'') # demo_vars))"
    by (simp add: valid_env_def int_settings_def unset_or_def demo_eval)
  then show ?thesis using load_exact [OF n] demo_valid by blast
qed

lemma demo_loads: "\<exists>c. Load (demo_platform demo_vars) = Inr c"
proof -
  have "\<not> float_negative (demo_platform demo_vars) (float_const (demo_platform demo_vars) 300)" by (simp add: demo_platform_def)
  then show ?thesis using load_accepts demo_valid by (auto simp: accepts_def)
qed



end
