(* ===== verification/Converter_Correct.thy ===== *)
theory Converter_Correct
  imports Converter
begin

text \<open>
  What the converters guarantee: a conversion only touches its output directory and its manifest, a
  failed one leaves no output behind, a successful one leaves the manifest and every artifact it names.
  \<open>Conversion_Contract\<close> states this as a contract that every converter meets.
\<close>

section \<open>Frames\<close>

text \<open>The paths that a conversion into \<open>out\<close> may change: below the directory, its manifest, and the
  ancestors that \<open>MkdirAll\<close> may have to make.\<close>

definition touched :: "path \<Rightarrow> path \<Rightarrow> bool" where
  "touched out p \<longleftrightarrow> below out p \<or> below p out \<or> p = manifest_at out"

text \<open>What it leaves alone: everything else, and the ancestors that are directories already.\<close>

definition spared :: "path \<Rightarrow> path \<Rightarrow> node option \<Rightarrow> bool" where
  "spared out p n \<longleftrightarrow> \<not> below out p \<and> p \<noteq> manifest_at out \<and> (below p out \<longrightarrow> n = Some Dir)"

definition confined :: "path \<Rightarrow> (os \<Rightarrow> os \<times> 'a result) \<Rightarrow> bool" where
  "confined out m \<longleftrightarrow> (\<forall>s s' r p. m s = (s', r) \<longrightarrow> spared out p (node_at s p) \<longrightarrow> node_at s' p = node_at s p)"

definition owned :: "path \<Rightarrow> path \<Rightarrow> bool" where
  "owned out p \<longleftrightarrow> below out p \<or> p = manifest_at out"

lemma confined_spared: "confined out m \<Longrightarrow> m s = (s', r) \<Longrightarrow> spared out p (node_at s p) \<Longrightarrow> node_at s' p = node_at s p"
  unfolding confined_def by blast

lemma untouched_spared: "\<not> touched out p \<Longrightarrow> spared out p n"
  by (simp add: touched_def spared_def)

text \<open>Steps that remove nothing: they use no removal fault, and regular files stay regular files.\<close>

definition is_reg :: "node option \<Rightarrow> bool" where
  "is_reg n \<longleftrightarrow> (\<exists>c. n = Some (Reg c))"

definition additive :: "(os \<Rightarrow> os \<times> 'a result) \<Rightarrow> bool" where
  "additive m \<longleftrightarrow> (\<forall>s s' r. m s = (s', r) \<longrightarrow> rm_faults s' = rm_faults s
     \<and> (\<forall>p. is_reg (node_at s p) \<longrightarrow> is_reg (node_at s' p)))"

named_theorems step_rules "composition rules of confined and additive"

lemma confined_and_then [step_rules]:
  "confined out m \<Longrightarrow> (\<And>x. confined out (k x)) \<Longrightarrow> confined out (and_then m k)"
  unfolding confined_def and_then_def by (fastforce split: prod.splits sum.splits)

lemma additive_and_then [step_rules]:
  "additive m \<Longrightarrow> (\<And>x. additive (k x)) \<Longrightarrow> additive (and_then m k)"
  unfolding additive_def and_then_def by (auto split: prod.splits sum.splits) metis+

lemma pure_steps [step_rules]:
  "confined out (returns x)" "additive (returns x)" "confined out (fails e)" "additive (fails e)"
  "confined out (\<lambda>s. (s, r))" "additive (\<lambda>s. (s, r))"
  by (simp_all add: confined_def additive_def returns_def fails_def)

lemma read_steps [step_rules]: "confined out (read_file p)" "additive (read_file p)"
  by (auto simp: confined_def additive_def read_file_frame rm_faults_same)

lemma write_steps [step_rules]:
  "owned out p \<Longrightarrow> confined out (write_file p c)" "additive (write_file p c)"
proof -
  show "owned out p \<Longrightarrow> confined out (write_file p c)"
    unfolding confined_def using write_file_frame by (metis owned_def spared_def)
  show "additive (write_file p c)"
    unfolding additive_def
  proof (intro allI impI conjI)
    fix s s' r assume w: "write_file p c s = (s', r)"
    show "rm_faults s' = rm_faults s" using w by (rule rm_faults_same)
    fix q assume "is_reg (node_at s q)"
    then show "is_reg (node_at s' q)" using w
      by (auto simp: is_reg_def write_file_def node_at_def Let_def set_node_at
          split: fault.splits if_splits nat.splits)
  qed
qed

lemma owned_child [simp]: "owned out (out @ [name])" "owned out out" "owned out (manifest_at out)"
  by (simp_all add: owned_def)

lemma read_bytes_steps [step_rules]: "confined out (read_bytes E p)" "additive (read_bytes E p)"
  unfolding read_bytes_def by (intro step_rules)+

lemma hash_steps [step_rules]: "confined out (hashFile E p)" "additive (hashFile E p)"
  unfolding hashFile_def by (intro step_rules)+

lemma imageSize_steps [step_rules]: "confined out (imageSize E p)" "additive (imageSize E p)"
  unfolding imageSize_def by (intro step_rules)+

lemma copy_steps [step_rules]: "owned out q \<Longrightarrow> confined out (copyFile p q)" "additive (copyFile p q)"
  unfolding copyFile_def by (intro step_rules; assumption?)+

lemma writeResult_steps [step_rules]:
  "confined out (writeResult E source out mt parts)" "additive (writeResult E source out mt parts)"
  unfolding writeResult_def Let_def by (intro step_rules; simp)+

lemma text_parts_steps [step_rules]:
  "confined out (write_text_parts out n texts)" "additive (write_text_parts out n texts)"
  by (induction texts arbitrary: n) (auto simp: Let_def intro!: step_rules)

lemma map_error_steps [step_rules]:
  "confined out m \<Longrightarrow> confined out (map_error f m)" "additive m \<Longrightarrow> additive (map_error f m)"
  unfolding confined_def additive_def map_error_def by (fastforce split: prod.splits sum.splits)+

lemma pages_steps [step_rules]:
  "confined out (write_pages E out fmt ex n pages)" "additive (write_pages E out fmt ex n pages)"
  by (induction pages arbitrary: n) (auto simp: Let_def intro!: step_rules split: option.splits)

section \<open>The output directory\<close>

definition cleaned :: "path \<Rightarrow> os \<Rightarrow> bool" where
  "cleaned out s \<longleftrightarrow> (\<forall>p. below out p \<longrightarrow> node_at s p = None) \<and> node_at s (manifest_at out) = None"

lemma confinedD: "confined out m \<Longrightarrow> m s = (s', r) \<Longrightarrow> \<not> touched out p \<Longrightarrow> node_at s' p = node_at s p"
  by (rule confined_spared [OF _ _ untouched_spared])

lemma remove_all_confined [step_rules]: "confined out (remove_all out)"
  unfolding confined_def spared_def using remove_all_frame by metis

lemma remove_output_confined [step_rules]: "confined out (removeConversionOutput out)"
proof -
  have "confined out (\<lambda>s. case remove_file (manifest_at out) s of
      (s', Inl e) \<Rightarrow> (s', if e \<noteq> ErrNotExist then Inl e else Inr ()) | (s', Inr _) \<Rightarrow> (s', Inr ()))"
    unfolding confined_def
  proof (intro allI impI)
    fix s s' p and r :: "unit result"
    assume eq: "(case remove_file (manifest_at out) s of
      (s', Inl e) \<Rightarrow> (s', if e \<noteq> ErrNotExist then Inl e else Inr ()) | (s', Inr _) \<Rightarrow> (s', Inr ())) = (s', r)"
      and n: "spared out p (node_at s p)"
    obtain s2 r2 where m: "remove_file (manifest_at out) s = (s2, r2)" by fastforce
    then have "s' = s2" using eq by (cases r2) auto
    then show "node_at s' p = node_at s p" using remove_file_frame [OF m] n by (auto simp: spared_def)
  qed
  then show ?thesis unfolding removeConversionOutput_def by (intro step_rules)
qed

lemma remove_output_cleans:
  assumes "rm_faults s = []"
  shows "\<exists>s'. removeConversionOutput out s = (s', Inr ()) \<and> cleaned out s' \<and> rm_faults s' = []"
proof -
  obtain s1 where r: "remove_all out s = (s1, Inr ())" and f: "rm_faults s1 = []"
    using remove_all_works [OF assms] by blast
  obtain s2 res where m: "remove_file (manifest_at out) s1 = (s2, res)" by fastforce
  have res: "res = Inr () \<or> res = Inl ErrNotExist" and f2: "rm_faults s2 = []"
    using m f by (auto simp: remove_file_def next_fault_def Let_def split: if_splits)
  have g: "node_at s2 (manifest_at out) = None"
    by (rule remove_file_gone [OF m]) (use res f in \<open>auto simp: next_fault_def\<close>)
  have "node_at s2 p = None" if "below out p" for p
  proof (cases "p = manifest_at out")
    case True
    then show ?thesis using g by simp
  next
    case False
    then show ?thesis using remove_all_gone [OF r that] remove_file_frame [OF m False] by simp
  qed
  then have "cleaned out s2" using g by (simp add: cleaned_def)
  moreover have "removeConversionOutput out s = (s2, Inr ())"
    using res r m by (elim disjE) (simp_all add: removeConversionOutput_def and_then_def)
  ultimately show ?thesis using f2 by blast
qed

lemma mkdir_confined [step_rules]: "confined out (mkdir_all out)"
  unfolding confined_def spared_def using mkdir_all_frame mkdir_all_keep by metis

lemma secure_frame: "secureOutputPermissions out s = (s', r) \<Longrightarrow> node_at s' p = node_at s p \<and> rm_faults s' = rm_faults s"
  by (auto simp: secureOutputPermissions_def)

text \<open>The ways in which \<open>withOutputDirectory\<close> ends.\<close>

lemma with_output_cases:
  assumes "withOutputDirectory out m s = (s', r)"
  obtains (remove_failed) e where "removeConversionOutput out s = (s', Inl e)" "r = Inl e"
  | (mkdir_failed) s1 e where "removeConversionOutput out s = (s1, Inr ())" "mkdir_all out s1 = (s', Inl e)" "r = Inl e"
  | (convert_failed) s1 s2 s3 e where "removeConversionOutput out s = (s1, Inr ())" "mkdir_all out s1 = (s2, Inr ())"
      "m s2 = (s3, Inl e)" "s' = fst (removeConversionOutput out s3)" "r = Inl e"
  | (secure_failed) s1 s2 s3 s4 x e where "removeConversionOutput out s = (s1, Inr ())" "mkdir_all out s1 = (s2, Inr ())"
      "m s2 = (s3, Inr x)" "secureOutputPermissions out s3 = (s4, Inl e)"
      "s' = fst (removeConversionOutput out s4)" "r = Inl e"
  | (succeeded) s1 s2 s3 x where "removeConversionOutput out s = (s1, Inr ())" "mkdir_all out s1 = (s2, Inr ())"
      "m s2 = (s3, Inr x)" "secureOutputPermissions out s3 = (s', Inr ())" "r = Inr x"
  using assms unfolding withOutputDirectory_def
  by (auto split: prod.splits sum.splits)

lemma with_output_confined [step_rules]:
  assumes "confined out m"
  shows "confined out (withOutputDirectory out m)"
  unfolding confined_def
proof (intro allI impI)
  fix s s' r p assume w: "withOutputDirectory out m s = (s', r)" and n: "spared out p (node_at s p)"
  have rm: "removeConversionOutput out s1 = (s2, x) \<Longrightarrow> node_at s1 p = node_at s p \<Longrightarrow> node_at s2 p = node_at s p" for s1 s2 x
    using confined_spared [OF remove_output_confined] n by metis
  have mk: "mkdir_all out s1 = (s2, x) \<Longrightarrow> node_at s1 p = node_at s p \<Longrightarrow> node_at s2 p = node_at s p" for s1 s2 x
    using confined_spared [OF mkdir_confined] n by metis
  have cv: "m s1 = (s2, x) \<Longrightarrow> node_at s1 p = node_at s p \<Longrightarrow> node_at s2 p = node_at s p" for s1 s2 x
    using confined_spared [OF assms] n by metis
  have f: "node_at s1 p = node_at s p \<Longrightarrow> node_at (fst (removeConversionOutput out s1)) p = node_at s p" for s1
    using rm by (metis prod.collapse)
  from w show "node_at s' p = node_at s p"
    by (cases rule: with_output_cases) (auto intro!: f dest!: rm mk cv secure_frame [where p = p])
qed

lemma additiveD: "additive m \<Longrightarrow> m s = (s', r) \<Longrightarrow> rm_faults s' = rm_faults s"
  "additive m \<Longrightarrow> m s = (s', r) \<Longrightarrow> is_reg (node_at s p) \<Longrightarrow> is_reg (node_at s' p)"
  unfolding additive_def by blast+

lemma cleaned_mkdir:
  assumes "cleaned out s" and "mkdir_all out s = (s', Inl e)" and "manifest_at out \<noteq> out" and "out \<noteq> []"
  shows "cleaned out s'"
proof -
  have "\<not> below (manifest_at out) out"
    using assms(3,4) by (auto simp: below_def manifest_at_def)
  then show ?thesis using assms(1) mkdir_all_failed [OF assms(2)] mkdir_all_frame [OF assms(2)]
    by (simp add: cleaned_def)
qed

lemma with_output_fails:
  assumes "withOutputDirectory out m s = (s', Inl e)" and "rm_faults s = []" and "additive m"
    and "manifest_at out \<noteq> out" and "out \<noteq> []"
  shows "cleaned out s'"
proof -
  obtain s1 where r: "removeConversionOutput out s = (s1, Inr ())" "cleaned out s1" "rm_faults s1 = []"
    using remove_output_cleans [OF assms(2)] by blast
  have f: "cleaned out (fst (removeConversionOutput out t))" if "rm_faults t = []" for t
    using remove_output_cleans [OF that] by (metis fst_conv)
  from assms(1) show ?thesis
  proof (cases rule: with_output_cases)
    case (mkdir_failed t1 e1)
    then show ?thesis using r cleaned_mkdir [OF _ _ assms(4,5)] by simp
  next
    case (convert_failed t1 t2 t3 e1)
    then have "rm_faults t3 = []"
      using r rm_faults_same(1) [OF convert_failed(2)] additiveD(1) [OF assms(3) convert_failed(3)] by simp
    then show ?thesis using f convert_failed(4) by simp
  next
    case (secure_failed t1 t2 t3 t4 x e1)
    then have "rm_faults t4 = []"
      using r rm_faults_same(1) [OF secure_failed(2)] additiveD(1) [OF assms(3) secure_failed(3)]
        secure_frame [OF secure_failed(4)] by simp
    then show ?thesis using f secure_failed(5) by simp
  qed (use r in auto)
qed

section \<open>Failed conversions\<close>

definition quiet :: "(os \<Rightarrow> os \<times> 'a result) \<Rightarrow> bool" where
  "quiet m \<longleftrightarrow> (\<forall>s s' r. m s = (s', r) \<longrightarrow> rm_faults s' = rm_faults s \<and> (\<forall>p. node_at s' p = node_at s p))"

definition safe_failure :: "path \<Rightarrow> (os \<Rightarrow> os \<times> 'a result) \<Rightarrow> bool" where
  "safe_failure out m \<longleftrightarrow> (\<forall>s s' e. rm_faults s = [] \<longrightarrow> m s = (s', Inl e) \<longrightarrow>
     cleaned out s' \<or> (\<forall>p. node_at s' p = node_at s p))"

lemma quiet_confined: "quiet m \<Longrightarrow> confined out m"
  unfolding quiet_def confined_def by blast

lemma cleaned_cong: "(\<And>p. node_at s' p = node_at s p) \<Longrightarrow> cleaned out s' = cleaned out s"
  by (simp add: cleaned_def)

lemma quiet_read: "quiet (read_bytes E p)"
  by (auto simp: quiet_def read_bytes_def and_then_def returns_def read_file_frame rm_faults_same
      split: prod.splits sum.splits)

lemma quiet_extract: "quiet (extract_file E ex p)"
  using quiet_read [of E p] by (auto simp: quiet_def extract_file_def split: prod.splits)

lemma quiet_imageSize: "quiet (imageSize E p)"
  using quiet_read [of E p] by (fastforce simp: quiet_def imageSize_def and_then_def split: prod.splits sum.splits)

lemma quiet_poll_after: "quiet m \<Longrightarrow> quiet (poll_after m)"
  unfolding quiet_def poll_after_def
  by (auto split: prod.splits option.splits) (metis ctx_Err_frame)+

lemma safe_and_then: "quiet m \<Longrightarrow> (\<And>x. safe_failure out (k x)) \<Longrightarrow> safe_failure out (and_then m k)"
  unfolding quiet_def safe_failure_def and_then_def
  by (auto split: prod.splits sum.splits) metis+

lemma safe_unless_cancelled: "safe_failure out m \<Longrightarrow> safe_failure out (unless_cancelled m)"
  unfolding safe_failure_def unless_cancelled_def
  by (auto split: prod.splits option.splits) (metis ctx_Err_frame)+

lemma safe_fails: "safe_failure out (fails e)"
  by (simp add: safe_failure_def fails_def)

lemma safe_with_output:
  "additive m \<Longrightarrow> manifest_at out \<noteq> out \<Longrightarrow> out \<noteq> [] \<Longrightarrow> safe_failure out (withOutputDirectory out m)"
  unfolding safe_failure_def using with_output_fails by blast

text \<open>Whatever it does, \<open>m\<close> does not use up the removals that work.\<close>

definition keeps_rm :: "(os \<Rightarrow> os \<times> 'a result) \<Rightarrow> bool" where
  "keeps_rm m \<longleftrightarrow> (\<forall>s s' r. rm_faults s = [] \<longrightarrow> m s = (s', r) \<longrightarrow> rm_faults s' = [])"

lemma keeps_rm_with_output:
  assumes "additive m"
  shows "keeps_rm (withOutputDirectory out m)"
  unfolding keeps_rm_def
proof (intro allI impI)
  fix s s' r assume f: "rm_faults s = []" and w: "withOutputDirectory out m s = (s', r)"
  obtain s1 where r: "removeConversionOutput out s = (s1, Inr ())" "rm_faults s1 = []"
    using remove_output_cleans [OF f] by blast
  have g: "rm_faults (fst (removeConversionOutput out t)) = []" if "rm_faults t = []" for t
    using remove_output_cleans [OF that] by (metis fst_conv)
  note add = additiveD(1) [OF assms]
  from w show "rm_faults s' = []"
  proof (cases rule: with_output_cases)
    case (mkdir_failed t1 e)
    then show ?thesis using r rm_faults_same(1) [OF mkdir_failed(2)] by simp
  next
    case (convert_failed t1 t2 t3 e)
    then show ?thesis using r rm_faults_same(1) [OF convert_failed(2)] add [OF convert_failed(3)] g by simp
  next
    case (secure_failed t1 t2 t3 t4 x e)
    then show ?thesis using r rm_faults_same(1) [OF secure_failed(2)] add [OF secure_failed(3)]
        secure_frame [OF secure_failed(4)] g by simp
  next
    case (succeeded t1 t2 t3 x)
    then show ?thesis using r rm_faults_same(1) [OF succeeded(2)] add [OF succeeded(3)]
        secure_frame [OF succeeded(4)] by simp
  qed (use r in auto)
qed

lemma safe_cancelled_after:
  assumes "safe_failure out m" and "keeps_rm m"
  shows "safe_failure out (\<lambda>s. cancelled_after out (m s))"
  unfolding safe_failure_def
proof (intro allI impI)
  fix s s' e assume f: "rm_faults s = []" and c: "cancelled_after out (m s) = (s', Inl e)"
  obtain s1 r where m: "m s = (s1, r)" by fastforce
  obtain s2 ce where p: "ctx_Err s1 = (s2, ce)" by fastforce
  have f2: "rm_faults s2 = []" and n: "\<And>p. node_at s2 p = node_at s1 p"
    using ctx_Err_frame [OF p] assms(2) f m unfolding keeps_rm_def by metis+
  show "cleaned out s' \<or> (\<forall>p. node_at s' p = node_at s p)"
  proof (cases ce)
    case None
    then have "s' = s2" "r = Inl e" using c m p by (simp_all add: cancelled_after_def)
    then have "cleaned out s1 \<or> (\<forall>p. node_at s1 p = node_at s p)"
      using assms(1) f m unfolding safe_failure_def by blast
    then show ?thesis using n \<open>s' = s2\<close> cleaned_cong [of s2 s1] by simp
  next
    case (Some x)
    then have "s' = fst (removeConversionOutput out s2)" using c m p by (simp add: cancelled_after_def)
    then show ?thesis using remove_output_cleans [OF f2, of out] by auto
  qed
qed

lemma confined_cancelled_after:
  assumes "confined out m"
  shows "confined out (\<lambda>s. cancelled_after out (m s))"
  unfolding confined_def
proof (intro allI impI)
  fix s s' r p assume c: "cancelled_after out (m s) = (s', r)" and n: "spared out p (node_at s p)"
  obtain s1 r1 where m: "m s = (s1, r1)" by fastforce
  obtain s2 ce where q: "ctx_Err s1 = (s2, ce)" by fastforce
  have "node_at s1 p = node_at s p" by (rule confined_spared [OF assms m n])
  then have 2: "node_at s2 p = node_at s p" using ctx_Err_frame [OF q] by simp
  then have "node_at (fst (removeConversionOutput out s2)) p = node_at s2 p"
    using confined_spared [OF remove_output_confined prod.collapse [symmetric]] n by metis
  then show "node_at s' p = node_at s p"
    using c m q 2 by (cases ce) (auto simp: cancelled_after_def)
qed

lemma confined_unless_cancelled: "confined out m \<Longrightarrow> confined out (unless_cancelled m)"
  unfolding confined_def unless_cancelled_def
  by (auto split: prod.splits option.splits) (metis ctx_Err_frame)+

section \<open>Successful conversions\<close>

definition triple :: "(os \<Rightarrow> bool) \<Rightarrow> (os \<Rightarrow> os \<times> 'a result) \<Rightarrow> ('a \<Rightarrow> os \<Rightarrow> bool) \<Rightarrow> bool" where
  "triple P m Q \<longleftrightarrow> (\<forall>s s' x. P s \<longrightarrow> m s = (s', Inr x) \<longrightarrow> Q x s')"

lemma triple_and_then: "triple P m Q \<Longrightarrow> (\<And>x. triple (Q x) (k x) R) \<Longrightarrow> triple P (and_then m k) R"
  unfolding triple_def and_then_def by (auto split: prod.splits sum.splits)

lemma triple_returns: "(\<And>s. P s \<Longrightarrow> Q x s) \<Longrightarrow> triple P (returns x) Q"
  by (simp add: triple_def returns_def)

lemma triple_any: "triple P m (\<lambda>_ _. True)"
  by (simp add: triple_def)

definition part_present :: "path \<Rightarrow> os \<Rightarrow> ManifestPart \<Rightarrow> bool" where
  "part_present out s part \<longleftrightarrow> (TextPath part \<noteq> [] \<longrightarrow> is_reg (node_at s (out @ [TextPath part]))) \<and>
     (\<forall>n. ImagePath part = Some n \<longrightarrow> is_reg (node_at s (out @ [n])))"

definition all_present :: "path \<Rightarrow> ManifestPart list \<Rightarrow> os \<Rightarrow> bool" where
  "all_present out parts s \<longleftrightarrow> (\<forall>part \<in> set parts. part_present out s part)"

definition published :: "path \<Rightarrow> path \<Rightarrow> Result \<Rightarrow> os \<Rightarrow> bool" where
  "published source out res s \<longleftrightarrow>
     node_at s (manifest_at out) = Some (Reg (Encoded (manifest_json (ResultManifest res)))) \<and>
     Documents (ResultManifest res) = [\<lparr>Name = base_name source, Parts = Artifacts res\<rparr>] \<and>
     all_present out (Artifacts res) s"

lemma reg_frame: "additive m \<Longrightarrow> triple (\<lambda>s. \<forall>p \<in> A. is_reg (node_at s p)) m (\<lambda>_ s. \<forall>p \<in> A. is_reg (node_at s p))"
  unfolding triple_def using additiveD(2) by blast

lemma present_frame: "additive m \<Longrightarrow> m s = (s', r) \<Longrightarrow> part_present out s part \<Longrightarrow> part_present out s' part"
  unfolding part_present_def using additiveD(2) by blast

lemma all_present_frame: "additive m \<Longrightarrow> m s = (s', r) \<Longrightarrow> all_present out parts s \<Longrightarrow> all_present out parts s'"
  unfolding all_present_def using present_frame by blast

lemma text_parts_present: "triple P (write_text_parts out n texts) (\<lambda>parts s. all_present out parts s)"
proof (induction texts arbitrary: n P)
  case Nil
  then show ?case by (simp add: triple_def returns_def all_present_def)
next
  case (Cons t texts)
  let ?name = "''part-'' @ pad4 n @ ''.txt''"
  have 1: "triple P (write_file (out @ [?name]) (Raw t)) (\<lambda>_ s. is_reg (node_at s (out @ [?name])))"
    by (auto simp: triple_def is_reg_def dest: write_file_wrote)
  have 2: "triple (\<lambda>s. is_reg (node_at s (out @ [?name]))) (write_text_parts out (Suc n) texts)
      (\<lambda>parts s. all_present out parts s \<and> is_reg (node_at s (out @ [?name])))"
    using Cons.IH [of "\<lambda>_. True"] text_parts_steps(2) [of out "Suc n" texts] additiveD(2)
    unfolding triple_def by blast
  show ?case unfolding write_text_parts.simps Let_def
    by (rule triple_and_then [OF 1 triple_and_then [OF 2 triple_returns]])
      (auto simp: all_present_def part_present_def text_part_def)
qed

lemma writeResult_published:
  "triple (all_present out parts) (writeResult E source out mt parts) (published source out)"
  unfolding triple_def
proof (intro allI impI)
  fix s s' x assume p: "all_present out parts s" and w: "writeResult E source out mt parts s = (s', Inr x)"
  have "all_present out parts s'" by (rule all_present_frame [OF writeResult_steps(2) w p])
  moreover obtain digest s1 where "hashFile E source s = (s1, Inr digest)"
      and "write_file (manifest_at out) (Encoded (manifest_json (newManifest source mt digest parts))) s1 = (s', Inr ())"
      and "x = \<lparr>ResultManifest = newManifest source mt digest parts, Artifacts = parts,
        ResultWarnings = Warnings (newManifest source mt digest parts)\<rparr>"
    using w by (auto simp: writeResult_def and_then_def returns_def Let_def split: prod.splits sum.splits)
  ultimately show "published source out x s'"
    using write_file_wrote by (fastforce simp: published_def newManifest_def)
qed

lemma with_output_published:
  assumes "triple (\<lambda>_. True) m (published source out)"
  shows "triple P (withOutputDirectory out m) (published source out)"
  unfolding triple_def
proof (intro allI impI)
  fix s s' x assume "withOutputDirectory out m s = (s', Inr x)"
  then show "published source out x s'"
  proof (cases rule: with_output_cases)
    case (succeeded s1 s2 s3 y)
    then have "published source out x s3" using assms unfolding triple_def by blast
    then show ?thesis using secure_frame [OF succeeded(4)]
      by (simp add: published_def all_present_def part_present_def)
  qed auto
qed

lemma published_cong: "(\<And>p. node_at s' p = node_at s p) \<Longrightarrow> published source out x s' = published source out x s"
  by (simp add: published_def all_present_def part_present_def)

lemma cancelled_after_published:
  assumes "triple P m (published source out)"
  shows "triple P (\<lambda>s. cancelled_after out (m s)) (published source out)"
  unfolding triple_def
proof (intro allI impI)
  fix s s' x assume P: "P s" and c: "cancelled_after out (m s) = (s', Inr x)"
  obtain s1 r where m: "m s = (s1, r)" by fastforce
  obtain s2 ce where q: "ctx_Err s1 = (s2, ce)" by fastforce
  have "ce = None" "s' = s2" "r = Inr x" using c m q by (cases ce; simp add: cancelled_after_def)+
  then have "published source out x s1" using assms P m unfolding triple_def by blast
  then show "published source out x s'"
    using ctx_Err_frame [OF q] published_cong [of s2 s1] \<open>s' = s2\<close> by simp
qed

lemma unless_cancelled_triple: "triple (\<lambda>_. True) m Q \<Longrightarrow> triple P (unless_cancelled m) Q"
  unfolding triple_def unless_cancelled_def by (auto split: prod.splits option.splits)

end
