(* ===== verification/Conversion_Contract.thy ===== *)
theory Conversion_Contract
  imports Converter_Correct
begin

text \<open>
  The contract of a converter as a locale, its interpretations by the converters of the repository, and
  the theorems about the dispatcher, the registry, the manifest and the limits.
\<close>

section \<open>The contract\<close>

locale document_converter =
  fixes convert :: "path \<Rightarrow> path \<Rightarrow> Options \<Rightarrow> os \<Rightarrow> os \<times> Result result"
  assumes convert_confined: "confined out (convert source out options)"
    and convert_fails: "out \<noteq> [] \<Longrightarrow> manifest_at out \<noteq> out \<Longrightarrow> safe_failure out (convert source out options)"
    and convert_publishes: "triple (\<lambda>_. True) (convert source out options) (published source out)"
    and convert_keeps: "keeps_rm (convert source out options)"
begin

text \<open>A conversion that starts without output ends with complete output or with none.\<close>

lemma all_or_nothing:
  assumes "out \<noteq> []" and "manifest_at out \<noteq> out" and "rm_faults s = []" and "cleaned out s"
    and "convert source out options s = (s', r)"
  shows "case r of Inl e \<Rightarrow> cleaned out s' | Inr res \<Rightarrow> published source out res s'"
proof (cases r)
  case (Inl e)
  then have "cleaned out s' \<or> (\<forall>p. node_at s' p = node_at s p)"
    using convert_fails [OF assms(1,2)] assms(3,5) unfolding safe_failure_def by blast
  then show ?thesis using assms(4) cleaned_cong [of s' s out] Inl by auto
next
  case (Inr res)
  then show ?thesis using convert_publishes assms(5) unfolding triple_def by auto
qed

lemma leaves_rest: "convert source out options s = (s', r) \<Longrightarrow> spared out p (node_at s p) \<Longrightarrow> node_at s' p = node_at s p"
  by (rule confined_spared [OF convert_confined])

end

lemma triple_fails: "triple P (fails e) Q" and keeps_rm_fails: "keeps_rm (fails e)"
  by (simp_all add: triple_def keeps_rm_def fails_def)

lemma keeps_rmD: "keeps_rm m \<Longrightarrow> rm_faults s = [] \<Longrightarrow> m s = (s', r) \<Longrightarrow> rm_faults s' = []"
  unfolding keeps_rm_def by blast

lemma keeps_rmI: "(\<And>s s' r. rm_faults s = [] \<Longrightarrow> m s = (s', r) \<Longrightarrow> rm_faults s' = []) \<Longrightarrow> keeps_rm m"
  unfolding keeps_rm_def by blast

lemma keeps_rm_and_then:
  assumes "keeps_rm m" and "\<And>x. keeps_rm (k x)"
  shows "keeps_rm (and_then m k)"
proof (rule keeps_rmI)
  fix s s' r
  assume s: "rm_faults s = []" and run: "and_then m k s = (s', r)"
  obtain s1 r1 where 1: "m s = (s1, r1)" by (cases "m s")
  note s1 = keeps_rmD [OF assms(1) s 1]
  show "rm_faults s' = []"
  proof (cases r1)
    case (Inl e)
    then show ?thesis using run 1 s1 by (simp add: and_then_def)
  next
    case (Inr x)
    then have "k x s1 = (s', r)" using run 1 by (simp add: and_then_def)
    then show ?thesis by (rule keeps_rmD [OF assms(2) s1])
  qed
qed

lemma keeps_rm_quiet: "quiet m \<Longrightarrow> keeps_rm m"
  by (simp add: keeps_rm_def quiet_def)

lemma keeps_rm_unless_cancelled:
  assumes "keeps_rm m"
  shows "keeps_rm (unless_cancelled m)"
proof (rule keeps_rmI)
  fix s s' r
  assume s: "rm_faults s = []" and run: "unless_cancelled m s = (s', r)"
  obtain s1 e where 1: "ctx_Err s = (s1, e)" by (cases "ctx_Err s")
  have s1: "rm_faults s1 = []" using ctx_Err_frame [OF 1] s by simp
  show "rm_faults s' = []"
  proof (cases e)
    case None
    then have "m s1 = (s', r)" using run 1 by (simp add: unless_cancelled_def)
    then show ?thesis by (rule keeps_rmD [OF assms s1])
  next
    case (Some c)
    then show ?thesis using run 1 s1 by (simp add: unless_cancelled_def)
  qed
qed

lemma keeps_rm_cancelled_after:
  assumes "keeps_rm m"
  shows "keeps_rm (\<lambda>s. cancelled_after out (m s))"
  unfolding keeps_rm_def
proof (intro allI impI)
  fix s s' r assume f: "rm_faults s = []" and c: "cancelled_after out (m s) = (s', r)"
  obtain s1 r1 where m: "m s = (s1, r1)" by (cases "m s")
  obtain s2 e where p: "ctx_Err s1 = (s2, e)" by (cases "ctx_Err s1")
  have "rm_faults s2 = []" using assms f m ctx_Err_frame [OF p] unfolding keeps_rm_def by metis
  then show "rm_faults s' = []" using c m p remove_output_cleans [of s2 out]
    by (auto simp: cancelled_after_def split: option.splits prod.splits)
qed

lemma convertTextDocument_steps:
  "confined out (convertTextDocument E source out mt ts options)"
  "out \<noteq> [] \<Longrightarrow> manifest_at out \<noteq> out \<Longrightarrow> safe_failure out (convertTextDocument E source out mt ts options)"
  "triple P (convertTextDocument E source out mt ts options) (published source out)"
  "keeps_rm (convertTextDocument E source out mt ts options)"
proof -
  let ?m = "and_then (write_text_parts out 1 ts) (writeResult E source out mt)"
  have a: "additive ?m" and c: "confined out ?m" by (intro step_rules)+
  have t: "triple (\<lambda>_. True) ?m (published source out)"
    by (rule triple_and_then [OF text_parts_present writeResult_published])
  show "confined out (convertTextDocument E source out mt ts options)"
    unfolding convertTextDocument_def using with_output_confined [OF c]
    by (cases "validateTextLimit ts (MaxTextChars options)") (simp_all add: step_rules)
  show "safe_failure out (convertTextDocument E source out mt ts options)" if "out \<noteq> []" "manifest_at out \<noteq> out"
    unfolding convertTextDocument_def using safe_with_output [OF a that(2,1)]
    by (cases "validateTextLimit ts (MaxTextChars options)") (simp_all add: safe_fails)
  show "triple P (convertTextDocument E source out mt ts options) (published source out)"
    unfolding convertTextDocument_def using with_output_published [OF t]
    by (cases "validateTextLimit ts (MaxTextChars options)") (simp_all add: triple_fails)
  show "keeps_rm (convertTextDocument E source out mt ts options)"
    unfolding convertTextDocument_def using keeps_rm_with_output [OF a]
    by (cases "validateTextLimit ts (MaxTextChars options)") (simp_all add: keeps_rm_fails)
qed

interpretation text_conversion:
  document_converter "\<lambda>source out. convertExtractedText E source out mt ex" for E mt ex
proof
  note q = quiet_poll_after [OF quiet_extract]
  show "confined out (convertExtractedText E source out mt ex options)" for out source options
    unfolding convertExtractedText_def
    by (intro confined_unless_cancelled confined_and_then quiet_confined [OF q] confined_cancelled_after
        convertTextDocument_steps)
  show "safe_failure out (convertExtractedText E source out mt ex options)"
    if "out \<noteq> []" "manifest_at out \<noteq> out" for out source options
    unfolding convertExtractedText_def
    by (intro safe_unless_cancelled safe_and_then q safe_cancelled_after convertTextDocument_steps that)
  show "triple (\<lambda>_. True) (convertExtractedText E source out mt ex options) (published source out)"
    for out source options
    unfolding convertExtractedText_def
    by (intro unless_cancelled_triple triple_and_then [OF triple_any] cancelled_after_published
        convertTextDocument_steps)
  show "keeps_rm (convertExtractedText E source out mt ex options)" for out source options
    unfolding convertExtractedText_def
    by (intro keeps_rm_unless_cancelled keeps_rm_and_then keeps_rm_quiet [OF q] keeps_rm_cancelled_after
        convertTextDocument_steps)
qed

lemma convertImageDocument_steps:
  "confined out (convertImageDocument E source out mt w h)"
  "out \<noteq> [] \<Longrightarrow> manifest_at out \<noteq> out \<Longrightarrow> safe_failure out (convertImageDocument E source out mt w h)"
  "triple P (convertImageDocument E source out mt w h) (published source out)"
  "keeps_rm (convertImageDocument E source out mt w h)"
proof -
  let ?i = "''image-0001'' @ to_lower (uni_lower E) (path_ext (base_name source))"
  let ?part = "\<lambda>digest. \<lparr>PartNumber = 1, PageNumber = None, TextPath = ''part-0001.txt'', ImagePath = Some ?i,
             Width = Some w, Height = Some h, PartMediaType = Some mt, PartSHA256 = Some digest\<rparr>"
  let ?m = "and_then (copyFile source (out @ [?i])) (\<lambda>_.
         and_then (write_file (out @ [''part-0001.txt'']) (Raw [])) (\<lambda>_.
         and_then (hashFile E (out @ [?i])) (\<lambda>digest. writeResult E source out mt [?part digest])))"
  have d: "convertImageDocument E source out mt w h = withOutputDirectory out ?m"
    by (simp add: convertImageDocument_def Let_def)
  have a: "additive ?m" by (intro step_rules)
  have c: "confined out ?m" by (intro step_rules owned_child)
  let ?A = "\<lambda>s. is_reg (node_at s (out @ [?i]))"
  let ?B = "\<lambda>s. ?A s \<and> is_reg (node_at s (out @ [''part-0001.txt'']))"
  have 1: "triple (\<lambda>_. True) (copyFile source (out @ [?i])) (\<lambda>_. ?A)"
    unfolding copyFile_def
    by (rule triple_and_then [OF triple_any]) (auto simp: triple_def is_reg_def dest: write_file_wrote)
  have 2: "triple ?A (write_file (out @ [''part-0001.txt'']) (Raw [])) (\<lambda>_. ?B)"
    unfolding triple_def
  proof (intro allI impI)
    fix s s' and x :: unit assume r: "?A s" and w: "write_file (out @ [''part-0001.txt'']) (Raw []) s = (s', Inr x)"
    have "?A s'" by (rule additiveD(2) [OF write_steps(2) w r])
    moreover have "is_reg (node_at s' (out @ [''part-0001.txt'']))"
      using write_file_wrote w unfolding is_reg_def by simp
    ultimately show "?B s'" by blast
  qed
  have 3: "triple ?B (hashFile E (out @ [?i])) (\<lambda>digest. all_present out [?part digest])"
    unfolding triple_def
  proof (intro allI impI)
    fix s s' digest assume b: "?B s" and h: "hashFile E (out @ [?i]) s = (s', Inr digest)"
    then have "?B s'" using additiveD(2) [OF hash_steps(2) h] by blast
    then show "all_present out [?part digest] s'" by (simp add: all_present_def part_present_def)
  qed
  have t: "triple (\<lambda>_. True) ?m (published source out)"
    by (rule triple_and_then [OF 1 triple_and_then [OF 2 triple_and_then [OF 3 writeResult_published]]])
  show "confined out (convertImageDocument E source out mt w h)" unfolding d by (rule with_output_confined [OF c])
  show "out \<noteq> [] \<Longrightarrow> manifest_at out \<noteq> out \<Longrightarrow> safe_failure out (convertImageDocument E source out mt w h)"
    unfolding d by (rule safe_with_output [OF a])
  show "triple P (convertImageDocument E source out mt w h) (published source out)"
    unfolding d by (rule with_output_published [OF t])
  show "keeps_rm (convertImageDocument E source out mt w h)" unfolding d by (rule keeps_rm_with_output [OF a])
qed

interpretation image_conversion: document_converter "\<lambda>source out _. convertImage E source out mt" for E mt
proof
  note q = quiet_poll_after [OF quiet_imageSize]
  show "confined out (convertImage E source out mt)" for out source
    unfolding convertImage_def
    by (intro confined_unless_cancelled confined_and_then quiet_confined [OF q])
      (auto intro!: confined_cancelled_after convertImageDocument_steps split: prod.split)
  show "safe_failure out (convertImage E source out mt)"
    if "out \<noteq> []" "manifest_at out \<noteq> out" for out source
    unfolding convertImage_def
    by (intro safe_unless_cancelled safe_and_then q)
      (auto intro!: safe_cancelled_after convertImageDocument_steps that split: prod.split)
  show "triple (\<lambda>_. True) (convertImage E source out mt) (published source out)" for out source
    unfolding convertImage_def
    by (intro unless_cancelled_triple triple_and_then [OF triple_any])
      (auto intro!: cancelled_after_published convertImageDocument_steps split: prod.split)
  show "keeps_rm (convertImage E source out mt)" for out source
    unfolding convertImage_def
    by (intro keeps_rm_unless_cancelled keeps_rm_and_then keeps_rm_quiet [OF q])
      (auto intro!: keeps_rm_cancelled_after convertImageDocument_steps split: prod.split)
qed

section \<open>The renderer\<close>

text \<open>What the converters rely on of the renderer library: it only writes below its output directory (and may
  make the directories above it), it removes no file, and the images it returns are files of that directory; text extraction writes nothing
  there that is not below it either.\<close>

definition renderer_ok :: "env \<Rightarrow> bool" where
  "renderer_ok E \<longleftrightarrow>
     (\<forall>source out ro. confined out (RenderDocument E source out ro) \<and> additive (RenderDocument E source out ro)
       \<and> triple (\<lambda>_. True) (RenderDocument E source out ro)
           (\<lambda>images s. \<forall>page \<in> set images. \<exists>name. img_Path page = out @ [name] \<and> is_reg (node_at s (img_Path page)))) \<and>
     (\<forall>source eo out. confined out (ExtractDocument E source eo) \<and> additive (ExtractDocument E source eo))"

lemma triple_map_error: "triple P m Q \<Longrightarrow> triple P (map_error f m) Q"
  unfolding triple_def map_error_def by (auto split: prod.splits sum.splits)

definition pages_on_disk :: "path \<Rightarrow> renderedImage list \<Rightarrow> os \<Rightarrow> bool" where
  "pages_on_disk out images s \<longleftrightarrow>
     (\<forall>page \<in> set images. \<exists>name. img_Path page = out @ [name] \<and> is_reg (node_at s (img_Path page)))"

lemma pages_frame: "additive m \<Longrightarrow> m s = (s', r) \<Longrightarrow> pages_on_disk out images s \<Longrightarrow> pages_on_disk out images s'"
  unfolding pages_on_disk_def using additiveD(2) by metis

lemma pages_present:
  "triple (pages_on_disk out images) (write_pages E out fmt ex n images) (\<lambda>parts s. all_present out parts s)"
proof (induction images arbitrary: n)
  case Nil
  then show ?case by (simp add: triple_def returns_def all_present_def)
next
  case (Cons page pages)
  let ?i = "base_name (img_Path page)"
  let ?t = "case ex of None \<Rightarrow> [] | Some _ \<Rightarrow> trim_suffix ?i (path_ext ?i) @ ''.txt''"
  let ?w = "case ex of None \<Rightarrow> returns () | Some parts \<Rightarrow> write_file (out @ [?t])
     (Raw (case map_of parts (img_PageNumber page) of Some t \<Rightarrow> t | None \<Rightarrow> []))"
  let ?P = "\<lambda>s. pages_on_disk out pages s \<and> is_reg (node_at s (out @ [?i])) \<and> (?t \<noteq> [] \<longrightarrow> is_reg (node_at s (out @ [?t])))"
  let ?Q = "\<lambda>s. is_reg (node_at s (out @ [?i])) \<and> (?t \<noteq> [] \<longrightarrow> is_reg (node_at s (out @ [?t])))"
  have w: "additive ?w" by (cases ex) (auto intro: step_rules)
  have 1: "triple (pages_on_disk out (page # pages)) ?w (\<lambda>_. ?P)"
    unfolding triple_def
  proof (intro allI impI)
    fix s s' and x :: unit assume p: "pages_on_disk out (page # pages) s" and m: "?w s = (s', Inr x)"
    have p': "pages_on_disk out (page # pages) s'" by (rule pages_frame [OF w m p])
    have "is_reg (node_at s' (out @ [?t]))" if "?t \<noteq> []"
      using m that by (cases ex) (auto simp: is_reg_def dest: write_file_wrote)
    then show "?P s'" using p' by (auto simp: pages_on_disk_def base_name_def)
  qed
  have 2: "triple ?P (hashFile E (img_Path page)) (\<lambda>_. ?P)"
    unfolding triple_def using pages_frame [OF hash_steps(2)] additiveD(2) [OF hash_steps(2)] by blast
  have 3: "triple ?P (write_pages E out fmt ex (Suc n) pages) (\<lambda>parts s. all_present out parts s \<and> ?Q s)"
    unfolding triple_def
    using Cons.IH [of "Suc n", unfolded triple_def] additiveD(2) [OF pages_steps(2)] by blast
  show ?case unfolding write_pages.simps Let_def
    by (rule triple_and_then [OF 1 triple_and_then [OF 2 triple_and_then [OF 3 triple_returns]]])
      (auto simp: all_present_def part_present_def)
qed

lemma rendered_conversion:
  assumes "renderer_ok E"
  shows "document_converter (\<lambda>source out. convertRenderedDocument E source out mt config)"
proof
  fix out source :: path and options :: Options
  let ?render = "map_error (\<lambda>e. mapRendererError e (MaxPages options))
    (RenderDocument E source out \<lparr>ro_config = config, ro_MaxPages = MaxPages options\<rparr>)"
  let ?extraction = "if DisableTextExtraction options then returns None
         else map_error (\<lambda>e. mapRendererError e (MaxPages options))
           (and_then (ExtractDocument E source
             \<lparr>eo_MaxCharacters = MaxTextChars options, eo_LibreOfficeTimeout = LibreOfficeTimeout config,
              eo_MaxPDFBytes = MaxPDFBytes config, eo_MaxOOXMLMembers = MaxOOXMLMembers config,
              eo_MaxOOXMLMemberBytes = MaxOOXMLMemberBytes config,
              eo_MaxOOXMLTotalBytes = MaxOOXMLTotalBytes config\<rparr>) (\<lambda>parts. returns (Some parts)))"
  let ?m = "and_then ?render (\<lambda>images. and_then ?extraction (\<lambda>extracted.
      and_then (write_pages E out (ImageFormat config) extracted 1 images) (writeResult E source out mt)))"
  have d: "convertRenderedDocument E source out mt config options = withOutputDirectory out ?m"
    by (simp add: convertRenderedDocument_def)
  note ok = assms [unfolded renderer_ok_def]
  have rc: "confined out ?render" and ra: "additive ?render" using ok by (blast intro: step_rules)+
  have ec: "confined out ?extraction" using ok by (auto intro!: step_rules)
  have ea: "additive ?extraction" using ok by (auto intro!: step_rules)
  have c: "confined out ?m" and a: "additive ?m" by (intro step_rules rc ra ec ea)+
  have 1: "triple (\<lambda>_. True) ?render (\<lambda>images. pages_on_disk out images)"
    using ok unfolding pages_on_disk_def by (intro triple_map_error) blast
  have 2: "triple (pages_on_disk out images) ?extraction (\<lambda>_. pages_on_disk out images)" for images
    unfolding triple_def using pages_frame [OF ea] by blast
  have t: "triple (\<lambda>_. True) ?m (published source out)"
    by (rule triple_and_then [OF 1 triple_and_then [OF 2 triple_and_then [OF pages_present writeResult_published]]])
  show "confined out (convertRenderedDocument E source out mt config options)"
    unfolding d by (rule with_output_confined [OF c])
  show "out \<noteq> [] \<Longrightarrow> manifest_at out \<noteq> out \<Longrightarrow>
      safe_failure out (convertRenderedDocument E source out mt config options)"
    unfolding d by (rule safe_with_output [OF a])
  show "triple (\<lambda>_. True) (convertRenderedDocument E source out mt config options) (published source out)"
    unfolding d by (rule with_output_published [OF t])
  show "keeps_rm (convertRenderedDocument E source out mt config options)"
    unfolding d by (rule keeps_rm_with_output [OF a])
qed

section \<open>The dispatcher of the gateway\<close>

text \<open>What the dispatcher of the in-tree registry resolves to.\<close>

lemma resolved_cases:
  assumes "ResolveConverter E (NewDispatcher E (NewInTreeRegistry E) config) p = Inr c"
  obtains ext mt ex where "c = newTextConverter E ext mt ex"
    | ext mt sigs where "c = rendered E ext mt sigs config"
    | ext mt format where "c = imaged E ext mt format"
proof -
  let ?d = "NewDispatcher E (NewInTreeRegistry E) config"
  consider "c = disp_fallback ?d" | f ext where "(ext, f) \<in> set (NewInTreeRegistry E)" "f config = Inr c"
    using assms by (auto simp: ResolveConverter_def ForPath_def registry_Converter_def NewDispatcher_def Let_def
        split: sum.splits option.splits if_splits dest: map_of_SomeD)
  then show thesis
    using that
    by cases (auto simp: NewDispatcher_def NewInTreeRegistry_def Let_def ConverterAdapter_def pdfConverter_def
      docConverter_def docxConverter_def pptConverter_def pptxConverter_def xlsConverter_def xlsxConverter_def
      xlsmConverter_def jpgConverter_def jpegConverter_def pngConverter_def)
qed

lemma resolve_contract:
  assumes "renderer_ok E" and "ResolveConverter E (NewDispatcher E (NewInTreeRegistry E) config) p = Inr c"
  shows "document_converter (Convert c)"
  using assms(2) rendered_conversion [OF assms(1)] text_conversion.document_converter_axioms
    image_conversion.document_converter_axioms
  by (cases rule: resolved_cases) (simp_all add: newTextConverter_def rendered_def imaged_def)

text \<open>C16. A conversion is all or nothing. Whatever converter the dispatcher picks for a file name,
  and whichever of its file operations fail or wherever it is cancelled, a conversion that starts
  without output ends without output when it fails and, when it succeeds, with the manifest and every
  text and image file that the manifest names; and it changes nothing outside its output directory and its
  manifest, except for directories above them that it has to make.\<close>

theorem conversion_all_or_nothing:
  assumes "renderer_ok E"
    and "ResolveConverter E (NewDispatcher E (NewInTreeRegistry E) config) p = Inr c"
    and "rm_faults s = []" and "cleaned (dir @ [''derived'']) s"
    and "Convert c source (dir @ [''derived'']) options s = (s', r)"
  shows "(case r of Inl e \<Rightarrow> cleaned (dir @ [''derived'']) s' | Inr res \<Rightarrow> published source (dir @ [''derived'']) res s')
    \<and> (\<forall>q. spared (dir @ [''derived'']) q (node_at s q) \<longrightarrow> node_at s' q = node_at s q)"
proof -
  note contract = resolve_contract [OF assms(1,2)]
  have "manifest_at (dir @ [''derived'']) \<noteq> dir @ [''derived'']" by (simp add: manifest_at_def)
  then show ?thesis
    using document_converter.all_or_nothing [OF contract _ _ assms(3,4,5)]
      document_converter.leaves_rest [OF contract assms(5)] by blast
qed

section \<open>The dispatcher\<close>

lemma in_tree_total: "(ext, f) \<in> set (NewInTreeRegistry E) \<Longrightarrow> \<exists>c. f config = Inr c \<and> Extension c = ext"
  by (auto simp: NewInTreeRegistry_def Let_def ConverterAdapter_def rendered_def imaged_def newTextConverter_def
      pdfConverter_def docConverter_def docxConverter_def pptConverter_def pptxConverter_def xlsConverter_def
      xlsxConverter_def xlsmConverter_def jpgConverter_def jpegConverter_def pngConverter_def)

lemma in_tree_no_empty: "map_of (NewInTreeRegistry E) [] = None"
  by (simp add: NewInTreeRegistry_def Let_def)

text \<open>The dispatcher of the gateway never fails: a name whose extension, in lower case, is one of
  the registered ones gets the converter of that extension, any other name the plain-text one.\<close>

lemma dispatcher_total:
  "\<exists>c. ResolveConverter E (NewDispatcher E (NewInTreeRegistry E) config) p = Inr c
     \<and> Extension c = (let ext = to_lower (uni_lower E) (path_ext p)
                      in if ext \<in> set (Extensions (NewInTreeRegistry E)) then ext else [])"
proof (cases "map_of (NewInTreeRegistry E) (to_lower (uni_lower E) (path_ext p))")
  case None
  then have "to_lower (uni_lower E) (path_ext p) \<notin> set (Extensions (NewInTreeRegistry E))"
    by (simp add: Extensions_def map_of_eq_None_iff)
  moreover have "ResolveConverter E (NewDispatcher E (NewInTreeRegistry E) config) p
      = Inr (newTextConverter E [] ''text/plain'' PlainText)"
    using None by (simp add: ResolveConverter_def ForPath_def registry_Converter_def NewDispatcher_def Let_def err_is_def)
  ultimately show ?thesis by (simp add: newTextConverter_def Let_def)
next
  case (Some f)
  then have m: "(to_lower (uni_lower E) (path_ext p), f) \<in> set (NewInTreeRegistry E)" by (rule map_of_SomeD)
  obtain c where c: "f config = Inr c" "Extension c = to_lower (uni_lower E) (path_ext p)"
    using in_tree_total [OF m] by blast
  have "to_lower (uni_lower E) (path_ext p) \<in> set (Extensions (NewInTreeRegistry E))"
    using m by (force simp: Extensions_def)
  moreover have "ResolveConverter E (NewDispatcher E (NewInTreeRegistry E) config) p = Inr c"
    using Some c by (simp add: ResolveConverter_def ForPath_def registry_Converter_def NewDispatcher_def Let_def)
  ultimately show ?thesis using c by (simp add: Let_def)
qed

lemma Register_Inr:
  "Register E reg ext (Some f) = Inr reg' \<longleftrightarrow> (let k = to_lower (uni_lower E) ext in
     has_prefix k ''.'' \<and> k \<noteq> [] \<and> map_of reg k = None \<and> reg' = (k, f) # reg)"
  by (auto simp: Register_def Let_def split: if_splits)

lemma register_all_Inr:
  "register_all E merged others = Inr merged' \<Longrightarrow>
     (\<forall>k f. map_of merged k = Some f \<longrightarrow> map_of merged' k = Some f) \<and>
     (\<forall>(ext, f) \<in> set others. map_of merged' (to_lower (uni_lower E) ext) = Some f) \<and>
     (distinct (map fst merged) \<longrightarrow> distinct (map fst merged')) \<and>
     length merged' = length merged + length others"
proof (induction others arbitrary: merged)
  case (Cons x others)
  obtain ext f where x: "x = (ext, f)" by fastforce
  obtain m1 where m1: "Register E merged ext (Some f) = Inr m1" "register_all E m1 others = Inr merged'"
    using Cons.prems x by (auto split: sum.splits)
  let ?k = "to_lower (uni_lower E) ext"
  have m: "m1 = (?k, f) # merged" "map_of merged ?k = None"
    using m1(1) unfolding Register_Inr by (simp_all add: Let_def)
  note IH = Cons.IH [OF m1(2)]
  have keep: "map_of m1 k = Some g" if "map_of merged k = Some g" for k g
    using m that by auto
  have "map_of merged' ?k = Some f" using IH m by (metis map_of_Cons_code(2))
  then show ?case using IH keep m x by (auto simp: map_of_eq_None_iff)
qed auto

text \<open>Merging a registry into another is atomic: when it fails the registry is as before; when it
  succeeds every converter of both is registered, each extension once.\<close>

lemma merge_atomic:
  assumes "Merge E registry others = (registry', err)"
  shows "(err \<noteq> None \<longrightarrow> registry' = registry) \<and>
    (err = None \<longrightarrow> (\<forall>k f. map_of registry k = Some f \<longrightarrow> map_of registry' k = Some f) \<and>
       (\<forall>(ext, f) \<in> set others. map_of registry' (to_lower (uni_lower E) ext) = Some f) \<and>
       (distinct (map fst registry) \<longrightarrow> distinct (map fst registry')))"
  using assms register_all_Inr [of E registry others registry']
  by (auto simp: Merge_def split: sum.splits)

section \<open>The manifest file\<close>

definition part_ok :: "ManifestPart \<Rightarrow> bool" where
  "part_ok p \<longleftrightarrow> in64 (PartNumber p) \<and> holds in64 (Some (case PageNumber p of Some n \<Rightarrow> n | None \<Rightarrow> 0))
     \<and> (\<forall>n. Width p = Some n \<longrightarrow> in64 n) \<and> (\<forall>n. Height p = Some n \<longrightarrow> in64 n)"

lemma show_nat_no_minus: "show_nat n = c # s \<Longrightarrow> c \<noteq> CHR ''-''"
proof
  assume "show_nat n = c # s" "c = CHR ''-''"
  then have "is_digit (CHR ''-'')" using show_nat_digits [of n] by simp
  then show False by (simp add: is_digit_def)
qed

lemma read_int_show: "in64 i \<Longrightarrow> read_int (show_int i) = Some i"
proof (cases "i < 0")
  case True
  assume "in64 i"
  then show ?thesis using True show_nat_digits [of "nat (- i)"] dec_val_show_nat [of "nat (- i)"]
    by (simp add: read_int_def show_int_def has_prefix_def Let_def)
next
  case False
  assume i: "in64 i"
  obtain c t where s: "show_nat (nat i) = c # t" by (cases "show_nat (nat i)") auto
  have "\<not> has_prefix (show_nat (nat i)) ''-''"
    using show_nat_no_minus [OF s] s by (simp add: has_prefix_def)
  then show ?thesis using False i show_nat_digits [of "nat i"] dec_val_show_nat [of "nat i"]
    by (simp add: read_int_def show_int_def Let_def)
qed

lemma json_ptr_simps:
  "json_ptr json_str (Some (opt_json JStr v)) = Some v"
  "(\<forall>n. w = Some n \<longrightarrow> in64 n) \<Longrightarrow> json_ptr json_int (Some (opt_json int_json w)) = Some w"
  by (cases v; simp add: opt_json_def) (cases w; simp add: opt_json_def int_json_def read_int_show)

lemma part_roundtrip: "part_ok p \<Longrightarrow> part_of_json (Some (part_json p)) = Some p"
  by (cases "PageNumber p")
    (auto simp: part_ok_def part_of_json_def part_json_def field_def json_ptr_simps int_json_def read_int_show
      opt_json_def split: option.splits)

lemma all_Some_map: "(\<And>x. x \<in> set xs \<Longrightarrow> f x = Some (g x)) \<Longrightarrow> all_Some (map f xs) = Some (map g xs)"
  by (induction xs) auto

lemma document_roundtrip:
  "\<forall>p \<in> set (Parts d). part_ok p \<Longrightarrow> document_of_json (Some (document_json d)) = Some d"
  using all_Some_map [of "Parts d" "\<lambda>x. part_of_json (Some (part_json x))" "\<lambda>x. x"]
  by (auto simp: document_of_json_def document_json_def field_def part_roundtrip comp_def)

lemma manifest_decodes:
  assumes "in64 (SchemaVersion m)" and "\<forall>d \<in> set (Documents m). \<forall>p \<in> set (Parts d). part_ok p"
  shows "manifest_of_json (manifest_json m) = Some m"
proof -
  have "all_Some (map (\<lambda>x. document_of_json (Some x)) (map document_json (Documents m))) = Some (Documents m)"
    using assms(2) document_roundtrip
      all_Some_map [of "Documents m" "\<lambda>d. document_of_json (Some (document_json d))" "\<lambda>d. d"] by (simp add: comp_def)
  moreover have "all_Some (map (\<lambda>x. json_str (Some x)) (map JStr (Warnings m))) = Some (Warnings m)"
    using all_Some_map [of "Warnings m" "\<lambda>w. json_str (Some (JStr w))" "\<lambda>w. w"] by (simp add: comp_def)
  ultimately show ?thesis
    using assms(1) by (simp add: manifest_of_json_def manifest_json_def source_of_json_def field_def int_json_def read_int_show)
qed



text \<open>An environment whose renderer renders no page.\<close>

definition demo_env :: env where
  "demo_env = \<lparr>sha256 = (\<lambda>s. take 32 s), json_text = (\<lambda>_. []), json_parse = (\<lambda>_. None), fmt_g = (\<lambda>_ _. []),
     go_quote = (\<lambda>s. s), uni_lower = (\<lambda>s. s), csv_detail = (\<lambda>_. []),
     html_Parse = (\<lambda>s. Inr (HtmlText s)), image_DecodeConfig = (\<lambda>_. Inl (Opaque ''format'')),
     RenderDocument = (\<lambda>_ _ _ s. (s, Inr [])), ExtractDocument = (\<lambda>_ _ s. (s, Inr []))\<rparr>"

lemma demo_env_ok: "renderer_ok demo_env"
  by (simp add: renderer_ok_def demo_env_def step_rules triple_def)

definition demo_os :: os where
  "demo_os = \<lparr>nodes = [([''d''], Dir), ([''d'', ''source.txt''], Reg (Raw ''hello''))], faults = [],
     rm_faults = [], ctx_polls = None\<rparr>"

definition demo_options :: Options where
  "demo_options = \<lparr>MaxPages = 0, MaxTextChars = 0, DisableTextExtraction = False\<rparr>"

theorem conversion_all_or_nothing_witness:
  "\<exists>c s' res. ResolveConverter demo_env (NewDispatcher demo_env (NewInTreeRegistry demo_env) DefaultConverterConfig) ''a.txt'' = Inr c
     \<and> Convert c [''d'', ''source.txt''] ([''d''] @ [''derived'']) demo_options demo_os = (s', Inr res)
     \<and> published [''d'', ''source.txt''] ([''d''] @ [''derived'']) res s'"
proof -
  let ?c = "newTextConverter demo_env ''.txt'' ''text/plain'' PlainText"
  have e: "to_lower (uni_lower demo_env) (path_ext ''a.txt'') = ''.txt''" by code_simp
  have r: "ResolveConverter demo_env (NewDispatcher demo_env (NewInTreeRegistry demo_env) DefaultConverterConfig) ''a.txt'' = Inr ?c"
    by (simp add: ResolveConverter_def ForPath_def registry_Converter_def NewDispatcher_def Let_def e
        NewInTreeRegistry_def ConverterAdapter_def)
  have cl: "cleaned ([''d''] @ [''derived'']) demo_os"
    by (auto simp: cleaned_def demo_os_def node_at_def below_def manifest_at_def)
  obtain s' x where v: "Convert ?c [''d'', ''source.txt''] ([''d''] @ [''derived'']) demo_options demo_os = (s', x)"
    by fastforce
  have "\<not> isl (snd (convertExtractedText demo_env [''d'', ''source.txt''] ([''d''] @ [''derived'']) ''text/plain'' PlainText
      demo_options demo_os))"
    by code_simp
  then obtain res where x: "x = Inr res" using v by (cases x) (simp_all add: newTextConverter_def)
  have "published [''d'', ''source.txt''] ([''d''] @ [''derived'']) res s'"
    using conversion_all_or_nothing [OF demo_env_ok r _ cl v] x by (simp add: demo_os_def)
  then show ?thesis using r v x by blast
qed

section \<open>Limits and signatures\<close>

text \<open>The text limit counts characters, not bytes: a text file whose content is the encoding of \<open>n\<close>
  scalar values is rejected, with an error that is not retried, exactly when the limit is positive and
  \<open>n\<close> is above it; and nothing is written then.\<close>

lemma text_limit_exact:
  assumes "list_all scalar cs" and "t = concat (map utf8_encode cs)"
  shows "validateTextLimit [t] limit =
      (if 0 < limit \<and> limit < int (length cs) then Some (TextLimitError limit) else None)
    \<and> (validateTextLimit [t] (MaxTextChars options) = Some e \<longrightarrow>
        convertTextDocument E source out mt [t] options s = (s, Inl e) \<and> \<not> IsRetryable e)"
proof -
  have "rune_count t = length cs" using assms by (simp add: rune_count_def runes_concat)
  then show ?thesis
    by (auto simp: validateTextLimit_def convertTextDocument_def fails_def split: if_splits)
qed

text \<open>An upload passes the signature check exactly when its content, of which only the first eight
  bytes are looked at, starts with one of the signatures of the format.\<close>

lemma signature_exact:
  assumes "read_bytes E source s = (s', Inr b)" and "\<forall>sig \<in> set sigs. sig \<noteq> [] \<and> length sig \<le> 8"
  shows "snd (validateSignature E source sigs s) = Inr () \<longleftrightarrow> (\<exists>sig \<in> set sigs. has_prefix b sig)"
proof -
  have "(length sig \<le> length (take 8 b) \<and> take (length sig) (take 8 b) = sig) = has_prefix b sig"
    if "sig \<in> set sigs" for sig
    using assms(2) that by (auto simp: has_prefix_def min_def) (metis length_take min.cobounded1 min_def)
  then have "list_ex (\<lambda>sig. length sig \<le> length (take 8 b) \<and> take (length sig) (take 8 b) = sig) sigs
      = (\<exists>sig \<in> set sigs. has_prefix b sig)"
    by (auto simp: list_ex_iff)
  moreover have "\<not> has_prefix b sig" if "b = []" "sig \<in> set sigs" for sig
    using assms(2) that by (auto simp: has_prefix_def)
  ultimately show ?thesis
    using assms(1) by (auto simp: validateSignature_def and_then_def Let_def signature_error_def)
qed

end
