(* ===== verification/File_Service.thy ===== *)
theory File_Service
  imports Lifecycle Config Conversion_Contract
begin

text \<open>
  The operations of \<open>internal/files/service.go\<close> from the point of view of one caller: \<open>Create\<close> with
  everything it leaves behind on each of its error paths, \<open>Resolve\<close> with its polling, \<open>OpenSource\<close>,
  the body of a conversion, and \<open>ReconcileStorage\<close>; also the cleanup of request directories that
  \<open>cmd/llm-file-gateway/main.go\<close> does at startup. What other goroutines do between the steps is the
  subject of \<open>Lifecycle\<close>; here it appears as what the successive polls of \<open>Resolve\<close> see.
\<close>

record service =
  svc_os :: os
  svc_rows :: table
  svc_regs :: registers
  svc_submitted :: "(string \<times> DocumentConverter option) list"

definition data_dir :: "Config \<Rightarrow> path" where
  "data_dir settings = path_of (DataDir settings)"

definition not_found :: "string \<Rightarrow> go_error" where
  "not_found param = ApiError (api_New 404 ''file_not_found'' ''File not found.'' param)"

section \<open>File ids\<close>

text \<open>\<open>rnd\<close> is the outcome of \<open>rand.Read\<close> on 16 bytes.\<close>

definition newFileID :: "string result \<Rightarrow> string result" where
  "newFileID rnd = (case rnd of
     Inl e \<Rightarrow> Inl (Wrapped ''generate file ID: '' e) | Inr v \<Rightarrow> Inr (''file_'' @ hex_encode v))"

definition managedFileID :: "string \<Rightarrow> bool" where
  "managedFileID name \<longleftrightarrow> length name = length ''file_'' + 32 \<and> has_prefix name ''file_'' \<and>
     hex_decodes (trim_prefix name ''file_'')"

section \<open>Create\<close>

text \<open>A reader: its bytes and the error it ends with, if any; \<open>rd_joined\<close> tells whether the error comes
  together with the last byte.\<close>

record reader =
  rd_data :: string
  rd_err :: "go_error option"
  rd_joined :: bool

text \<open>\<open>io.Copy\<close> from the reader, behind \<open>io.LimitReader\<close> when there is a limit.\<close>

definition copy_from :: "int option \<Rightarrow> reader \<Rightarrow> string \<times> go_error option" where
  "copy_from limit r = (case limit of
     None \<Rightarrow> (rd_data r, rd_err r)
   | Some n \<Rightarrow> if n \<le> 0 then ([], None)
       else if int (length (rd_data r)) < n then (rd_data r, rd_err r)
       else (take (nat n) (rd_data r),
             if int (length (rd_data r)) = n \<and> rd_joined r then rd_err r else None))"

text \<open>\<open>os.OpenFile\<close> with \<open>O_CREATE|O_EXCL|O_WRONLY\<close>, and \<open>Close\<close>.\<close>

definition open_new :: "path \<Rightarrow> os \<Rightarrow> os \<times> unit result" where
  "open_new p s = (if node_at s p \<noteq> None then (s\<lparr>faults := tl (faults s)\<rparr>, Inl (Opaque ''file exists''))
     else write_file p (Raw []) s)"

definition close_file :: "os \<Rightarrow> os \<times> unit result" where
  "close_file s = (s\<lparr>faults := tl (faults s)\<rparr>,
     case next_fault (faults s) of Fails e _ \<Rightarrow> Inl e | Works \<Rightarrow> Inr ())"

definition store_upload :: "Config \<Rightarrow> path \<Rightarrow> reader \<Rightarrow> os \<Rightarrow> os \<times> string result" where
  "store_upload settings sourcePath source = and_then (open_new sourcePath) (\<lambda>_ s.
     (let limit = (if MaxFileBytes settings > 0 then Some (wrap64 (MaxFileBytes settings + 1)) else None);
          (content, readErr) = copy_from limit source;
          (s1, copied) = write_file sourcePath (Raw content) s;
          (s2, closed) = close_file s1
      in (s2, case copied of Inl e \<Rightarrow> Inl e
           | Inr _ \<Rightarrow> (case readErr of Some e \<Rightarrow> Inl e
             | None \<Rightarrow> (case closed of Inl e \<Rightarrow> Inl e | Inr _ \<Rightarrow> Inr content)))))"

definition validation_error :: "DocumentConverter \<Rightarrow> go_error \<Rightarrow> go_error" where
  "validation_error c e = ApiError (api_New 400 ''unsupported_file_type''
     (if Extension c = [] then ''unsupported file type'' else err_text e) ''file'')"

definition accept_upload ::
  "env \<Rightarrow> Config \<Rightarrow> DocumentConverter \<Rightarrow> path \<Rightarrow> reader \<Rightarrow> os \<Rightarrow> os \<times> string result" where
  "accept_upload E settings c sourcePath source = and_then (store_upload settings sourcePath source) (\<lambda>content.
     if MaxFileBytes settings > 0 \<and> int (length content) > MaxFileBytes settings
     then fails (ApiError (FileTooLarge (fmt_g E) (MaxFileBytes settings) ''file''))
     else and_then (map_error (validation_error c) (Validate c sourcePath)) (\<lambda>_. returns content))"

text \<open>\<open>expires_at\<close>, in seconds, for a \<open>ttl\<close> in nanoseconds.\<close>

definition expiry :: "int \<Rightarrow> int \<Rightarrow> int" where
  "expiry now ttl = (if ttl \<le> 0 then 0 else wrap64 (now + go_div ttl (10 ^ 9)))"

definition source_name :: "env \<Rightarrow> string \<Rightarrow> string" where
  "source_name E filename = ''source'' @ to_lower (uni_lower E) (path_ext (path_base filename))"

definition relative_dir :: "string \<Rightarrow> string \<Rightarrow> path" where
  "relative_dir tenantID i = [''files'', tenantID, i]"

definition new_file ::
  "env \<Rightarrow> DocumentConverter \<Rightarrow> int \<Rightarrow> string \<Rightarrow> string \<Rightarrow> string \<Rightarrow> string \<Rightarrow> int \<Rightarrow> string \<Rightarrow> File" where
  "new_file E c now i filename purpose tenantID ttl content =
     \<lparr>ID = i, TenantID = tenantID, Filename = path_base filename, MediaType = DocumentConverter.MediaType c,
      Purpose = purpose, Bytes = int (length content), SHA256 = hex_encode (sha256 E content),
      Status = ''uploaded'', SourcePath = slash_path (relative_dir tenantID i @ [source_name E filename]),
      ManifestPath = None, ErrorMessage = None, CreatedAt = now, ExpiresAt = expiry now ttl, DeletedAt = None\<rparr>"

definition Create :: "env \<Rightarrow> Config \<Rightarrow> Dispatcher \<Rightarrow> db_fault \<Rightarrow> int \<Rightarrow> string result \<Rightarrow> string \<Rightarrow> reader
    \<Rightarrow> string \<Rightarrow> string \<Rightarrow> int \<Rightarrow> service \<Rightarrow> service \<times> File result" where
  "Create E settings dispatcher flt now rnd filename source purpose tenantID ttl s =
     (case ResolveConverter E dispatcher (path_base filename) of
        Inl _ \<Rightarrow> (s, Inl (ApiError (api_New 400 ''unsupported_file_type'' ''Unsupported file type.'' ''file'')))
      | Inr c \<Rightarrow> (case newFileID rnd of
        Inl e \<Rightarrow> (s, Inl e)
      | Inr i \<Rightarrow> (let fileDir = data_dir settings @ relative_dir tenantID i;
                      sourcePath = fileDir @ [source_name E filename] in
       (case mkdir_all fileDir (svc_os s) of
          (o1, Inl e) \<Rightarrow> (s\<lparr>svc_os := o1\<rparr>, Inl e)
        | (o1, Inr _) \<Rightarrow> (case accept_upload E settings c sourcePath source o1 of
          (o2, Inl e) \<Rightarrow> (s\<lparr>svc_os := fst (remove_all fileDir o2)\<rparr>, Inl e)
        | (o2, Inr content) \<Rightarrow>
           (let record = new_file E c now i filename purpose tenantID ttl content in
            case store_Add flt (svc_rows s) record of
              (rows, Inl e) \<Rightarrow> (s\<lparr>svc_os := fst (remove_all fileDir o2), svc_rows := rows\<rparr>, Inl e)
            | (rows, Inr _) \<Rightarrow> (s\<lparr>svc_os := o2, svc_rows := rows,
                 svc_submitted := svc_submitted s @ [(i, Some c)]\<rparr>, Inr record)))))))"

section \<open>Conversion\<close>

text \<open>\<open>convert\<close>, run without interference: the job brings its converter along or has it resolved; the
  three faults are those of the lookup and of the two status updates.\<close>

definition conversion_options :: "Config \<Rightarrow> Options" where
  "conversion_options settings = \<lparr>MaxPages = MaxDocumentPages settings, MaxTextChars = MaxDocumentTextChars settings,
     DisableTextExtraction = \<not> TextExtractionEnabled settings\<rparr>"

definition source_at :: "Config \<Rightarrow> File \<Rightarrow> path" where
  "source_at settings f = data_dir settings @ path_of (SourcePath f)"

definition run_converter ::
  "Config \<Rightarrow> db_fault \<Rightarrow> string \<Rightarrow> File \<Rightarrow> DocumentConverter \<Rightarrow> service \<Rightarrow> service \<times> go_error option" where
  "run_converter settings flt i f c s =
     (let source = source_at settings f in
      case Convert c source (butlast source @ [''derived'']) (conversion_options settings) (svc_os s) of
        (o1, Inl e) \<Rightarrow> (s\<lparr>svc_os := o1\<rparr>, Some (Wrapped ''document conversion: '' e))
      | (o1, Inr _) \<Rightarrow> (case store_UpdateStatus flt (svc_rows s) i ''processed'' (manifest_path f) [] of
          (rows, r) \<Rightarrow> (s\<lparr>svc_os := o1, svc_rows := rows\<rparr>, convert_finished r)))"

definition convert :: "env \<Rightarrow> Config \<Rightarrow> Dispatcher \<Rightarrow> db_fault \<Rightarrow> db_fault \<Rightarrow> db_fault \<Rightarrow> string \<Rightarrow> DocumentConverter option
    \<Rightarrow> service \<Rightarrow> service \<times> go_error option" where
  "convert E settings dispatcher flt1 flt2 flt3 i job_converter s =
     (case convert_lookup (store_GetInternal flt1 (svc_rows s) i) of
        Inl res \<Rightarrow> (s, res)
      | Inr f \<Rightarrow> (case store_UpdateStatus flt2 (svc_rows s) i ''processing'' [] [] of
        (rows, r) \<Rightarrow> (let s1 = s\<lparr>svc_rows := rows\<rparr> in (case convert_started r of
          Inl res \<Rightarrow> (s1, res)
        | Inr _ \<Rightarrow> (case job_converter of
            Some c \<Rightarrow> run_converter settings flt3 i f c s1
          | None \<Rightarrow> (case ResolveConverter E dispatcher (slash_path (source_at settings f)) of
              Inl e \<Rightarrow> (s1\<lparr>svc_rows := markFailed flt3 rows i e\<rparr>, None)
            | Inr c \<Rightarrow> run_converter settings flt3 i f c s1))))))"

section \<open>Resolve and OpenSource\<close>

text \<open>Nanoseconds.\<close>

definition resolvePollInitial :: int where "resolvePollInitial = 100 * 10 ^ 6"
definition resolvePollMax :: int where "resolvePollMax = 2 * 10 ^ 9"
definition resolvePollJitter :: int where "resolvePollJitter = 500 * 10 ^ 6"

datatype wake = TimerFired | CtxDone go_error | Stopping

text \<open>What one poll sees: the answer of the store at that time, the random number drawn, and how the
  wait that follows, if any, ends.\<close>

record poll =
  poll_flt :: db_fault
  poll_now :: int
  poll_rows :: table
  poll_random :: int
  poll_wake :: wake

text \<open>The loop, over the polls it makes: the waits and the result, which is None while it still waits.\<close>

fun resolve_wait :: "string \<Rightarrow> string \<Rightarrow> string \<Rightarrow> int \<Rightarrow> poll list \<Rightarrow> int list \<times> File result option" where
  "resolve_wait i tenantID param delay [] = ([], None)"
| "resolve_wait i tenantID param delay (p # ps) =
     (case store_Get (poll_flt p) (poll_now p) (poll_rows p) i tenantID of
        Inl e \<Rightarrow> ([], Some (Inl e))
      | Inr None \<Rightarrow> ([], Some (Inl (not_found param)))
      | Inr (Some f) \<Rightarrow>
          if Status f \<noteq> ''uploaded'' \<and> Status f \<noteq> ''processing'' then ([], Some (Inr f))
          else let wait = delay + poll_random p mod resolvePollJitter in
            (case poll_wake p of
               CtxDone e \<Rightarrow> ([wait], Some (Inl e))
             | Stopping \<Rightarrow> ([wait], Some (Inl (ApiError
                 (api_New 503 ''service_unavailable'' ''The file service is stopping.'' param))))
             | TimerFired \<Rightarrow>
                 (let delay' = (if delay * 2 > resolvePollMax then resolvePollMax else delay * 2);
                      (waits, res) = resolve_wait i tenantID param delay' ps
                  in (wait # waits, res))))"

definition decode_manifest :: "env \<Rightarrow> content \<Rightarrow> Manifest option" where
  "decode_manifest E c = (case c of
     Encoded j \<Rightarrow> manifest_of_json j
   | Raw text \<Rightarrow> (case json_parse E text of None \<Rightarrow> None | Some j \<Rightarrow> manifest_of_json j))"

definition processing_failed :: "string \<Rightarrow> string \<Rightarrow> go_error" where
  "processing_failed message param = ApiError (api_New 422 ''file_processing_failed'' message param)"

text \<open>The rest of \<open>Resolve\<close>; the handle of the lease stands for the release function.\<close>

definition resolve_open :: "env \<Rightarrow> Config \<Rightarrow> string \<Rightarrow> string \<Rightarrow> File \<Rightarrow> service \<Rightarrow> service \<times> (File \<times> Manifest \<times> nat) result" where
  "resolve_open E settings i param f s =
     (case ManifestPath f of
        None \<Rightarrow> (s, Inl (processing_failed ''File processing failed.'' param))
      | Some mp \<Rightarrow>
        if Status f = ''failed'' then (s, Inl (processing_failed ''File processing failed.'' param))
        else (case acquireLease (svc_regs s) i of
          (r1, Inl _) \<Rightarrow> (s\<lparr>svc_regs := r1\<rparr>, Inl (not_found param))
        | (r1, Inr h) \<Rightarrow> (case read_file (data_dir settings @ path_of mp) (svc_os s) of
            (o1, Inl _) \<Rightarrow> (s\<lparr>svc_os := o1, svc_regs := releaseLease r1 i h\<rparr>,
              Inl (processing_failed ''File manifest is missing.'' param))
          | (o1, Inr content) \<Rightarrow> (case decode_manifest E content of
              None \<Rightarrow> (s\<lparr>svc_os := o1, svc_regs := releaseLease r1 i h\<rparr>, Inl (Opaque ''json''))
            | Some m \<Rightarrow> (s\<lparr>svc_os := o1, svc_regs := r1\<rparr>, Inr (f, m, h))))))"

definition Resolve :: "env \<Rightarrow> Config \<Rightarrow> poll list \<Rightarrow> string \<Rightarrow> string \<Rightarrow> string \<Rightarrow> service
    \<Rightarrow> service \<times> (File \<times> Manifest \<times> nat) result option" where
  "Resolve E settings polls i tenantID param s =
     (case snd (resolve_wait i tenantID param resolvePollInitial polls) of
        None \<Rightarrow> (s, None)
      | Some (Inl e) \<Rightarrow> (s, Some (Inl e))
      | Some (Inr f) \<Rightarrow> (case resolve_open E settings i param f s of (s', r) \<Rightarrow> (s', Some r)))"

definition OpenSource :: "env \<Rightarrow> Config \<Rightarrow> db_fault \<Rightarrow> int \<Rightarrow> string \<Rightarrow> string \<Rightarrow> service
    \<Rightarrow> service \<times> (File \<times> string \<times> nat) result" where
  "OpenSource E settings flt now i tenantID s =
     (case store_Get flt now (svc_rows s) i tenantID of
        Inl e \<Rightarrow> (s, Inl e)
      | Inr None \<Rightarrow> (s, Inl (not_found ''file_id''))
      | Inr (Some f) \<Rightarrow> (case acquireLease (svc_regs s) i of
          (r1, Inl _) \<Rightarrow> (s\<lparr>svc_regs := r1\<rparr>, Inl (not_found ''file_id''))
        | (r1, Inr h) \<Rightarrow> (case read_bytes E (source_at settings f) (svc_os s) of
            (o1, Inl e) \<Rightarrow> (s\<lparr>svc_os := o1, svc_regs := releaseLease r1 i h\<rparr>, Inl e)
          | (o1, Inr b) \<Rightarrow> (s\<lparr>svc_os := o1, svc_regs := r1\<rparr>, Inr (f, b, h)))))"

section \<open>Directories\<close>

text \<open>\<open>os.ReadDir\<close>: the entries sorted by name.\<close>

definition entries_of :: "path \<Rightarrow> (path \<times> node) list \<Rightarrow> (string \<times> node) list" where
  "entries_of p ns = sort_key fst (map (\<lambda>(q, n). (last q, n)) (filter (\<lambda>(q, n). q \<noteq> [] \<and> butlast q = p) ns))"

definition read_dir :: "path \<Rightarrow> os \<Rightarrow> os \<times> (string \<times> node) list result" where
  "read_dir p s = (let s1 = s\<lparr>faults := tl (faults s)\<rparr> in
     case next_fault (faults s) of
       Fails e _ \<Rightarrow> (s1, Inl e)
     | Works \<Rightarrow> (s1, case node_at s p of
         Some Dir \<Rightarrow> Inr (entries_of p (nodes s)) | Some _ \<Rightarrow> Inl (Opaque ''not a directory'') | None \<Rightarrow> Inl ErrNotExist))"

text \<open>\<open>os.Lstat\<close>; None when the file does not exist.\<close>

definition lstat :: "path \<Rightarrow> os \<Rightarrow> os \<times> node option result" where
  "lstat p s = (s\<lparr>faults := tl (faults s)\<rparr>,
     case next_fault (faults s) of Fails e _ \<Rightarrow> Inl e | Works \<Rightarrow> Inr (node_at s p))"

text \<open>\<open>filepath.Clean(filepath.Dir(p))\<close> of a relative path.\<close>

fun clean_components :: "path \<Rightarrow> path \<Rightarrow> path" where
  "clean_components acc [] = rev acc"
| "clean_components acc (c # cs) =
     (if c = [] \<or> c = ''.'' then clean_components acc cs
      else if c = ''..'' \<and> acc \<noteq> [] \<and> hd acc \<noteq> ''..'' then clean_components (tl acc) cs
      else clean_components (c # acc) cs)"

definition clean_dir :: "string \<Rightarrow> path" where
  "clean_dir p = clean_components [] (butlast (split_on (CHR ''/'') p))"

fun reconcile_entries :: "env \<Rightarrow> path \<Rightarrow> string \<Rightarrow> path list \<Rightarrow> (string \<times> node) list \<Rightarrow> os \<Rightarrow> os \<times> unit result" where
  "reconcile_entries E filesDir tenant referenced [] = returns ()"
| "reconcile_entries E filesDir tenant referenced ((name, n) # entries) =
     (if n \<noteq> Dir \<or> \<not> managedFileID name then reconcile_entries E filesDir tenant referenced entries
      else if relative_dir tenant name \<in> set referenced then reconcile_entries E filesDir tenant referenced entries
      else and_then (map_error (Wrapped (''remove orphan file directory '' @
          go_quote E (slash_path (relative_dir tenant name)) @ '': '')) (remove_all (filesDir @ [tenant, name])))
        (\<lambda>_. reconcile_entries E filesDir tenant referenced entries))"

fun reconcile_tenants :: "env \<Rightarrow> path \<Rightarrow> path list \<Rightarrow> (string \<times> node) list \<Rightarrow> os \<Rightarrow> os \<times> unit result" where
  "reconcile_tenants E filesDir referenced [] = returns ()"
| "reconcile_tenants E filesDir referenced ((tenant, n) # tenants) =
     (if n \<noteq> Dir then reconcile_tenants E filesDir referenced tenants
      else and_then (map_error (Wrapped (''read tenant file directory '' @ go_quote E tenant @ '': ''))
          (read_dir (filesDir @ [tenant])))
        (\<lambda>entries. and_then (reconcile_entries E filesDir tenant referenced entries)
          (\<lambda>_. reconcile_tenants E filesDir referenced tenants)))"

definition ReconcileStorage :: "env \<Rightarrow> Config \<Rightarrow> db_fault \<Rightarrow> table \<Rightarrow> os \<Rightarrow> os \<times> unit result" where
  "ReconcileStorage E settings flt rows s =
     (case store_SourcePaths flt rows of
        Inl e \<Rightarrow> (s, Inl e)
      | Inr sourcePaths \<Rightarrow>
        (let referenced = map clean_dir sourcePaths; filesDir = data_dir settings @ [''files''] in
         case lstat filesDir s of
           (s1, Inl e) \<Rightarrow> (s1, Inl (Wrapped ''inspect files directory: '' e))
         | (s1, Inr None) \<Rightarrow> (s1, Inr ())
         | (s1, Inr (Some n)) \<Rightarrow>
             if n \<noteq> Dir then (s1, Inl (Opaque ''files path must be a directory and not a symlink''))
             else and_then (map_error (Wrapped ''read files directory: '') (read_dir filesDir))
               (reconcile_tenants E filesDir referenced) s1))"

text \<open>\<open>cleanupStaleRequestDirectories\<close> of \<open>main.go\<close>.\<close>

fun remove_stale :: "env \<Rightarrow> path \<Rightarrow> (string \<times> node) list \<Rightarrow> os \<Rightarrow> os \<times> unit result" where
  "remove_stale E workDir [] = returns ()"
| "remove_stale E workDir ((name, n) # entries) =
     (if n \<noteq> Dir \<or> \<not> has_prefix name ''gateway-request-'' then remove_stale E workDir entries
      else and_then (map_error (Wrapped (''remove stale request directory '' @ go_quote E name @ '': ''))
          (remove_all (workDir @ [name])))
        (\<lambda>_. remove_stale E workDir entries))"

definition cleanupStaleRequestDirectories :: "env \<Rightarrow> path \<Rightarrow> os \<Rightarrow> os \<times> unit result" where
  "cleanupStaleRequestDirectories E workDir =
     and_then (map_error (Wrapped ''read work directory: '') (read_dir workDir)) (remove_stale E workDir)"

end
