(* ===== verification/File_Service_Correct.thy ===== *)
theory File_Service_Correct
  imports File_Service
begin

text \<open>
  Uploads, resolution and the reconciliation of the storage: what each of them leaves behind on each
  of its paths.
\<close>

section \<open>Steps inside one directory\<close>

definition inside :: "path \<Rightarrow> (os \<Rightarrow> os \<times> 'a result) \<Rightarrow> bool" where
  "inside d m \<longleftrightarrow> (\<forall>s s' r. m s = (s', r) \<longrightarrow> rm_faults s' = rm_faults s \<and>
     (\<forall>p. \<not> below d p \<longrightarrow> node_at s' p = node_at s p))"

lemma quiet_inside: "quiet m \<Longrightarrow> inside d m"
  by (auto simp: quiet_def inside_def)

lemma quiet_and_then: "quiet m \<Longrightarrow> (\<And>x. quiet (k x)) \<Longrightarrow> quiet (and_then m k)"
  unfolding quiet_def and_then_def by (auto split: prod.splits sum.splits)

lemma inside_and_then: "inside d m \<Longrightarrow> (\<And>x. inside d (k x)) \<Longrightarrow> inside d (and_then m k)"
  unfolding inside_def and_then_def by (auto split: prod.splits sum.splits)

lemma quiet_map_error: "quiet m \<Longrightarrow> quiet (map_error f m)"
  unfolding quiet_def map_error_def by (auto split: prod.splits sum.splits)

lemma quiet_pure: "quiet (returns x)" "quiet (fails e)" "quiet (\<lambda>s. (s, r))"
  by (auto simp: quiet_def returns_def fails_def)

lemma inside_write: "below d p \<Longrightarrow> inside d (write_file p c)"
  unfolding inside_def using write_file_frame rm_faults_same(2) by metis

lemma insideD: "inside d m \<Longrightarrow> m s = (s', r) \<Longrightarrow> \<not> below d p \<Longrightarrow> node_at s' p = node_at s p"
  "inside d m \<Longrightarrow> m s = (s', r) \<Longrightarrow> rm_faults s' = rm_faults s"
  by (auto simp: inside_def)

lemma validate_quiet:
  "quiet (validateSignature E source sigs)" "quiet (validateImage E source format)"
  "quiet (validateExtractedText E source ex)"
proof -
  show "quiet (validateSignature E source sigs)"
    unfolding validateSignature_def by (intro quiet_and_then quiet_read quiet_pure)
  show "quiet (validateImage E source format)"
    using quiet_imageSize [of E source] by (auto simp: quiet_def validateImage_def split: prod.splits sum.splits)
  show "quiet (validateExtractedText E source ex)"
    unfolding validateExtractedText_def by (intro quiet_and_then quiet_extract quiet_pure)
qed

lemma resolved_validate_quiet:
  assumes "ResolveConverter E (NewDispatcher E (NewInTreeRegistry E) config) p = Inr c"
  shows "quiet (Validate c source)"
  using assms by (cases rule: resolved_cases) (simp_all add: newTextConverter_def rendered_def imaged_def validate_quiet)

section \<open>Uploads\<close>

lemma open_new_inside: "below d p \<Longrightarrow> inside d (open_new p)"
  using inside_write [of d p "Raw []"] by (auto simp: inside_def open_new_def)

lemma close_file_quiet: "quiet close_file"
  by (auto simp: quiet_def close_file_def)

lemma store_upload_inside:
  assumes "below d p"
  shows "inside d (store_upload settings p source)"
  unfolding store_upload_def
proof (intro inside_and_then open_new_inside [OF assms])
  fix x
  show "inside d (\<lambda>s. let limit = (if MaxFileBytes settings > 0 then Some (wrap64 (MaxFileBytes settings + 1)) else None);
          (content, readErr) = copy_from limit source; (s1, copied) = write_file p (Raw content) s;
          (s2, closed) = close_file s1
      in (s2, case copied of Inl e \<Rightarrow> Inl e
           | Inr _ \<Rightarrow> (case readErr of Some e \<Rightarrow> Inl e
             | None \<Rightarrow> (case closed of Inl e \<Rightarrow> Inl e | Inr _ \<Rightarrow> Inr content))))"
    using inside_write [OF assms] close_file_quiet unfolding inside_def quiet_def
    by (auto simp: Let_def split: prod.splits)
qed

text \<open>What is stored is the whole upload, unless it is longer than the limit.\<close>

lemma copy_from_complete:
  assumes "copy_from (if m > 0 then Some (wrap64 (m + 1)) else None) r = (content, None)"
    and "m < 2 ^ 63 - 1" and "m \<le> 0 \<or> int (length content) \<le> m"
  shows "content = rd_data r \<and> rd_err r = None"
proof (cases "m > 0")
  case True
  then have "wrap64 (m + 1) = m + 1" using assms(2) by (intro wrap64_id) (simp add: in64_def)
  then show ?thesis using assms True by (auto simp: copy_from_def split: if_splits)
qed (use assms in \<open>simp add: copy_from_def\<close>)

lemma copy_from_short:
  assumes "m < 2 ^ 63 - 1" and "m \<le> 0 \<or> int (length (rd_data r)) \<le> m"
  shows "copy_from (if m > 0 then Some (wrap64 (m + 1)) else None) r = (rd_data r, rd_err r)"
proof (cases "m > 0")
  case True
  then have "wrap64 (m + 1) = m + 1" using assms(1) by (intro wrap64_id) (simp add: in64_def)
  then show ?thesis using assms True by (auto simp: copy_from_def split: if_splits)
qed (simp add: copy_from_def)

lemma store_upload_Inr:
  assumes "store_upload settings p source s = (s', Inr content)"
  shows "node_at s' p = Some (Reg (Raw content)) \<and>
    copy_from (if MaxFileBytes settings > 0 then Some (wrap64 (MaxFileBytes settings + 1)) else None) source = (content, None)"
  using assms
  by (auto simp: store_upload_def and_then_def close_file_def Let_def dest!: write_file_wrote
      split: prod.splits sum.splits option.splits)

lemma accept_upload_inside: "quiet (Validate c p) \<Longrightarrow> below d p \<Longrightarrow> inside d (accept_upload E settings c p source)"
  unfolding accept_upload_def
  by (intro inside_and_then store_upload_inside)
    (auto intro!: quiet_inside quiet_and_then quiet_pure quiet_map_error)

lemma accept_upload_Inr:
  assumes "quiet (Validate c p)" and "accept_upload E settings c p source s = (s', Inr content)"
  shows "node_at s' p = Some (Reg (Raw content)) \<and>
    copy_from (if MaxFileBytes settings > 0 then Some (wrap64 (MaxFileBytes settings + 1)) else None) source = (content, None) \<and>
    (MaxFileBytes settings \<le> 0 \<or> int (length content) \<le> MaxFileBytes settings)"
proof -
  obtain s1 where u: "store_upload settings p source s = (s1, Inr content)"
    and v: "map_error (validation_error c) (Validate c p) s1 = (s', Inr ())"
    and l: "MaxFileBytes settings \<le> 0 \<or> int (length content) \<le> MaxFileBytes settings"
    using assms(2) by (auto simp: accept_upload_def and_then_def returns_def fails_def split: prod.splits sum.splits if_splits)
  have "node_at s' p = node_at s1 p"
    using quiet_map_error [OF assms(1)] v unfolding quiet_def by blast
  then show ?thesis using store_upload_Inr [OF u] l by auto
qed

lemma remove_all_gone':
  "rm_faults s = [] \<Longrightarrow> below d p \<Longrightarrow> node_at (fst (remove_all d s)) p = None"
  using remove_all_works [of s d] remove_all_gone [of d s] by fastforce

lemma remove_all_else: "\<not> below d p \<Longrightarrow> node_at (fst (remove_all d s)) p = node_at s p"
  by (metis prod.collapse remove_all_frame)

text \<open>C24. An upload is stored completely or not at all. On every error path (a full disk, a reader that
  fails, a file above the limit, content that the converter rejects, a database that refuses the row)
  the table and the queue are as before and the directory of the new file does not exist; on success
  exactly one row has been added, its source file holds exactly the bytes of the upload with their
  length and digest, the limit is kept, and the conversion has been submitted. Nothing outside the new
  directory and its ancestors changes. (Removals work, the id is new, and the limit is below the largest
  \<open>int64\<close>.)\<close>

theorem create_all_or_nothing:
  assumes "dispatcher = NewDispatcher E (NewInTreeRegistry E) config"
    and "newFileID rnd = Inr i" and "fileDir = data_dir settings @ relative_dir tenantID i"
    and "rm_faults (svc_os s) = []" and "\<forall>p. below fileDir p \<longrightarrow> node_at (svc_os s) p = None"
    and "MaxFileBytes settings < 2 ^ 63 - 1"
    and "Create E settings dispatcher flt now rnd filename source purpose tenantID ttl s = (s', r)"
  shows "(case r of
      Inl e \<Rightarrow> svc_rows s' = svc_rows s \<and> svc_submitted s' = svc_submitted s \<and>
        (\<forall>p. below fileDir p \<longrightarrow> node_at (svc_os s') p = None)
    | Inr f \<Rightarrow> svc_rows s' = svc_rows s @ [f] \<and> ID f = i \<and> map fst (svc_submitted s') = map fst (svc_submitted s) @ [i] \<and>
        rd_err source = None \<and> node_at (svc_os s') (fileDir @ [source_name E filename]) = Some (Reg (Raw (rd_data source))) \<and>
        Bytes f = int (length (rd_data source)) \<and> SHA256 f = hex_encode (sha256 E (rd_data source)) \<and>
        (0 < MaxFileBytes settings \<longrightarrow> Bytes f \<le> MaxFileBytes settings))
    \<and> svc_regs s' = svc_regs s
    \<and> (\<forall>p. \<not> below fileDir p \<and> \<not> below p fileDir \<longrightarrow> node_at (svc_os s') p = node_at (svc_os s) p)"
proof (cases "ResolveConverter E dispatcher (path_base filename)")
  case (Inl e)
  then show ?thesis using assms by (auto simp: Create_def)
next
  case (Inr c)
  let ?n = "source_name E filename"
  obtain o1 r1 where m: "mkdir_all fileDir (svc_os s) = (o1, r1)" by fastforce
  have q: "quiet (Validate c (fileDir @ [?n]))" using resolved_validate_quiet Inr assms(1) by blast
  have rm1: "rm_faults o1 = []" using rm_faults_same(1) [OF m] assms(4) by simp
  have f1: "node_at o1 p = node_at (svc_os s) p" if "\<not> below p fileDir" for p using mkdir_all_frame [OF m that] .
  show ?thesis
  proof (cases r1)
    case (Inl e)
    then have "\<forall>p. below fileDir p \<longrightarrow> node_at o1 p = None" using mkdir_all_failed m assms(5) by metis
    then show ?thesis using assms Inr m Inl f1 by (auto simp: Create_def Let_def)
  next
    case made: (Inr u)
    obtain o2 r2 where a: "accept_upload E settings c (fileDir @ [?n]) source o1 = (o2, r2)" by fastforce
    note inside = accept_upload_inside [OF q below_append, of E settings source]
    have rm2: "rm_faults o2 = []" using insideD(2) [OF inside a] rm1 by simp
    have f2: "node_at o2 p = node_at (svc_os s) p" if "\<not> below fileDir p" "\<not> below p fileDir" for p
      using insideD(1) [OF inside a] f1 that by metis
    let ?o3 = "fst (remove_all fileDir o2)"
    have gone: "\<forall>p. below fileDir p \<longrightarrow> node_at ?o3 p = None" using remove_all_gone' [OF rm2] by blast
    have f3: "node_at ?o3 p = node_at (svc_os s) p" if "\<not> below fileDir p" "\<not> below p fileDir" for p
      using remove_all_else [of fileDir p] f2 that by metis
    show ?thesis
    proof (cases r2)
      case (Inl e)
      then show ?thesis using assms Inr m made a gone f3 by (auto simp: Create_def Let_def)
    next
      case (Inr content)
      have up: "node_at o2 (fileDir @ [?n]) = Some (Reg (Raw content))" "content = rd_data source" "rd_err source = None"
        "0 < MaxFileBytes settings \<longrightarrow> int (length content) \<le> MaxFileBytes settings"
        using accept_upload_Inr [OF q] a Inr copy_from_complete assms(6) by (metis linorder_not_less)+
      let ?f = "new_file E c now i filename purpose tenantID ttl content"
      obtain rows r3 where add: "store_Add flt (svc_rows s) ?f = (rows, r3)" by fastforce
      have rows: "rows = (case r3 of Inl _ \<Rightarrow> svc_rows s | Inr _ \<Rightarrow> svc_rows s @ [?f])"
        using add by (auto simp: store_Add_def split: db_fault.splits if_splits)
      show ?thesis
        using assms \<open>ResolveConverter E dispatcher (path_base filename) = Inr c\<close> m made a Inr add rows gone f3 f2 up
        by (cases r3) (auto simp: Create_def Let_def new_file_def)
    qed
  qed
qed

section \<open>Removing directories\<close>

text \<open>A step that touches only nodes with property \<open>P\<close> and that, when it succeeds, has only removed nodes.\<close>

definition prunes :: "(path \<Rightarrow> bool) \<Rightarrow> (os \<Rightarrow> os \<times> 'a result) \<Rightarrow> bool" where
  "prunes P m \<longleftrightarrow> (\<forall>s s' r p. m s = (s', r) \<longrightarrow> (\<not> P p \<longrightarrow> node_at s' p = node_at s p) \<and>
     (\<not> isl r \<longrightarrow> node_at s' p = node_at s p \<or> node_at s' p = None))"

named_theorems prune_rules "composition rules of prunes"

lemma prunesD:
  "prunes P m \<Longrightarrow> m s = (s', r) \<Longrightarrow> \<not> P p \<Longrightarrow> node_at s' p = node_at s p"
  "prunes P m \<Longrightarrow> m s = (s', Inr x) \<Longrightarrow> node_at s' p = node_at s p \<or> node_at s' p = None"
  unfolding prunes_def by fastforce+

lemma quiet_prunes: "quiet m \<Longrightarrow> prunes P m"
  by (auto simp: quiet_def prunes_def)

lemma prunes_and_then [prune_rules]:
  assumes "prunes P m" and "\<And>x. prunes P (k x)"
  shows "prunes P (and_then m k)"
  unfolding prunes_def
proof (intro allI impI)
  fix s s' r p
  assume run: "and_then m k s = (s', r)"
  obtain s1 r1 where m: "m s = (s1, r1)" by fastforce
  show "(\<not> P p \<longrightarrow> node_at s' p = node_at s p) \<and> (\<not> isl r \<longrightarrow> node_at s' p = node_at s p \<or> node_at s' p = None)"
  proof (cases r1)
    case (Inl e)
    then show ?thesis using run m prunesD(1) [OF assms(1) m] by (auto simp: and_then_def)
  next
    case (Inr x)
    then have k: "k x s1 = (s', r)" using run m by (simp add: and_then_def)
    show ?thesis using assms(2) [of x] k prunesD [OF assms(1)] m Inr unfolding prunes_def by metis
  qed
qed

lemma prunes_map_error [prune_rules]: "prunes P m \<Longrightarrow> prunes P (map_error f m)"
  unfolding prunes_def map_error_def by (auto split: prod.splits sum.splits)

lemma prunes_returns [prune_rules]: "prunes P (returns x)"
  by (simp add: quiet_prunes quiet_pure)

lemma prunes_remove_all:
  assumes "\<And>p. below d p \<Longrightarrow> P p"
  shows "prunes P (remove_all d)"
  unfolding prunes_def
proof (intro allI impI conjI)
  fix s s' and r :: "unit result" and p
  assume m: "remove_all d s = (s', r)"
  show "node_at s' p = node_at s p" if "\<not> P p" using remove_all_frame [OF m] that assms by blast
  show "node_at s' p = node_at s p \<or> node_at s' p = None" if "\<not> isl r"
  proof (cases r)
    case (Inr u)
    then show ?thesis using m remove_all_frame [OF m, of p] remove_all_gone [of d s s' p] by (cases "below d p") auto
  qed (use that in simp)
qed

lemma read_dir_quiet: "quiet (read_dir p)"
  by (auto simp: quiet_def read_dir_def Let_def split: fault.splits)

lemma prunes_read_dir [prune_rules]: "prunes P (map_error f (read_dir p))"
  by (intro quiet_prunes quiet_map_error read_dir_quiet)

lemma and_then_Inr: "and_then m k s = (s', Inr y) \<longleftrightarrow> (\<exists>s1 x. m s = (s1, Inr x) \<and> k x s1 = (s', Inr y))"
  by (auto simp: and_then_def split: prod.splits sum.splits)

lemma map_error_Inr: "map_error f m s = (s', Inr y) \<longleftrightarrow> m s = (s', Inr y)"
  by (auto simp: map_error_def split: prod.splits sum.splits)

lemma entries_of_set: "node_at s (p @ [name]) = Some n \<Longrightarrow> (name, n) \<in> set (entries_of p (nodes s))"
  by (force simp: entries_of_def node_at_def dest: map_of_SomeD)

lemma read_dir_Inr: "read_dir p s = (s', Inr es) \<Longrightarrow> node_at s (p @ [name]) = Some n \<Longrightarrow> (name, n) \<in> set es"
  using entries_of_set by (auto simp: read_dir_def Let_def split: fault.splits option.splits node.splits)

text \<open>\<open>orphan\<close>: below a directory with a managed id that no row refers to.\<close>

definition unreferenced :: "path list \<Rightarrow> string \<Rightarrow> string \<Rightarrow> bool" where
  "unreferenced referenced tenant name \<longleftrightarrow> managedFileID name \<and> relative_dir tenant name \<notin> set referenced"

definition orphan :: "path \<Rightarrow> path list \<Rightarrow> path \<Rightarrow> bool" where
  "orphan filesDir referenced p \<longleftrightarrow>
     (\<exists>tenant name. below (filesDir @ [tenant, name]) p \<and> unreferenced referenced tenant name)"

lemma reconcile_entries_prunes: "prunes (orphan filesDir referenced) (reconcile_entries E filesDir tenant referenced es)"
proof (induction es)
  case (Cons e es)
  obtain name n where e: "e = (name, n)" by fastforce
  have "prunes (orphan filesDir referenced) (remove_all (filesDir @ [tenant, name]))"
    if "managedFileID name" "relative_dir tenant name \<notin> set referenced"
    by (rule prunes_remove_all) (use that in \<open>auto simp: orphan_def unreferenced_def\<close>)
  then show ?case using Cons by (auto simp: e intro!: prune_rules)
qed (simp add: prune_rules)

lemma reconcile_tenants_prunes: "prunes (orphan filesDir referenced) (reconcile_tenants E filesDir referenced ts)"
proof (induction ts)
  case (Cons t ts)
  then show ?case
    by (cases t) (auto intro!: prune_rules reconcile_entries_prunes)
qed (simp add: prune_rules)

lemma reconcile_entries_removes:
  "reconcile_entries E filesDir tenant referenced es s = (s', Inr ()) \<Longrightarrow> (name, Dir) \<in> set es \<Longrightarrow>
    unreferenced referenced tenant name \<Longrightarrow> node_at s' (filesDir @ [tenant, name]) = None"
proof (induction es arbitrary: s)
  case (Cons e es)
  obtain name' n where e: "e = (name', n)" by fastforce
  show ?case
  proof (cases "n = Dir \<and> unreferenced referenced tenant name'")
    case True
    then obtain s1 where r: "remove_all (filesDir @ [tenant, name']) s = (s1, Inr ())"
      and rest: "reconcile_entries E filesDir tenant referenced es s1 = (s', Inr ())"
      using Cons.prems(1) by (auto simp: e unreferenced_def and_then_Inr map_error_Inr)
    show ?thesis
    proof (cases "name = name'")
      case True
      have "node_at s1 (filesDir @ [tenant, name]) = None" using remove_all_gone [OF r] True by simp
      then show ?thesis using prunesD(2) [OF reconcile_entries_prunes rest] by metis
    next
      case False
      then show ?thesis using Cons.IH [OF rest] Cons.prems e by auto
    qed
  next
    case False
    then show ?thesis using Cons.IH [of s] Cons.prems e by (auto simp: unreferenced_def split: if_splits)
  qed
qed simp

lemma reconcile_tenants_removes:
  "reconcile_tenants E filesDir referenced ts s = (s', Inr ()) \<Longrightarrow> (tenant, Dir) \<in> set ts \<Longrightarrow>
    node_at s (filesDir @ [tenant, name]) \<in> {Some Dir, None} \<Longrightarrow> unreferenced referenced tenant name \<Longrightarrow>
    node_at s' (filesDir @ [tenant, name]) = None"
proof (induction ts arbitrary: s)
  case (Cons t ts)
  obtain tenant' n where t: "t = (tenant', n)" by fastforce
  let ?p = "filesDir @ [tenant, name]"
  show ?case
  proof (cases "n = Dir")
    case True
    then obtain s1 es s2 where r: "read_dir (filesDir @ [tenant']) s = (s1, Inr es)"
      and e: "reconcile_entries E filesDir tenant' referenced es s1 = (s2, Inr ())"
      and rest: "reconcile_tenants E filesDir referenced ts s2 = (s', Inr ())"
      using Cons.prems(1) by (auto simp: t and_then_Inr map_error_Inr)
    have s1: "node_at s1 ?p = node_at s ?p" using read_dir_quiet r unfolding quiet_def by blast
    have s2: "node_at s2 ?p = node_at s1 ?p \<or> node_at s2 ?p = None" using prunesD(2) [OF reconcile_entries_prunes e] .
    have same: "node_at s2 ?p = None" if "tenant = tenant'"
    proof (cases "node_at s ?p")
      case None
      then show ?thesis using s1 s2 by metis
    next
      case (Some d)
      then have "node_at s ?p = Some Dir" using Cons.prems(3) by simp
      moreover have "(filesDir @ [tenant']) @ [name] = ?p" using that by simp
      ultimately have "(name, Dir) \<in> set es" using read_dir_Inr [OF r, of name Dir] by metis
      moreover have "unreferenced referenced tenant' name" using Cons.prems(4) that by simp
      ultimately have "node_at s2 (filesDir @ [tenant', name]) = None" using reconcile_entries_removes [OF e] by blast
      then show ?thesis using that by simp
    qed
    show ?thesis
    proof (cases "tenant = tenant'")
      case True
      then show ?thesis using same prunesD(2) [OF reconcile_tenants_prunes rest] by metis
    next
      case False
      have "(tenant, Dir) \<in> set ts" using Cons.prems(2) t False by simp
      moreover have "node_at s2 ?p \<in> {Some Dir, None}" using Cons.prems(3) s1 s2 by (cases "node_at s2 ?p = None") simp_all
      ultimately show ?thesis using Cons.IH [OF rest] Cons.prems(4) by blast
    qed
  next
    case False
    then show ?thesis using Cons.IH [of s] Cons.prems t by auto
  qed
qed simp

lemma reconcile_prunes:
  assumes "store_SourcePaths flt rows = Inr paths"
  shows "prunes (orphan (data_dir settings @ [''files'']) (map clean_dir paths)) (ReconcileStorage E settings flt rows)"
proof -
  let ?files = "data_dir settings @ [''files'']"
  let ?go = "and_then (map_error (Wrapped ''read files directory: '') (read_dir ?files))
      (reconcile_tenants E ?files (map clean_dir paths))"
  have p: "prunes (orphan ?files (map clean_dir paths)) ?go"
    by (intro prune_rules reconcile_tenants_prunes)
  have l: "node_at s1 q = node_at s q" if "lstat ?files s = (s1, r)" for s s1 r q
    using that by (auto simp: lstat_def)
  show ?thesis
    unfolding prunes_def
  proof (intro allI impI)
    fix s s' r q
    assume run: "ReconcileStorage E settings flt rows s = (s', r)"
    obtain s1 r1 where ls: "lstat ?files s = (s1, r1)" by fastforce
    consider "s' = s1" | "?go s1 = (s', r)"
      using run assms ls by (auto simp: ReconcileStorage_def Let_def split: sum.splits option.splits if_splits)
    then show "(\<not> orphan ?files (map clean_dir paths) q \<longrightarrow> node_at s' q = node_at s q) \<and>
        (\<not> isl r \<longrightarrow> node_at s' q = node_at s q \<or> node_at s' q = None)"
    proof cases
      case 1
      then show ?thesis using l [OF ls, of q] by simp
    next
      case 2
      have "(\<not> orphan ?files (map clean_dir paths) q \<longrightarrow> node_at s' q = node_at s1 q) \<and>
          (\<not> isl r \<longrightarrow> node_at s' q = node_at s1 q \<or> node_at s' q = None)"
        using prunesD(1) [OF p 2] p [unfolded prunes_def, THEN spec, THEN spec, THEN spec, THEN spec, THEN mp, OF 2] by simp
      then show ?thesis using l [OF ls, of q] by simp
    qed
  qed
qed

lemma own_directory:
  assumes "length d = 3" and "d \<in> set referenced" and "below (root_dir @ d) p" and "hd d = ''files''"
  shows "\<not> orphan (root_dir @ [''files'']) referenced p"
proof
  assume "orphan (root_dir @ [''files'']) referenced p"
  then obtain tenant name where b: "below ((root_dir @ [''files'']) @ [tenant, name]) p"
    and u: "relative_dir tenant name \<notin> set referenced"
    by (auto simp: orphan_def unreferenced_def)
  have "root_dir @ d = root_dir @ relative_dir tenant name"
    using assms(1,3) b by (simp add: below_def relative_dir_def numeral_3_eq_3)
  then show False using assms(2) u by simp
qed

lemma reconcile_removes:
  assumes "ReconcileStorage E settings flt rows s = (s', Inr ())" and f: "filesDir = data_dir settings @ [''files'']"
    and "node_at s filesDir = Some Dir" and "node_at s (filesDir @ [tenant]) = Some Dir"
    and "node_at s (filesDir @ [tenant, name]) = Some Dir" and "managedFileID name"
    and "\<forall>g \<in> set rows. clean_dir (SourcePath g) \<noteq> relative_dir tenant name"
  shows "node_at s' (filesDir @ [tenant, name]) = None"
proof -
  let ?ref = "map clean_dir (map SourcePath rows)" and ?s1 = "s\<lparr>faults := tl (faults s)\<rparr>"
  have paths: "store_SourcePaths flt rows = Inr (map SourcePath rows)"
    using assms(1) by (auto simp: ReconcileStorage_def store_SourcePaths_def split: db_fault.splits)
  obtain s2 es where d: "read_dir filesDir ?s1 = (s2, Inr es)"
    and rest: "reconcile_tenants E filesDir ?ref es s2 = (s', Inr ())"
    using assms(1,3)
    by (auto simp: ReconcileStorage_def Let_def paths lstat_def and_then_Inr map_error_Inr simp flip: f
        split: fault.splits)
  have "node_at s2 (filesDir @ [tenant, name]) = node_at ?s1 (filesDir @ [tenant, name])"
    using read_dir_quiet d unfolding quiet_def by blast
  moreover have "(tenant, Dir) \<in> set es" using read_dir_Inr [OF d, of tenant Dir] assms(4) by simp
  moreover have "unreferenced ?ref tenant name" using assms(6,7) by (fastforce simp: unreferenced_def)
  ultimately show "node_at s' (filesDir @ [tenant, name]) = None"
    using reconcile_tenants_removes [OF rest] assms(5) by simp
qed

text \<open>C29. \<open>ReconcileStorage\<close> removes orphans and nothing else: whatever fails, a node only changes when it is
  in a directory \<open>files/<tenant>/<id>\<close> whose name is a managed id and which no row of the table refers to,
  so the files of every row, deleted and failed ones included, are kept; and when it succeeds none of
  these directories is left.\<close>

theorem reconcile_exact:
  assumes "ReconcileStorage E settings NoFault rows s = (s', r)" and "filesDir = data_dir settings @ [''files'']"
  shows "(\<forall>p. node_at s' p \<noteq> node_at s p \<longrightarrow> (\<exists>tenant name. below (filesDir @ [tenant, name]) p \<and> managedFileID name \<and>
      (\<forall>f \<in> set rows. clean_dir (SourcePath f) \<noteq> relative_dir tenant name)))
    \<and> (\<forall>f \<in> set rows. \<forall>p. length (clean_dir (SourcePath f)) = 3 \<longrightarrow> hd (clean_dir (SourcePath f)) = ''files'' \<longrightarrow>
        below (data_dir settings @ clean_dir (SourcePath f)) p \<longrightarrow> node_at s' p = node_at s p)
    \<and> (r = Inr () \<and> node_at s filesDir = Some Dir \<longrightarrow> (\<forall>tenant name. node_at s (filesDir @ [tenant]) = Some Dir \<longrightarrow>
        node_at s (filesDir @ [tenant, name]) = Some Dir \<longrightarrow> managedFileID name \<longrightarrow>
        (\<forall>f \<in> set rows. clean_dir (SourcePath f) \<noteq> relative_dir tenant name) \<longrightarrow>
        node_at s' (filesDir @ [tenant, name]) = None))"
proof (intro conjI)
  let ?ref = "map clean_dir (map SourcePath rows)"
  have paths: "store_SourcePaths NoFault rows = Inr (map SourcePath rows)" by (simp add: store_SourcePaths_def)
  note prunes = reconcile_prunes [OF paths, of settings E, folded assms(2)]
  have o: "(\<exists>tenant name. below (filesDir @ [tenant, name]) p \<and> managedFileID name \<and>
      (\<forall>f \<in> set rows. clean_dir (SourcePath f) \<noteq> relative_dir tenant name))" if "orphan filesDir ?ref p" for p
    using that unfolding orphan_def unreferenced_def set_map image_image by (metis image_eqI)
  show "\<forall>p. node_at s' p \<noteq> node_at s p \<longrightarrow> (\<exists>tenant name. below (filesDir @ [tenant, name]) p \<and> managedFileID name \<and>
      (\<forall>f \<in> set rows. clean_dir (SourcePath f) \<noteq> relative_dir tenant name))"
    using prunesD(1) [OF prunes assms(1)] o by blast
  show "\<forall>f \<in> set rows. \<forall>p. length (clean_dir (SourcePath f)) = 3 \<longrightarrow> hd (clean_dir (SourcePath f)) = ''files'' \<longrightarrow>
        below (data_dir settings @ clean_dir (SourcePath f)) p \<longrightarrow> node_at s' p = node_at s p"
  proof (intro ballI allI impI)
    fix f p
    assume f: "f \<in> set rows" "length (clean_dir (SourcePath f)) = 3" "hd (clean_dir (SourcePath f)) = ''files''"
      "below (data_dir settings @ clean_dir (SourcePath f)) p"
    then have "clean_dir (SourcePath f) \<in> set ?ref" by simp
    then show "node_at s' p = node_at s p"
      using prunesD(1) [OF prunes assms(1)] own_directory f assms(2) by blast
  qed
  show "r = Inr () \<and> node_at s filesDir = Some Dir \<longrightarrow> (\<forall>tenant name. node_at s (filesDir @ [tenant]) = Some Dir \<longrightarrow>
        node_at s (filesDir @ [tenant, name]) = Some Dir \<longrightarrow> managedFileID name \<longrightarrow>
        (\<forall>f \<in> set rows. clean_dir (SourcePath f) \<noteq> relative_dir tenant name) \<longrightarrow>
        node_at s' (filesDir @ [tenant, name]) = None)"
    using reconcile_removes assms by metis
qed

lemma remove_stale_prunes:
  "prunes (\<lambda>p. \<exists>name. has_prefix name ''gateway-request-'' \<and> below (workDir @ [name]) p) (remove_stale E workDir es)"
  (is "prunes ?P _")
proof (induction es)
  case (Cons e es)
  obtain name n where e: "e = (name, n)" by fastforce
  have "prunes ?P (remove_all (workDir @ [name]))" if "has_prefix name ''gateway-request-''"
    by (rule prunes_remove_all) (use that in auto)
  then show ?case using Cons by (auto simp: e intro!: prune_rules)
qed (simp add: prune_rules)

lemma remove_stale_removes:
  "remove_stale E workDir es s = (s', Inr ()) \<Longrightarrow> (name, Dir) \<in> set es \<Longrightarrow> has_prefix name ''gateway-request-'' \<Longrightarrow>
    node_at s' (workDir @ [name]) = None"
proof (induction es arbitrary: s)
  case (Cons e es)
  obtain name' n where e: "e = (name', n)" by fastforce
  show ?case
  proof (cases "n = Dir \<and> has_prefix name' ''gateway-request-''")
    case True
    then obtain s1 where r: "remove_all (workDir @ [name']) s = (s1, Inr ())"
      and rest: "remove_stale E workDir es s1 = (s', Inr ())"
      using Cons.prems(1) by (auto simp: e and_then_Inr map_error_Inr)
    show ?thesis
    proof (cases "name = name'")
      case True
      have "node_at s1 (workDir @ [name]) = None" using remove_all_gone [OF r] True by simp
      then show ?thesis using prunesD(2) [OF remove_stale_prunes rest] by metis
    qed (use Cons.IH [OF rest] Cons.prems e in auto)
  qed (use Cons.IH [of s] Cons.prems e in \<open>auto split: if_splits\<close>)
qed simp

text \<open>The cleanup of request directories at startup touches nothing but what is below an entry of the
  work directory whose name starts with \<open>gateway-request-\<close>, and when it succeeds no such directory is left;
  a symbolic link of that name is kept.\<close>

lemma stale_requests_removed:
  assumes "cleanupStaleRequestDirectories E workDir s = (s', r)"
  shows "(\<forall>p. (\<forall>name. has_prefix name ''gateway-request-'' \<longrightarrow> \<not> below (workDir @ [name]) p) \<longrightarrow> node_at s' p = node_at s p)
    \<and> (r = Inr () \<longrightarrow> (\<forall>name. has_prefix name ''gateway-request-'' \<longrightarrow> node_at s (workDir @ [name]) = Some Dir \<longrightarrow>
        node_at s' (workDir @ [name]) = None))"
proof (intro conjI allI impI)
  fix p assume "\<forall>name. has_prefix name ''gateway-request-'' \<longrightarrow> \<not> below (workDir @ [name]) p"
  moreover have "prunes (\<lambda>p. \<exists>name. has_prefix name ''gateway-request-'' \<and> below (workDir @ [name]) p)
      (cleanupStaleRequestDirectories E workDir)"
    unfolding cleanupStaleRequestDirectories_def by (intro prune_rules remove_stale_prunes)
  ultimately show "node_at s' p = node_at s p" using prunesD(1) assms by blast
next
  fix name assume r: "r = Inr ()" and n: "has_prefix name ''gateway-request-''" "node_at s (workDir @ [name]) = Some Dir"
  obtain s1 es where d: "read_dir workDir s = (s1, Inr es)" and rest: "remove_stale E workDir es s1 = (s', Inr ())"
    using assms r by (auto simp: cleanupStaleRequestDirectories_def and_then_Inr map_error_Inr)
  have "(name, Dir) \<in> set es" using read_dir_Inr [OF d n(2)] .
  then show "node_at s' (workDir @ [name]) = None" using remove_stale_removes [OF rest] n(1) by blast
qed

section \<open>The record of an upload\<close>

text \<open>Lower-casing makes no slash, and a tenant id is a path component.\<close>

definition plain_lower :: "env \<Rightarrow> bool" where
  "plain_lower E \<longleftrightarrow> (\<forall>s. CHR ''/'' \<notin> set s \<longrightarrow> CHR ''/'' \<notin> set (uni_lower E s))"

lemma ascii_lower_slash: "ascii_lower c = CHR ''/'' \<Longrightarrow> c = CHR ''/''"
proof (rule ccontr)
  assume l: "ascii_lower c = CHR ''/''" "c \<noteq> CHR ''/''"
  then have "char_of (of_char c + 32 :: nat) = CHR ''/''" "65 \<le> (of_char c :: nat)" "(of_char c :: nat) \<le> 90"
    by (auto simp: ascii_lower_def split: if_splits)
  then have "of_char (char_of (of_char c + 32 :: nat)) = (47 :: nat)" by simp
  then show False using \<open>65 \<le> (of_char c :: nat)\<close> \<open>(of_char c :: nat) \<le> 90\<close> by (simp add: of_char_of)
qed

lemma source_name_plain:
  assumes "plain_lower E"
  shows "plain_component (source_name E filename)"
proof -
  have "CHR ''/'' \<notin> set (path_ext (path_base filename))" by simp
  then have "CHR ''/'' \<notin> set (to_lower (uni_lower E) (path_ext (path_base filename)))"
    using assms by (auto simp: to_lower_def plain_lower_def dest!: ascii_lower_slash [OF sym])
  then show ?thesis by (auto simp: source_name_def plain_component_def)
qed

lemma hex_digit_plain: "n < 16 \<Longrightarrow> hex_digit n \<noteq> CHR ''/''"
proof
  assume "n < 16" "hex_digit n = CHR ''/''"
  then have "is_hex (CHR ''/'')" using is_hex_digit [of n] by simp
  then show False by (simp add: is_hex_def Let_def)
qed

lemma new_id:
  assumes "newFileID rnd = Inr i"
  shows "plain_component i" and "rnd = Inr v \<Longrightarrow> length v = 16 \<Longrightarrow> managedFileID i"
proof -
  obtain w where w: "rnd = Inr w" "i = ''file_'' @ hex_encode w"
    using assms by (auto simp: newFileID_def split: sum.splits)
  have "CHR ''/'' \<notin> set (hex_encode w)"
  proof -
    have "of_char c div 16 < (16 :: nat)" for c :: char using of_char_less_256 [of c] by linarith
    moreover have "of_char c mod 16 < (16 :: nat)" for c :: char by simp
    ultimately have "CHR ''/'' \<notin> set [hex_digit (of_char c div 16), hex_digit (of_char c mod 16)]" for c :: char
      using hex_digit_plain by (metis empty_iff insert_iff list.set(1,2))
    then show ?thesis unfolding hex_encode_def by auto
  qed
  then show "plain_component i" using w by (auto simp: plain_component_def)
  show "managedFileID i" if "rnd = Inr v" "length v = 16"
    using w that by (simp add: managedFileID_def length_hex_encode hex_decodes_encode has_prefix_def trim_prefix_def)
qed

lemma find_append: "find P (xs @ ys) = (case find P xs of None \<Rightarrow> find P ys | Some x \<Rightarrow> Some x)"
  by (induction xs) auto

text \<open>C28. The record that \<open>Create\<close> returns is the one the lifecycle of the file starts from: uploaded, without
  manifest, in a directory of its own whose name is the managed id of the file, with the path of its
  source file. It is visible to its tenant until the lifetime of the file has run out (forever, when the
  lifetime is not positive), and from then on it is among the expired files.\<close>

theorem create_record:
  assumes "plain_lower E" and "plain_component tenantID" and "rnd = Inr v" and "length v = 16"
    and "Create E settings dispatcher flt now rnd filename source purpose tenantID ttl s = (s', Inr f)"
    and "ID f \<notin> ID ` set (svc_rows s)" and "0 \<le> now" and "in64 (now + ttl div 10 ^ 9)"
    and "ttl \<le> 0 \<or> 10 ^ 9 \<le> ttl"
  shows "new_record f \<and> managedFileID (ID f) \<and> file_dir f = relative_dir tenantID (ID f) \<and>
    source_at settings f = data_dir settings @ relative_dir tenantID (ID f) @ [source_name E filename] \<and>
    (\<forall>t. store_Get NoFault t (svc_rows s') (ID f) tenantID =
      Inr (if ttl \<le> 0 \<or> t < now + ttl div 10 ^ 9 then Some f else None)) \<and>
    (\<forall>t. expired t f \<longleftrightarrow> \<not> (ttl \<le> 0 \<or> t < now + ttl div 10 ^ 9))"
proof -
  obtain i c content where i: "newFileID rnd = Inr i" and f: "f = new_file E c now i filename purpose tenantID ttl content"
    and rows: "svc_rows s' = svc_rows s @ [f]"
    using assms(5)
    by (auto simp: Create_def Let_def store_Add_def split: sum.splits prod.splits db_fault.splits if_splits)
  have "\<forall>x \<in> set (relative_dir tenantID i @ [source_name E filename]). plain_component x"
    using source_name_plain [OF assms(1)] new_id(1) [OF i] assms(2)
    by (auto simp: relative_dir_def) (simp add: plain_component_def)
  then have path: "path_of (SourcePath f) = relative_dir tenantID i @ [source_name E filename]"
    using f by (simp add: new_file_def path_of_slash_path del: slash_path_def)
  have e: "ExpiresAt f = (if ttl \<le> 0 then 0 else now + ttl div 10 ^ 9)"
    using f assms(8) by (simp add: new_file_def expiry_def go_div_nonneg wrap64_id)
  have pos: "\<not> ttl \<le> 0 \<Longrightarrow> now + ttl div 10 ^ 9 > 0"
  proof -
    assume "\<not> ttl \<le> 0"
    then have "ttl div 10 ^ 9 \<ge> 1" using assms(9) by (simp add: pos_imp_zdiv_pos_iff int_one_le_iff_zero_less)
    then show ?thesis using assms(7) by simp
  qed
  have fields: "DeletedAt f = None" "TenantID f = tenantID" "Status f = ''uploaded''" "ManifestPath f = None" "ID f = i"
    using f by (simp_all add: new_file_def)
  have live: "live t f \<longleftrightarrow> ttl \<le> 0 \<or> t < now + ttl div 10 ^ 9" for t
    using pos by (auto simp: live_def e fields)
  have get: "find (\<lambda>g. ID g = ID f \<and> TenantID g = tenantID \<and> live t g) (svc_rows s') = (if live t f then Some f else None)" for t
  proof -
    have "find (\<lambda>g. ID g = ID f \<and> TenantID g = tenantID \<and> live t g) (svc_rows s) = None"
      unfolding find_None_iff using assms(6) by (metis imageI)
    then show ?thesis using rows fields by (auto simp: find_append)
  qed
  show ?thesis
    using path new_id(2) [OF i assms(3,4)] get live pos
    by (auto simp: new_record_def file_wf_def file_dir_def source_at_def relative_dir_def store_Get_def query_row_def
        expired_def e fields)
qed

section \<open>Leases of the readers\<close>

text \<open>What a reader relies on: an acquired lease counts once, releasing it takes that back, and neither
  touches the leases of other files.\<close>

locale lease_register =
  fixes ok :: "'r \<Rightarrow> bool" and count :: "'r \<Rightarrow> string \<Rightarrow> int"
    and acquire :: "'r \<Rightarrow> string \<Rightarrow> 'r \<times> 'h result" and release :: "'r \<Rightarrow> string \<Rightarrow> 'h \<Rightarrow> 'r"
    and held :: "'r \<Rightarrow> string \<Rightarrow> 'h \<Rightarrow> bool"
  assumes acquire_refused: "acquire r i = (r', Inl e) \<Longrightarrow> r' = r"
    and acquire_granted: "ok r \<Longrightarrow> acquire r i = (r', Inr h) \<Longrightarrow>
      ok r' \<and> held r' i h \<and> count r' = (count r)(i := count r i + 1)"
    and release_held: "ok r \<Longrightarrow> held r i h \<Longrightarrow> ok (release r i h) \<and> count (release r i h) = (count r)(i := count r i - 1)"
begin

lemma bracket: "ok r \<Longrightarrow> acquire r i = (r', Inr h) \<Longrightarrow> ok (release r' i h) \<and> count (release r' i h) = count r"
  using acquire_granted [of r i r' h] release_held [of r' i h] by (simp add: fun_upd_idem)

lemma acquire_ok: "ok r \<Longrightarrow> acquire r i = (r', res) \<Longrightarrow> ok r'"
  by (cases res) (auto dest: acquire_refused acquire_granted)

end

definition lease_ok :: "registers \<Rightarrow> bool" where
  "lease_ok r \<longleftrightarrow> (\<forall>i h. leases r i = Some h \<longrightarrow> h < next_handle r \<and> 0 < refs (lease_at r h) \<and> \<not> closed (lease_at r h)) \<and>
     (\<forall>i j h. leases r i = Some h \<longrightarrow> leases r j = Some h \<longrightarrow> i = j)"

definition lease_count :: "registers \<Rightarrow> string \<Rightarrow> int" where
  "lease_count r i = (case leases r i of None \<Rightarrow> 0 | Some h \<Rightarrow> refs (lease_at r h))"

definition lease_held :: "registers \<Rightarrow> string \<Rightarrow> nat \<Rightarrow> bool" where
  "lease_held r i h \<longleftrightarrow> leases r i = Some h"

lemma lease_okD:
  "lease_ok r \<Longrightarrow> leases r i = Some h \<Longrightarrow> h < next_handle r"
  "lease_ok r \<Longrightarrow> leases r i = Some h \<Longrightarrow> 0 < refs (lease_at r h)"
  "lease_ok r \<Longrightarrow> leases r i = Some h \<Longrightarrow> \<not> closed (lease_at r h)"
  "lease_ok r \<Longrightarrow> leases r i = Some h \<Longrightarrow> leases r j = Some h \<Longrightarrow> i = j"
  unfolding lease_ok_def by blast+

lemma lease_change:
  assumes ok: "lease_ok r" and same: "\<forall>j. j \<noteq> i \<longrightarrow> leases r' j = leases r j \<and> leases r j \<noteq> Some h"
    and at: "\<forall>k. k \<noteq> h \<longrightarrow> lease_at r' k = lease_at r k" and nx: "next_handle r \<le> next_handle r'"
    and own: "leases r' i = None \<or> leases r' i = Some h \<and> h < next_handle r' \<and> 0 < refs (lease_at r' h) \<and> \<not> closed (lease_at r' h)"
  shows "lease_ok r'" and "j \<noteq> i \<Longrightarrow> lease_count r' j = lease_count r j"
proof -
  have other: "leases r j = Some k \<and> k \<noteq> h \<and> lease_at r' k = lease_at r k" if "j \<noteq> i" "leases r' j = Some k" for j k
    using that same at by metis
  have one: "k < next_handle r' \<and> 0 < refs (lease_at r' k) \<and> \<not> closed (lease_at r' k)" if "leases r' j = Some k" for j k
  proof (cases "j = i")
    case True
    then show ?thesis using own that by auto
  next
    case False
    note o = other [OF False that]
    have "k < next_handle r" "0 < refs (lease_at r k)" "\<not> closed (lease_at r k)"
      using o lease_okD(1,2,3) [OF ok] by blast+
    then show ?thesis using o nx by simp
  qed
  have two: "j = j'" if "leases r' j = Some k" "leases r' j' = Some k" for j j' k
  proof (cases "j = i \<or> j' = i")
    case True
    then have "k = h" using own that by auto
    then show ?thesis using True other that by metis
  next
    case False
    then show ?thesis using other that lease_okD(4) [OF ok] by metis
  qed
  show "lease_ok r'" unfolding lease_ok_def using one two by blast
  show "lease_count r' j = lease_count r j" if "j \<noteq> i"
    using other [OF that] same that by (auto simp: lease_count_def split: option.splits)
qed

lemma only_one: "lease_ok r \<Longrightarrow> leases r i = Some h \<Longrightarrow> j \<noteq> i \<Longrightarrow> leases r j \<noteq> Some h"
  using lease_okD(4) by blast

lemma acquire_old_lease:
  assumes "lease_ok r" and "deleting r i = None" and "leases r i = Some h"
  shows "\<exists>r'. acquireLease r i = (r', Inr h) \<and> lease_ok r' \<and> lease_held r' i h \<and>
    lease_count r' = (lease_count r)(i := lease_count r i + 1)"
proof -
  let ?r = "r\<lparr>lease_at := (lease_at r)(h := (lease_at r h)\<lparr>refs := refs (lease_at r h) + 1\<rparr>)\<rparr>"
  have a: "acquireLease r i = (?r, Inr h)" using assms by (simp add: acquireLease_def)
  have pos: "0 < refs (lease_at r h) + 1" using lease_okD(2) [OF assms(1,3)] by simp
  note ch = lease_change [OF assms(1), of i ?r h]
  have 1: "lease_ok ?r" "j \<noteq> i \<Longrightarrow> lease_count ?r j = lease_count r j" for j
    by (rule ch; use pos assms(3) only_one [OF assms(1,3)] lease_okD(1,3) [OF assms(1,3)] in simp)+
  have "lease_count ?r i = lease_count r i + 1" using assms(3) by (simp add: lease_count_def)
  then have "lease_count ?r = (lease_count r)(i := lease_count r i + 1)" using 1(2) by (intro ext) auto
  then show ?thesis using a 1(1) assms(3) by (auto simp: lease_held_def)
qed

lemma acquire_new_lease:
  assumes "lease_ok r" and "deleting r i = None" and "leases r i = None"
  shows "\<exists>r'. acquireLease r i = (r', Inr (next_handle r)) \<and> lease_ok r' \<and> lease_held r' i (next_handle r) \<and>
    lease_count r' = (lease_count r)(i := lease_count r i + 1)"
proof -
  let ?h = "next_handle r"
  let ?r = "r\<lparr>lease_at := (lease_at r)(?h := \<lparr>refs = 1, lease_done = False, closed = False\<rparr>),
    leases := (leases r)(i := Some ?h), next_handle := Suc ?h\<rparr>"
  have a: "acquireLease r i = (?r, Inr ?h)" using assms by (simp add: acquireLease_def Let_def)
  have n: "leases r j \<noteq> Some ?h" for j using lease_okD(1) [OF assms(1), of j ?h] by auto
  note ch = lease_change [OF assms(1), of i ?r ?h]
  have 1: "lease_ok ?r" "j \<noteq> i \<Longrightarrow> lease_count ?r j = lease_count r j" for j
    by (rule ch; use n in simp)+
  have "lease_count ?r i = lease_count r i + 1" using assms(3) by (simp add: lease_count_def)
  then have "lease_count ?r = (lease_count r)(i := lease_count r i + 1)" using 1(2) by (intro ext) auto
  then show ?thesis using a 1(1) by (auto simp: lease_held_def)
qed

lemma release_lease:
  assumes "lease_ok r" and "lease_held r i h"
  shows "lease_ok (releaseLease r i h) \<and> lease_count (releaseLease r i h) = (lease_count r)(i := lease_count r i - 1)"
proof -
  have l: "leases r i = Some h" using assms(2) by (simp add: lease_held_def)
  let ?r = "releaseLease r i h"
  note facts = lease_okD(1,2,3) [OF assms(1) l]
  have nx: "next_handle ?r = next_handle r" and at: "k \<noteq> h \<Longrightarrow> lease_at ?r k = lease_at r k"
    and ls: "j \<noteq> i \<Longrightarrow> leases ?r j = leases r j" for k j
    by (simp_all add: releaseLease_def Let_def)
  have own: "leases ?r i = None \<and> refs (lease_at r h) = 1 \<or>
      leases ?r i = Some h \<and> refs (lease_at ?r h) = refs (lease_at r h) - 1 \<and> refs (lease_at r h) \<noteq> 1 \<and> \<not> closed (lease_at ?r h)"
    using facts l by (simp add: releaseLease_def Let_def)
  note ch = lease_change [OF assms(1), of i ?r h]
  have 1: "lease_ok ?r" "j \<noteq> i \<Longrightarrow> lease_count ?r j = lease_count r j" for j
    by (rule ch; use own facts nx at ls only_one [OF assms(1) l] in auto)+
  have "lease_count ?r i = lease_count r i - 1" using own l by (auto simp: lease_count_def)
  then have "lease_count ?r = (lease_count r)(i := lease_count r i - 1)" using 1(2) by (intro ext) auto
  then show ?thesis using 1(1) by simp
qed

interpretation reg: lease_register lease_ok lease_count acquireLease releaseLease lease_held
proof
  fix r i r' e
  show "acquireLease r i = (r', Inl e) \<Longrightarrow> r' = r"
    by (auto simp: acquireLease_def Let_def split: if_splits option.splits)
next
  fix r i r' h
  assume ok: "lease_ok r" and a: "acquireLease r i = (r', Inr h)"
  then have "deleting r i = None" by (auto simp: acquireLease_def split: if_splits)
  then show "lease_ok r' \<and> lease_held r' i h \<and> lease_count r' = (lease_count r)(i := lease_count r i + 1)"
    using a acquire_old_lease [OF ok, of i] acquire_new_lease [OF ok, of i]
    by (cases "leases r i") (auto simp del: fun_upd_apply)
qed (use release_lease in blast)

lemma resolve_open_balance:
  assumes "lease_ok (svc_regs s)" and "resolve_open E settings i param f s = (s', r)"
  shows "lease_ok (svc_regs s') \<and> svc_rows s' = svc_rows s \<and>
    (case r of Inl e \<Rightarrow> lease_count (svc_regs s') = lease_count (svc_regs s)
     | Inr (g, m, h) \<Rightarrow> g = f \<and> lease_held (svc_regs s') i h \<and> Status f \<noteq> ''failed'' \<and>
         lease_count (svc_regs s') = (lease_count (svc_regs s))(i := lease_count (svc_regs s) i + 1) \<and>
         (\<exists>mp content. ManifestPath f = Some mp \<and> node_at (svc_os s) (data_dir settings @ path_of mp) = Some (Reg content) \<and>
            decode_manifest E content = Some m))"
  using assms(2) reg.acquire_granted [OF assms(1), of i] reg.bracket [OF assms(1), of i]
  by (auto simp: resolve_open_def dest!: reg.acquire_refused read_file_Inr
      split: option.splits if_splits prod.splits sum.splits simp del: fun_upd_apply)
    (use assms(1) in blast)+

lemma Resolve_balance:
  assumes "lease_ok (svc_regs s)" and run: "Resolve E settings polls i tenantID param s = (s', r)"
  shows "(case r of Some (Inr (f, m, h)) \<Rightarrow> lease_held (svc_regs s') i h \<and>
          lease_count (svc_regs s') = (lease_count (svc_regs s))(i := lease_count (svc_regs s) i + 1) \<and>
          (\<exists>mp content. ManifestPath f = Some mp \<and> decode_manifest E content = Some m \<and>
             node_at (svc_os s) (data_dir settings @ path_of mp) = Some (Reg content))
        | _ \<Rightarrow> lease_count (svc_regs s') = lease_count (svc_regs s)) \<and> lease_ok (svc_regs s')"
proof (cases "\<exists>f. snd (resolve_wait i tenantID param resolvePollInitial polls) = Some (Inr f)")
  case True
  then obtain f r1 where o: "resolve_open E settings i param f s = (s', r1)" "r = Some r1"
    using run by (auto simp: Resolve_def split: prod.splits)
  show ?thesis using resolve_open_balance [OF assms(1) o(1)] o(2)
    by (cases r1) (auto simp del: fun_upd_apply)
next
  case False
  then show ?thesis using run assms(1) by (auto simp: Resolve_def split: option.splits sum.splits)
qed

lemma OpenSource_balance:
  assumes "lease_ok (svc_regs s)" and "OpenSource E settings flt now i tenantID s = (s', r)"
  shows "(case r of Inr (f, b, h) \<Rightarrow> lease_held (svc_regs s') i h \<and>
          lease_count (svc_regs s') = (lease_count (svc_regs s))(i := lease_count (svc_regs s) i + 1)
        | Inl e \<Rightarrow> lease_count (svc_regs s') = lease_count (svc_regs s)) \<and> lease_ok (svc_regs s')"
  using assms reg.acquire_granted [OF assms(1), of i] reg.bracket [OF assms(1), of i]
  by (auto simp: OpenSource_def dest!: reg.acquire_refused
      split: option.splits prod.splits sum.splits simp del: fun_upd_apply)

text \<open>C26. A reader holds a lease on a file exactly while it may read it. \<open>Resolve\<close> and \<open>OpenSource\<close> return with
  one more lease on the file, and only on that file, when they succeed, and with all leases as they
  were when they fail, on whichever path; the manifest that \<open>Resolve\<close> returns is the one on disk of a file
  that the store showed to the tenant.\<close>

theorem leases_balanced:
  assumes "lease_ok (svc_regs s)"
  shows "(\<forall>s' r. Resolve E settings polls i tenantID param s = (s', r) \<longrightarrow>
      (case r of Some (Inr (f, m, h)) \<Rightarrow> lease_held (svc_regs s') i h \<and>
          lease_count (svc_regs s') = (lease_count (svc_regs s))(i := lease_count (svc_regs s) i + 1) \<and>
          (\<exists>mp content. ManifestPath f = Some mp \<and> decode_manifest E content = Some m \<and>
             node_at (svc_os s) (data_dir settings @ path_of mp) = Some (Reg content))
        | _ \<Rightarrow> lease_count (svc_regs s') = lease_count (svc_regs s)) \<and> lease_ok (svc_regs s')) \<and>
    (\<forall>s' r. OpenSource E settings flt now i tenantID s = (s', r) \<longrightarrow>
      (case r of Inr (f, b, h) \<Rightarrow> lease_held (svc_regs s') i h \<and>
          lease_count (svc_regs s') = (lease_count (svc_regs s))(i := lease_count (svc_regs s) i + 1)
        | Inl e \<Rightarrow> lease_count (svc_regs s') = lease_count (svc_regs s)) \<and> lease_ok (svc_regs s'))"
  using Resolve_balance [OF assms] OpenSource_balance [OF assms] by blast

section \<open>Polling\<close>

text \<open>A poll after which \<open>Resolve\<close> does not wait any longer.\<close>

definition decisive :: "string \<Rightarrow> string \<Rightarrow> poll \<Rightarrow> bool" where
  "decisive i tenantID p \<longleftrightarrow> poll_wake p \<noteq> TimerFired \<or>
     (case store_Get (poll_flt p) (poll_now p) (poll_rows p) i tenantID of
        Inr (Some f) \<Rightarrow> Status f \<noteq> ''uploaded'' \<and> Status f \<noteq> ''processing'' | _ \<Rightarrow> True)"

lemma resolve_wait_spec:
  "resolve_wait i tenantID param d polls = (waits, res) \<Longrightarrow> 0 < d \<Longrightarrow> d \<le> resolvePollMax \<Longrightarrow>
    (\<forall>k < length waits. min resolvePollMax (d * 2 ^ k) \<le> waits ! k \<and>
       waits ! k < min resolvePollMax (d * 2 ^ k) + resolvePollJitter) \<and>
    (res = None \<longleftrightarrow> \<not> list_ex (decisive i tenantID) polls) \<and>
    (\<forall>f. res = Some (Inr f) \<longrightarrow> Status f \<noteq> ''uploaded'' \<and> Status f \<noteq> ''processing'' \<and>
       (\<exists>p \<in> set polls. store_Get (poll_flt p) (poll_now p) (poll_rows p) i tenantID = Inr (Some f)))"
proof (induction i tenantID param d polls arbitrary: waits res rule: resolve_wait.induct)
  case (1 i tenantID param d)
  then show ?case by simp
next
  case (2 i tenantID param d p ps)
  let ?get = "store_Get (poll_flt p) (poll_now p) (poll_rows p) i tenantID"
  show ?case
  proof (cases "decisive i tenantID p")
    case True
    then show ?thesis using 2(2-4)
      by (cases "poll_wake p")
        (auto simp: decisive_def Let_def resolvePollJitter_def split: sum.splits option.splits if_splits)
  next
    case False
    then obtain f where get: "?get = Inr (Some f)" "Status f = ''uploaded'' \<or> Status f = ''processing''"
      and wake: "poll_wake p = TimerFired"
      by (auto simp: decisive_def split: sum.splits option.splits)
    let ?d = "if d * 2 > resolvePollMax then resolvePollMax else d * 2"
    obtain ws where rest: "resolve_wait i tenantID param ?d ps = (ws, res)"
      and w: "waits = (d + poll_random p mod resolvePollJitter) # ws"
      using 2(2) get wake by (auto simp: Let_def split: prod.splits if_splits)
    have d: "0 < ?d" "?d \<le> resolvePollMax" using 2(3,4) by auto
    have IH: "(\<forall>k < length ws. min resolvePollMax (?d * 2 ^ k) \<le> ws ! k \<and>
        ws ! k < min resolvePollMax (?d * 2 ^ k) + resolvePollJitter) \<and>
      (res = None \<longleftrightarrow> \<not> list_ex (decisive i tenantID) ps) \<and>
      (\<forall>f. res = Some (Inr f) \<longrightarrow> Status f \<noteq> ''uploaded'' \<and> Status f \<noteq> ''processing'' \<and>
       (\<exists>p \<in> set ps. store_Get (poll_flt p) (poll_now p) (poll_rows p) i tenantID = Inr (Some f)))"
      using 2(1) [OF get(1) HOL.refl _ HOL.refl wake HOL.refl rest d] get(2) by blast
    have step: "min resolvePollMax (?d * 2 ^ k) = min resolvePollMax (d * 2 ^ Suc k)" for k
    proof (cases "d * 2 > resolvePollMax")
      case True
      have "resolvePollMax * 1 \<le> resolvePollMax * 2 ^ k" by (rule mult_left_mono) (simp_all add: resolvePollMax_def)
      moreover have "d * 2 * 1 \<le> d * 2 * 2 ^ k" using 2(3) by (intro mult_left_mono) simp_all
      ultimately show ?thesis using True by simp
    qed simp
    have "min resolvePollMax (d * 2 ^ k) \<le> waits ! k \<and> waits ! k < min resolvePollMax (d * 2 ^ k) + resolvePollJitter"
      if "k < length waits" for k
    proof (cases k)
      case 0
      then show ?thesis using w 2(4) by (simp add: resolvePollJitter_def)
    next
      case (Suc n)
      then have "n < length ws" using that w by simp
      then have "min resolvePollMax (?d * 2 ^ n) \<le> ws ! n \<and> ws ! n < min resolvePollMax (?d * 2 ^ n) + resolvePollJitter"
        using IH by blast
      then show ?thesis unfolding step using w Suc by simp
    qed
    then show ?thesis using IH False by auto
  qed
qed

text \<open>C27. \<open>Resolve\<close> polls with a growing delay and stops in time: the k-th wait lies between \<open>100 * 2^k\<close>
  milliseconds, at most two seconds, and half a second more, so no wait takes 2.5 seconds or longer; it
  returns at the first poll that finds the file gone, processed or failed, or whose wait is interrupted,
  and waits on only as long as there is no such poll; and what it goes on with is a file that a poll has
  shown as no longer pending.\<close>

theorem resolve_polling:
  assumes "resolve_wait i tenantID param resolvePollInitial polls = (waits, res)"
  shows "(\<forall>k < length waits. min (2 * 10 ^ 9) (100 * 10 ^ 6 * 2 ^ k) \<le> waits ! k \<and> waits ! k < min (2 * 10 ^ 9) (100 * 10 ^ 6 * 2 ^ k) + 500 * 10 ^ 6 \<and> waits ! k < 2500 * 10 ^ 6) \<and>
    (res = None \<longleftrightarrow> \<not> list_ex (decisive i tenantID) polls) \<and>
    (\<forall>f. res = Some (Inr f) \<longrightarrow> Status f \<noteq> ''uploaded'' \<and> Status f \<noteq> ''processing'' \<and>
       (\<exists>p \<in> set polls. store_Get (poll_flt p) (poll_now p) (poll_rows p) i tenantID = Inr (Some f)))"
proof -
  have w: "\<forall>k < length waits. min (2 * 10 ^ 9) (100 * 10 ^ 6 * 2 ^ k) \<le> waits ! k \<and> waits ! k < min (2 * 10 ^ 9) (100 * 10 ^ 6 * 2 ^ k) + 500 * 10 ^ 6"
    using resolve_wait_spec [OF assms] by (simp add: resolvePollInitial_def resolvePollMax_def resolvePollJitter_def)
  then have "\<forall>k < length waits. waits ! k < 2500 * 10 ^ 6" by (auto simp: min_def split: if_splits)
  then show ?thesis using w resolve_wait_spec [OF assms] by (simp add: resolvePollInitial_def resolvePollMax_def)
qed

end
