(* ===== verification/Upload_To_Inference.thy ===== *)
theory Upload_To_Inference
  imports File_Service_Correct
begin

text \<open>
  The way of a document through the components: uploaded by \<open>Create\<close>, converted by a worker with the
  converter that the dispatcher picks, resolved for a request. The links are the paths that the
  components agree on, the manifest as JSON on the disk and the status in the store.
\<close>

section \<open>Manifests that can be read back\<close>

definition manifest_ok :: "Manifest \<Rightarrow> bool" where
  "manifest_ok m \<longleftrightarrow> in64 (SchemaVersion m) \<and> (\<forall>d \<in> set (Documents m). \<forall>p \<in> set (Parts d). part_ok p)"

text \<open>The numbers of the image decoder and the renderer are of type \<open>int\<close>, and so is the number of pages.\<close>

definition ints_ok :: "env \<Rightarrow> bool" where
  "ints_ok E \<longleftrightarrow> (\<forall>b w h f. image_DecodeConfig E b = Inr (w, h, f) \<longrightarrow> in64 w \<and> in64 h) \<and>
     (\<forall>source out ro s s' images. RenderDocument E source out ro s = (s', Inr images) \<longrightarrow> int (length images) < 2 ^ 63 - 1 \<and>
        (\<forall>page \<in> set images. in64 (img_PageNumber page) \<and> in64 (img_Width page) \<and> in64 (img_Height page)))"

definition gives :: "(os \<Rightarrow> os \<times> 'a result) \<Rightarrow> ('a \<Rightarrow> bool) \<Rightarrow> bool" where
  "gives m Q \<longleftrightarrow> (\<forall>s s' x. m s = (s', Inr x) \<longrightarrow> Q x)"

lemma gives_and_then: "gives m Q \<Longrightarrow> (\<And>x. Q x \<Longrightarrow> gives (k x) R) \<Longrightarrow> gives (and_then m k) R"
  unfolding gives_def and_then_Inr by blast

lemma gives_any: "gives m (\<lambda>_. True)"
  by (simp add: gives_def)

lemma gives_returns: "Q x \<Longrightarrow> gives (returns x) Q"
  by (simp add: gives_def returns_def)

lemma gives_with_output: "gives m Q \<Longrightarrow> gives (withOutputDirectory out m) Q"
  by (auto simp: gives_def withOutputDirectory_def split: prod.splits sum.splits)

lemma gives_cancelled_after: "gives m Q \<Longrightarrow> gives (\<lambda>s. cancelled_after out (m s)) Q"
  by (auto simp: gives_def cancelled_after_def split: prod.splits option.splits) (metis prod.collapse snd_conv)

lemma gives_unless_cancelled: "gives m Q \<Longrightarrow> gives (unless_cancelled m) Q"
  by (auto simp: gives_def unless_cancelled_def split: prod.splits option.splits)

lemma gives_poll_after: "gives m Q \<Longrightarrow> gives (poll_after m) Q"
  by (auto simp: gives_def poll_after_def split: prod.splits option.splits)

lemma gives_map_error: "gives m Q \<Longrightarrow> gives (map_error f m) Q"
  by (simp add: gives_def map_error_Inr)

lemma gives_writeResult:
  assumes "\<forall>p \<in> set parts. part_ok p"
  shows "gives (writeResult E source out mt parts) (\<lambda>res. manifest_ok (ResultManifest res))"
  unfolding writeResult_def Let_def
  by (intro gives_and_then [OF gives_any] gives_returns)
    (use assms in \<open>simp add: manifest_ok_def newManifest_def ManifestSchemaVersion_def in64_def\<close>)

lemma gives_text_parts: "int (n + length texts) < 2 ^ 63 \<Longrightarrow>
    gives (write_text_parts out n texts) (\<lambda>parts. \<forall>p \<in> set parts. part_ok p)"
proof (induction texts arbitrary: n)
  case (Cons t texts)
  have "int (Suc n + length texts) < 2 ^ 63" using Cons.prems by simp
  note IH = Cons.IH [OF this]
  show ?case unfolding write_text_parts.simps Let_def
    by (rule gives_and_then [OF gives_any gives_and_then [OF IH gives_returns]])
      (use Cons.prems in \<open>auto simp: text_part_def part_ok_def in64_def\<close>)
qed (simp add: gives_returns)

lemma gives_pages: "\<forall>page \<in> set pages. in64 (img_PageNumber page) \<and> in64 (img_Width page) \<and> in64 (img_Height page) \<Longrightarrow>
    int (n + length pages) < 2 ^ 63 \<Longrightarrow>
    gives (write_pages E out fmt extracted n pages) (\<lambda>parts. \<forall>p \<in> set parts. part_ok p)"
proof (induction pages arbitrary: n)
  case (Cons page pages)
  have "int (Suc n + length pages) < 2 ^ 63" using Cons.prems by simp
  then have IH: "gives (write_pages E out fmt extracted (Suc n) pages) (\<lambda>parts. \<forall>p \<in> set parts. part_ok p)"
    using Cons by simp
  show ?case unfolding write_pages.simps Let_def
    by (rule gives_and_then [OF gives_any gives_and_then [OF gives_any gives_and_then [OF IH gives_returns]]])
      (use Cons.prems in \<open>auto simp: part_ok_def in64_def\<close>)
qed (simp add: gives_returns)

lemma gives_text: "gives (convertExtractedText E source out mt ex options) (\<lambda>res. manifest_ok (ResultManifest res))"
proof -
  have "gives (convertTextDocument E source out mt [t] options) (\<lambda>res. manifest_ok (ResultManifest res))" for t
  proof (cases "validateTextLimit [t] (MaxTextChars options)")
    case None
    have "gives (and_then (write_text_parts out 1 [t]) (writeResult E source out mt)) (\<lambda>res. manifest_ok (ResultManifest res))"
      by (rule gives_and_then [OF gives_text_parts gives_writeResult]) simp_all
    then show ?thesis unfolding convertTextDocument_def using None by (simp add: gives_with_output)
  qed (simp add: convertTextDocument_def gives_def fails_def)
  then show ?thesis unfolding convertExtractedText_def
    by (intro gives_unless_cancelled gives_and_then [OF gives_any] gives_cancelled_after)
qed

lemma gives_image:
  assumes "ints_ok E"
  shows "gives (convertImage E source out mt) (\<lambda>res. manifest_ok (ResultManifest res))"
proof -
  have size: "gives (imageSize E source) (\<lambda>(w, h, f). in64 w \<and> in64 h)"
    using assms by (auto simp: gives_def imageSize_def and_then_Inr ints_ok_def)
  have "gives (convertImageDocument E source out mt w h) (\<lambda>res. manifest_ok (ResultManifest res))" if "in64 w" "in64 h" for w h
    unfolding convertImageDocument_def Let_def
    by (intro gives_with_output gives_and_then [OF gives_any] gives_writeResult)
      (use that in \<open>simp add: part_ok_def in64_def\<close>)
  then show ?thesis unfolding convertImage_def
    by (intro gives_unless_cancelled gives_and_then [OF gives_poll_after [OF size]])
      (auto intro!: gives_cancelled_after)
qed

lemma gives_rendered:
  assumes "ints_ok E"
  shows "gives (convertRenderedDocument E source out mt config options) (\<lambda>res. manifest_ok (ResultManifest res))"
proof -
  have r: "gives (RenderDocument E source out ro) (\<lambda>images. int (length images) < 2 ^ 63 - 1 \<and>
        (\<forall>page \<in> set images. in64 (img_PageNumber page) \<and> in64 (img_Width page) \<and> in64 (img_Height page)))" for ro
    using assms unfolding gives_def ints_ok_def by blast
  show ?thesis unfolding convertRenderedDocument_def
    by (rule gives_with_output, rule gives_and_then [OF gives_map_error [OF r]],
        rule gives_and_then [OF gives_any], rule gives_and_then [OF gives_pages gives_writeResult])
      auto
qed

lemma resolved_gives:
  assumes "ints_ok E" and "ResolveConverter E (NewDispatcher E (NewInTreeRegistry E) config) p = Inr c"
  shows "gives (Convert c source out options) (\<lambda>res. manifest_ok (ResultManifest res))"
  using assms(2) gives_image [OF assms(1)] gives_rendered [OF assms(1)]
  by (cases rule: resolved_cases) (simp_all add: newTextConverter_def rendered_def imaged_def gives_text)

section \<open>From the upload to the inference\<close>

lemma update_new_row:
  assumes "ID f \<notin> ID ` set rows" and "DeletedAt f = None"
  shows "store_UpdateStatus NoFault (rows @ [f]) (ID f) status mp em = (rows @ [set_status status mp em f], Inr True)"
proof -
  have n: "\<forall>g \<in> set rows. ID g \<noteq> ID f" using assms(1) by (metis imageI)
  then have "filter (\<lambda>g. ID g = ID f \<and> DeletedAt g = None) rows = []" by (simp add: filter_empty_conv)
  moreover have "map (\<lambda>g. if ID g = ID f \<and> DeletedAt g = None then set_status status mp em g else g) rows = rows"
    using n by (intro map_idI) simp
  ultimately show ?thesis using assms(2) by (simp add: store_UpdateStatus_def affect_def Let_def)
qed

lemma find_new_row: "\<forall>g \<in> set rows. \<not> P g \<Longrightarrow> find P (rows @ [f]) = (if P f then Some f else None)"
  by (induction rows) auto

lemma convert_new_row:
  assumes "svc_rows s = rows @ [f]" and "ID f \<notin> ID ` set rows" and "DeletedAt f = None"
    and "convert E settings dispatcher NoFault NoFault NoFault (ID f) (Some c) s = (s', None)"
  obtains res where
    "Convert c (source_at settings f) (butlast (source_at settings f) @ [''derived'']) (conversion_options settings) (svc_os s)
       = (svc_os s', Inr res)"
    "svc_rows s' = rows @ [set_status ''processed'' (manifest_path f) [] (set_status ''processing'' [] [] f)]"
    "svc_regs s' = svc_regs s"
proof -
  let ?f = "set_status ''processing'' [] [] f"
  have n: "\<forall>g \<in> set rows. ID g \<noteq> ID f" using assms(2) by (metis imageI)
  have get: "store_GetInternal NoFault (svc_rows s) (ID f) = Inr (Some f)"
    using n by (simp add: store_GetInternal_def query_row_def assms(1) find_new_row)
  have up: "store_UpdateStatus NoFault (svc_rows s) (ID f) ''processing'' [] [] = (rows @ [?f], Inr True)"
    using update_new_row [OF assms(2,3)] assms(1) by simp
  have f': "ID ?f = ID f" "DeletedAt ?f = None" using assms(3) by (simp_all add: set_status_def)
  have up2: "store_UpdateStatus NoFault (rows @ [?f]) (ID f) ''processed'' (manifest_path f) []
      = (rows @ [set_status ''processed'' (manifest_path f) [] ?f], Inr True)"
    using update_new_row [of ?f rows] assms(2) f' by simp
  obtain o1 r where c: "Convert c (source_at settings f) (butlast (source_at settings f) @ [''derived''])
      (conversion_options settings) (svc_os s) = (o1, r)" by fastforce
  have run: "run_converter settings NoFault (ID f) f c (s\<lparr>svc_rows := rows @ [?f]\<rparr>) = (s', None)"
    using assms(3,4) by (simp add: convert_def get up convert_lookup_def convert_started_def Let_def)
  show thesis
  proof (cases r)
    case (Inl e)
    then show thesis using run c by (simp add: run_converter_def Let_def)
  next
    case (Inr res)
    then show thesis using run c up2 that by (auto simp: run_converter_def Let_def convert_finished_def)
  qed
qed

lemma created_row:
  assumes "Create E settings dispatcher flt now rnd filename source purpose tenantID ttl s = (s', Inr f)"
  obtains c i content where "svc_rows s' = svc_rows s @ [f]" "svc_submitted s' = svc_submitted s @ [(ID f, Some c)]"
    "ResolveConverter E dispatcher (path_base filename) = Inr c" "newFileID rnd = Inr i" "svc_regs s' = svc_regs s"
    "f = new_file E c now i filename purpose tenantID ttl content"
  using assms by (auto simp: Create_def Let_def store_Add_def new_file_def
      split: sum.splits prod.splits db_fault.splits if_splits)

lemma created_paths:
  assumes "plain_lower E" and "plain_component tenantID" and "newFileID rnd = Inr i"
    and "f = new_file E c now i filename purpose tenantID ttl content"
  shows "path_of (SourcePath f) = relative_dir tenantID i @ [source_name E filename]"
    and "path_of (manifest_path f) = relative_dir tenantID i @ [''manifest.json'']"
proof -
  have plain: "\<forall>x \<in> set (relative_dir tenantID i @ [n]). plain_component x" if "plain_component n" for n
    using new_id(1) [OF assms(3)] assms(2) that by (auto simp: relative_dir_def) (simp add: plain_component_def)
  show src: "path_of (SourcePath f) = relative_dir tenantID i @ [source_name E filename]"
    using plain [OF source_name_plain [OF assms(1)]] assms(4) by (simp add: new_file_def path_of_slash_path)
  have "plain_component ''manifest.json''" by (simp add: plain_component_def)
  then show "path_of (manifest_path f) = relative_dir tenantID i @ [''manifest.json'']"
    using plain by (simp add: manifest_path_def file_dir_def src path_of_slash_path)
qed


section \<open>A concrete upload\<close>

definition demo_settings :: Config where
  "demo_settings = \<lparr>Address = ''127.0.0.1:8080'', VLLMModel = ''m'',
     VLLMBaseURL = \<lparr>url_Scheme = ''http'', url_Host = ''vllm'', url_Path = ''/v1'', url_RawQuery = []\<rparr>,
     GatewayAuthRequired = True, GatewayAPIKey = ''secret'', VLLMAPIKey = ''key'', DataDir = ''data'', FileTTL = 300 * 10 ^ 9,
     MaxFileBytes = 10, MaxRequestBodyBytes = 40, MaxDocumentPages = 50, MaxDocumentTextChars = 100,
     MaxDocumentPDFBytes = 1000, MaxDocumentPageWidth = 100, MaxDocumentPageHeight = 100, MaxDocumentPagePixels = 1000,
     MaxDocumentPixels_setting = 1000, MaxDocumentOOXMLMembers = 10, MaxDocumentOOXMLMemberBytes = 1000,
     MaxDocumentOOXMLTotalBytes = 1000, DocumentDPI = 300, DocumentRenderTimeout = 0, DocumentLibreOfficeTimeout = 0,
     TextExtractionEnabled = True, Workers = 1, ConversionQueueCapacity = 0, MaxConcurrentRequests = 0,
     RequestTimeout = 0, LogVerbosity = 0\<rparr>"

definition demo_dispatcher :: Dispatcher where
  "demo_dispatcher = NewDispatcher demo_env (NewInTreeRegistry demo_env) DefaultConverterConfig"

definition demo_rnd :: string where "demo_rnd = replicate 16 (CHR 0x5A)"

definition demo_start :: service where
  "demo_start = \<lparr>svc_os = \<lparr>nodes = [([''data''], Dir), ([''data'', ''keep''], Reg (Raw ''x''))], faults = [], rm_faults = [], ctx_polls = None\<rparr>,
     svc_rows = [], svc_regs = registers_init, svc_submitted = []\<rparr>"

definition upload :: "string \<Rightarrow> reader" where
  "upload data = \<lparr>rd_data = data, rd_err = None, rd_joined = False\<rparr>"

definition demo_create :: "string \<Rightarrow> service \<times> File result" where
  "demo_create data = Create demo_env demo_settings demo_dispatcher NoFault 1000 (Inr demo_rnd) ''dir/a.txt''
     (upload data) ''assistants'' ''tenant'' (300 * 10 ^ 9) demo_start"

definition demo_id :: string where "demo_id = ''file_'' @ hex_encode demo_rnd"

definition demo_convert :: "service \<Rightarrow> service \<times> go_error option" where
  "demo_convert s = convert demo_env demo_settings demo_dispatcher NoFault NoFault NoFault demo_id (snd (last (svc_submitted s))) s"

definition demo_outcome :: "(unit + string) \<times> go_error option \<times> fault list" where
  "demo_outcome = (let (s1, r) = demo_create ''hello''; (s2, err) = demo_convert s1
     in (map_sum (\<lambda>_. ()) ID r, err, faults (svc_os s2)))"

lemma demo_evaluates: "demo_outcome = (Inr demo_id, None, [])"
  by code_simp

lemma demo_runs:
  obtains s1 f s2 where "demo_create ''hello'' = (s1, Inr f)" "ID f = demo_id" "demo_convert s1 = (s2, None)" "faults (svc_os s2) = []"
proof -
  obtain s1 r s2 err where c: "demo_create ''hello'' = (s1, r)" "demo_convert s1 = (s2, err)" by fastforce
  then show thesis using demo_evaluates that by (cases r) (auto simp: demo_outcome_def)
qed

lemma demo_rejects: "isl (snd (demo_create ''hello world''))"
  by code_simp

lemma demo_env_facts: "plain_lower demo_env" "ints_ok demo_env" "plain_component ''tenant''" "length demo_rnd = 16"
  "newFileID (Inr demo_rnd) = Inr demo_id"
  by (simp_all add: plain_lower_def ints_ok_def demo_env_def plain_component_def demo_rnd_def newFileID_def demo_id_def)

lemma demo_nothing_below: "\<forall>p. below (data_dir demo_settings @ relative_dir ''tenant'' demo_id) p \<longrightarrow> node_at (svc_os demo_start) p = None"
proof -
  have "data_dir demo_settings = [''data'']" by code_simp
  then show ?thesis by (auto simp: demo_start_def node_at_def relative_dir_def below_def)
qed


theorem create_all_or_nothing_witness:
  "(\<exists>s1 f. demo_create ''hello'' = (s1, Inr f) \<and> Bytes f = 5) \<and>
   (\<exists>s1 e. demo_create ''hello world'' = (s1, Inl e) \<and> svc_rows s1 = [] \<and>
      (\<forall>p. below (data_dir demo_settings @ relative_dir ''tenant'' demo_id) p \<longrightarrow> node_at (svc_os s1) p = None))"
proof -
  note facts = create_all_or_nothing [OF demo_dispatcher_def demo_env_facts(5) HOL.refl _ demo_nothing_below,
    of NoFault 1000 "''dir/a.txt''" "upload data" "''assistants''" "300 * 10 ^ 9" for data]
  have rm: "rm_faults (svc_os demo_start) = []" "MaxFileBytes demo_settings < 2 ^ 63 - 1"
    by (simp_all add: demo_start_def demo_settings_def)
  obtain s1 f s2 where c: "demo_create ''hello'' = (s1, Inr f)" by (rule demo_runs)
  have "Bytes f = 5" using facts [OF rm c [unfolded demo_create_def]] by (simp add: upload_def)
  moreover obtain s3 e where d: "demo_create ''hello world'' = (s3, Inl e)"
    using demo_rejects by (cases "demo_create ''hello world''") (auto simp: isl_def)
  moreover have "svc_rows s3 = []" "\<forall>p. below (data_dir demo_settings @ relative_dir ''tenant'' demo_id) p \<longrightarrow> node_at (svc_os s3) p = None"
    using facts [OF rm d [unfolded demo_create_def]] by (simp_all add: demo_start_def)
  ultimately show ?thesis using c by blast
qed

theorem create_record_witness:
  "\<exists>s1 f. demo_create ''hello'' = (s1, Inr f) \<and> new_record f \<and> managedFileID demo_id \<and>
     store_Get NoFault 1299 (svc_rows s1) demo_id ''tenant'' = Inr (Some f) \<and> store_Get NoFault 1300 (svc_rows s1) demo_id ''tenant'' = Inr None"
proof -
  obtain s1 f s2 where c: "demo_create ''hello'' = (s1, Inr f)" "ID f = demo_id" by (rule demo_runs)
  have n: "ID f \<notin> ID ` set (svc_rows demo_start)" by (simp add: demo_start_def)
  have t: "0 \<le> (1000 :: int)" "in64 (1000 + 300 * 10 ^ 9 div 10 ^ 9)" "(300 * 10 ^ 9 :: int) \<le> 0 \<or> 10 ^ 9 \<le> (300 * 10 ^ 9 :: int)"
    by (simp_all add: in64_def)
  note r = create_record [OF demo_env_facts(1,3) HOL.refl demo_env_facts(4) c(1) [unfolded demo_create_def] n t]
  show ?thesis using r c by (intro exI [of _ s1] exI [of _ f]) simp
qed

lemma succeeds: "isl (snd x) = False \<Longrightarrow> \<exists>s'. x = (s', Inr ())"
  by (cases x; cases "snd x") auto

definition demo_tree :: os where
  "demo_tree = \<lparr>nodes = [([''data'', ''files''], Dir), ([''data'', ''files'', ''tenant''], Dir),
     ([''data'', ''files'', ''tenant'', demo_id], Dir), ([''data'', ''files'', ''tenant'', demo_id, ''source''], Reg (Raw ''x'')),
     ([''data'', ''files'', ''tenant'', ''notes''], Dir)], faults = [], rm_faults = [], ctx_polls = None\<rparr>"

lemma demo_id_managed: "managedFileID demo_id"
  using new_id(2) [OF demo_env_facts(5) HOL.refl demo_env_facts(4)] .

theorem reconcile_exact_witness:
  "\<exists>s'. ReconcileStorage demo_env demo_settings NoFault [] demo_tree = (s', Inr ()) \<and>
     node_at s' [''data'', ''files'', ''tenant'', demo_id] = None \<and> node_at s' [''data'', ''files'', ''tenant'', ''notes''] = Some Dir"
proof -
  have "isl (snd (ReconcileStorage demo_env demo_settings NoFault [] demo_tree)) = False" by code_simp
  then obtain s' where r: "ReconcileStorage demo_env demo_settings NoFault [] demo_tree = (s', Inr ())"
    using succeeds by metis
  have d: "data_dir demo_settings = [''data'']" by code_simp
  have t: "node_at demo_tree [''data'', ''files''] = Some Dir" "node_at demo_tree [''data'', ''files'', ''tenant''] = Some Dir"
    "node_at demo_tree [''data'', ''files'', ''tenant'', demo_id] = Some Dir" "node_at demo_tree [''data'', ''files'', ''tenant'', ''notes''] = Some Dir"
    by (auto simp: demo_tree_def node_at_def demo_id_def)
  note x = reconcile_exact [OF r HOL.refl, unfolded d]
  have "node_at s' [''data'', ''files'', ''tenant'', demo_id] = None" using x t demo_id_managed by simp
  moreover have "\<not> below ([''data'', ''files''] @ [tenant, name]) [''data'', ''files'', ''tenant'', ''notes''] \<or> \<not> managedFileID name" for tenant name
    by (auto simp: below_def managedFileID_def)
  ultimately show ?thesis using x t(4) r by (metis append_Cons append_Nil)
qed

theorem resolve_polling_witness:
  "list_ex (decisive ''a'' ''t'') [\<lparr>poll_flt = NoFault, poll_now = 0, poll_rows = [], poll_random = 3, poll_wake = TimerFired\<rparr>]
   \<and> resolve_wait ''a'' ''t'' ''p'' resolvePollInitial [\<lparr>poll_flt = NoFault, poll_now = 0, poll_rows = [], poll_random = 3, poll_wake = TimerFired\<rparr>]
       = ([], Some (Inl (not_found ''p'')))"
proof -
  have r: "resolve_wait ''a'' ''t'' ''p'' resolvePollInitial [\<lparr>poll_flt = NoFault, poll_now = 0, poll_rows = [], poll_random = 3, poll_wake = TimerFired\<rparr>]
       = ([], Some (Inl (not_found ''p'')))"
    by (simp add: store_Get_def query_row_def)
  then show ?thesis using resolve_polling [OF r] by simp
qed

theorem leases_balanced_witness:
  "\<exists>s' e. OpenSource demo_env demo_settings NoFault 0 demo_id ''tenant'' demo_start = (s', Inl e) \<and>
     lease_count (svc_regs s') = lease_count (svc_regs demo_start)"
proof -
  have l: "lease_ok (svc_regs demo_start)" by (simp add: demo_start_def registers_init_def lease_ok_def)
  have r: "OpenSource demo_env demo_settings NoFault 0 demo_id ''tenant'' demo_start = (demo_start, Inl (not_found ''file_id''))"
    by (simp add: OpenSource_def demo_start_def store_Get_def query_row_def)
  show ?thesis using leases_balanced [OF l, of demo_env demo_settings "[]" demo_id "''tenant''" "[]" NoFault 0] r by auto
qed

end
