(* ===== verification/Http.thy ===== *)
theory Http
  imports File_Service
begin

text \<open>
  What the handlers of \<open>internal/server\<close> share: headers as \<open>net/http\<close> keeps them, requests and
  responses, the authentication of a client (\<open>tenantID\<close>), and the error responses (\<open>writeError\<close>,
  \<open>writeAnyError\<close>). A handler returns the response it writes, None when it writes nothing; the body of
  a response is a JSON value or the bytes copied from a reader.
\<close>

section \<open>Headers\<close>

text \<open>A \<open>http.Header\<close>: the values under each canonical key, in the order in which a loop meets them.\<close>

type_synonym header = "(string \<times> string list) list"

definition token_char :: "char \<Rightarrow> bool" where
  "token_char c \<longleftrightarrow> is_digit c \<or> (65 \<le> (of_char c :: nat) \<and> (of_char c :: nat) \<le> 90) \<or>
     (97 \<le> (of_char c :: nat) \<and> (of_char c :: nat) \<le> 122) \<or>
     c \<in> set ''!#$%&*+-.^_|~'' \<or> c = CHR 0x27 \<or> c = CHR 0x60"

definition ascii_upper :: "char \<Rightarrow> char" where
  "ascii_upper c = (if 97 \<le> (of_char c :: nat) \<and> (of_char c :: nat) \<le> 122
     then char_of (of_char c - 32 :: nat) else c)"

fun canon :: "bool \<Rightarrow> string \<Rightarrow> string" where
  "canon up [] = []"
| "canon up (c # s) = (if up then ascii_upper c else ascii_lower c) # canon (c = CHR ''-'') s"

definition CanonicalHeaderKey :: "string \<Rightarrow> string" where
  "CanonicalHeaderKey s = (if list_all token_char s then canon True s else s)"

definition header_Values :: "header \<Rightarrow> string \<Rightarrow> string list" where
  "header_Values h name = (case map_of h (CanonicalHeaderKey name) of None \<Rightarrow> [] | Some vs \<Rightarrow> vs)"

definition header_Get :: "header \<Rightarrow> string \<Rightarrow> string" where
  "header_Get h name = (case header_Values h name of [] \<Rightarrow> [] | v # _ \<Rightarrow> v)"

definition header_Del :: "header \<Rightarrow> string \<Rightarrow> header" where
  "header_Del h name = filter (\<lambda>kv. fst kv \<noteq> CanonicalHeaderKey name) h"

definition header_Set :: "header \<Rightarrow> string \<Rightarrow> string \<Rightarrow> header" where
  "header_Set h name v = (CanonicalHeaderKey name, [v]) # header_Del h name"

definition header_Add :: "header \<Rightarrow> string \<Rightarrow> string \<Rightarrow> header" where
  "header_Add h name v = (CanonicalHeaderKey name, header_Values h name @ [v]) # header_Del h name"

section \<open>Requests and responses\<close>

text \<open>\<open>req_Query\<close> is \<open>URL.Query().Get\<close>, \<open>req_PathValue\<close> the path parameters of the matched pattern.\<close>

record request =
  req_Method :: string
  req_Path :: string
  req_RawQuery :: string
  req_Query :: "string \<Rightarrow> string"
  req_PathValue :: "string \<Rightarrow> string"
  req_Header :: header
  req_Body :: reader

datatype body = JsonBody json | CopiedBody string "go_error option"

record response =
  resp_Status :: int
  resp_Header :: header
  resp_Body :: body

definition writeJSON :: "int \<Rightarrow> json \<Rightarrow> response" where
  "writeJSON status v = \<lparr>resp_Status = status, resp_Header = [(''Content-Type'', [''application/json''])], resp_Body = JsonBody v\<rparr>"

definition string_or_null :: "string \<Rightarrow> json" where
  "string_or_null s = (if s = [] then JNull else JStr s)"

definition writeError :: "api_error \<Rightarrow> response" where
  "writeError e = writeJSON (err_Status e) (JObj [(''error'', JObj
     [(''message'', JStr (err_Message e)),
      (''type'', JStr (if err_Status e \<ge> 500 then ''server_error''
         else if err_Status e = 429 then ''rate_limit_error'' else ''invalid_request_error'')),
      (''param'', string_or_null (err_Param e)), (''code'', JStr (err_Code e))])])"

text \<open>\<open>ctx\<close> is \<open>request.Context().Err()\<close> at that moment.\<close>

definition writeAnyError :: "go_error option \<Rightarrow> go_error \<Rightarrow> response option" where
  "writeAnyError ctx e =
     (if holds (\<lambda>c. err_is c DeadlineExceeded) ctx \<or> err_is e DeadlineExceeded
      then Some (writeError (api_New 504 ''request_timeout'' ''Document conversion timeout.'' []))
      else if holds (\<lambda>c. err_is c Canceled) ctx \<or> err_is e Canceled then None
      else (case as_api e of Some a \<Rightarrow> Some (writeError a)
        | None \<Rightarrow> Some (writeError (api_New 500 ''internal_error'' ''Internal server error.'' []))))"

section \<open>Authentication\<close>

text \<open>\<open>subtle.ConstantTimeCompare\<close> is equality.\<close>

definition tenantID :: "env \<Rightarrow> Config \<Rightarrow> request \<Rightarrow> api_error + string" where
  "tenantID E settings request =
     (let authorization = header_Get (req_Header request) ''Authorization'' in
      if \<not> GatewayAuthRequired settings then Inr SharedTenantID
      else if \<not> has_prefix authorization ''Bearer ''
      then Inl (api_New 401 ''invalid_api_key'' ''Missing bearer token.'' [])
      else let token = trim_prefix authorization ''Bearer '' in
        if token = [] \<or> token \<noteq> GatewayAPIKey settings
        then Inl (api_New 401 ''invalid_api_key'' ''Invalid API key.'' [])
        else Inr (take 32 (hex_encode (sha256 E token))))"

definition health :: response where
  "health = writeJSON 200 (JObj [(''status'', JStr ''ok'')])"

section \<open>Facts about headers\<close>

lemma map_of_header_Del: "map_of (header_Del h name) k = (if k = CanonicalHeaderKey name then None else map_of h k)"
  using map_of_filter_fst [of "\<lambda>k. k \<noteq> CanonicalHeaderKey name" h k] by (simp add: header_Del_def)

lemma header_Values_Add:
  "header_Values (header_Add h name v) name' =
     (if CanonicalHeaderKey name' = CanonicalHeaderKey name then header_Values h name @ [v] else header_Values h name')"
  by (simp add: header_Add_def header_Values_def map_of_header_Del)

lemma header_Values_Set:
  "header_Values (header_Set h name v) name' =
     (if CanonicalHeaderKey name' = CanonicalHeaderKey name then [v] else header_Values h name')"
  by (simp add: header_Set_def header_Values_def map_of_header_Del)

lemma header_Values_Del:
  "header_Values (header_Del h name) name' =
     (if CanonicalHeaderKey name' = CanonicalHeaderKey name then [] else header_Values h name')"
  by (simp add: header_Values_def map_of_header_Del)

end
