(* ===== verification/Server_Files.thy ===== *)
theory Server_Files
  imports Http
begin

text \<open>
  The handlers of the Files API in \<open>internal/server/server.go\<close>: upload, listing with cursors, metadata,
  content and deletion. The multipart form of an upload is a parameter (what \<open>FormFile\<close> gives for a
  limit on the body, and \<open>FormValue\<close>), and so is how \<open>encoding/json\<close> reads the text of \<open>expires_after\<close>.
\<close>

section \<open>Metadata\<close>

definition openAIFile :: "File \<Rightarrow> json" where
  "openAIFile f = JObj
     [(''id'', JStr (ID f)), (''object'', JStr ''file''), (''bytes'', int_json (Bytes f)),
      (''created_at'', int_json (CreatedAt f)),
      (''expires_at'', if ExpiresAt f > 0 then int_json (ExpiresAt f) else JNull),
      (''filename'', JStr (Filename f)), (''purpose'', JStr (Purpose f)),
      (''status'', JStr (if Status f = ''processed'' then ''processed'' else if Status f = ''failed'' then ''error'' else ''uploaded'')),
      (''status_details'', case ErrorMessage f of
         Some m \<Rightarrow> if Status f = ''failed'' \<and> m \<noteq> [] then JStr m else JNull | None \<Rightarrow> JNull)]"

definition no_such_file :: api_error where
  "no_such_file = api_New 404 ''file_not_found'' ''File not found.'' ''file_id''"

section \<open>Upload\<close>

definition uploadBodyLimit :: "Config \<Rightarrow> int" where
  "uploadBodyLimit settings = (if MaxFileBytes settings \<le> 0 then 0 else wrap64 (MaxFileBytes settings + 2 ^ 20))"

definition validFilePurpose :: "string \<Rightarrow> bool" where
  "validFilePurpose purpose \<longleftrightarrow> purpose \<in> set [''assistants'', ''batch'', ''fine-tune'', ''vision'', ''user_data'', ''evals'']"

text \<open>\<open>json_struct\<close> gives the members of an object in the order of the text, duplicates included; two names
  match when \<open>json_fold\<close> makes them equal.\<close>

record form =
  FormFile :: "int option \<Rightarrow> (string \<times> reader) result"
  FormValue :: "string \<Rightarrow> string"
  json_struct :: "string \<Rightarrow> json option"
  json_fold :: "string \<Rightarrow> string"

text \<open>\<open>json.Unmarshal\<close> into the struct with the fields \<open>anchor\<close> and \<open>seconds\<close>.\<close>

fun fill_expires :: "(string \<Rightarrow> string) \<Rightarrow> (string \<times> json) list \<Rightarrow> string \<times> int \<Rightarrow> (string \<times> int) option" where
  "fill_expires folded [] acc = Some acc"
| "fill_expires folded ((k, v) # kvs) (anchor, seconds) =
     (if folded k = folded ''anchor'' then
        (case v of JNull \<Rightarrow> fill_expires folded kvs (anchor, seconds)
         | JStr s \<Rightarrow> fill_expires folded kvs (s, seconds) | _ \<Rightarrow> None)
      else if folded k = folded ''seconds'' then
        (case v of JNull \<Rightarrow> fill_expires folded kvs (anchor, seconds)
         | JNum t \<Rightarrow> (case read_int t of None \<Rightarrow> None | Some i \<Rightarrow> fill_expires folded kvs (anchor, i)) | _ \<Rightarrow> None)
      else fill_expires folded kvs (anchor, seconds))"

definition expires_json :: "form \<Rightarrow> string \<Rightarrow> string \<times> int" where
  "expires_json form text = (case json_struct form text of
     Some (JObj kvs) \<Rightarrow> (case fill_expires (json_fold form) kvs ([], 0) of None \<Rightarrow> ([], 0) | Some r \<Rightarrow> r)
   | _ \<Rightarrow> ([], 0))"

text \<open>\<open>strconv.ParseInt\<close> whose error is ignored: out of range is the nearest bound, no number is 0.\<close>

definition ParseInt_value :: "string \<Rightarrow> int" where
  "ParseInt_value s = (let minus = has_prefix s ''-'';
                     d = (if minus \<or> has_prefix s ''+'' then drop 1 s else s)
     in case dec_digits d of None \<Rightarrow> 0
        | Some n \<Rightarrow> let i = (if minus then - int n else int n) in
            if i < - (2 ^ 63) then - (2 ^ 63) else if i \<ge> 2 ^ 63 then 2 ^ 63 - 1 else i)"

definition expires_given :: "form \<Rightarrow> (string \<times> int) option" where
  "expires_given form =
     (if FormValue form ''expires_after'' \<noteq> [] then Some (expires_json form (FormValue form ''expires_after''))
      else if FormValue form ''expires_after[anchor]'' \<noteq> [] \<or> FormValue form ''expires_after[seconds]'' \<noteq> []
      then Some (FormValue form ''expires_after[anchor]'', ParseInt_value (FormValue form ''expires_after[seconds]''))
      else None)"

definition maxSeconds :: "Config \<Rightarrow> int" where
  "maxSeconds settings = go_div (FileTTL settings) (10 ^ 9)"

definition upload_ttl :: "Config \<Rightarrow> form \<Rightarrow> api_error + int" where
  "upload_ttl settings form = (case expires_given form of
     None \<Rightarrow> Inr (FileTTL settings)
   | Some (anchor, seconds) \<Rightarrow>
       if anchor \<noteq> ''created_at'' \<or> seconds < 1 \<or> (maxSeconds settings > 0 \<and> seconds > maxSeconds settings)
       then Inl (api_New 400 ''invalid_expires_after''
         (''expires_after must use anchor=created_at and seconds between 1 and '' @
          (if maxSeconds settings > 0 then show_int (maxSeconds settings) @ ''.'' else ''unlimited.'')) ''expires_after'')
       else Inr (wrap64 (seconds * 10 ^ 9)))"

text \<open>The request up to the call of \<open>Create\<close>: the file and its purpose, tenant and time to live.\<close>

record upload =
  upl_Filename :: string
  upl_Input :: reader
  upl_Purpose :: string
  upl_Tenant :: string
  upl_TTL :: int

definition parse_upload :: "env \<Rightarrow> Config \<Rightarrow> request \<Rightarrow> form \<Rightarrow> api_error + upload" where
  "parse_upload E settings request form = (case tenantID E settings request of
     Inl e \<Rightarrow> Inl e
   | Inr tenant \<Rightarrow>
     (case FormFile form (if uploadBodyLimit settings > 0 then Some (uploadBodyLimit settings) else None) of
        Inl e \<Rightarrow> (if as_max_bytes e \<noteq> None then Inl (FileTooLarge (fmt_g E) (MaxFileBytes settings) ''file'')
          else Inl (api_New 400 ''invalid_request'' ''file is required.'' ''file''))
      | Inr (filename, input) \<Rightarrow> (let purpose = FormValue form ''purpose'' in
          if purpose = [] then Inl (api_New 400 ''invalid_request'' ''purpose is required.'' ''purpose'')
          else if \<not> validFilePurpose purpose then Inl (api_New 400 ''invalid_request'' ''Invalid purpose.'' ''purpose'')
          else (case upload_ttl settings form of
            Inl e \<Rightarrow> Inl e
          | Inr ttl \<Rightarrow> Inr \<lparr>upl_Filename = filename, upl_Input = input, upl_Purpose = purpose,
              upl_Tenant = tenant, upl_TTL = ttl\<rparr>))))"

definition createFile :: "env \<Rightarrow> Config \<Rightarrow> Dispatcher \<Rightarrow> db_fault \<Rightarrow> int \<Rightarrow> string result \<Rightarrow> go_error option \<Rightarrow>
    request \<Rightarrow> form \<Rightarrow> service \<Rightarrow> service \<times> response option" where
  "createFile E settings dispatcher flt now rnd ctx request form s =
     (case parse_upload E settings request form of
        Inl e \<Rightarrow> (s, Some (writeError e))
      | Inr u \<Rightarrow>
        (case Create E settings dispatcher flt now rnd (upl_Filename u) (upl_Input u) (upl_Purpose u) (upl_Tenant u) (upl_TTL u) s of
           (s', Inl e) \<Rightarrow> (s', writeAnyError ctx e)
         | (s', Inr f) \<Rightarrow> (s', Some (writeJSON 200 (openAIFile f)))))"

section \<open>Listing\<close>

record list_query =
  lq_limit :: int
  lq_order :: string
  lq_purpose :: string
  lq_after :: string

definition parse_list :: "request \<Rightarrow> api_error + list_query" where
  "parse_list request =
     (let raw = req_Query request ''limit'';
          limit = (if raw = [] then Some 20 else case ParseInt raw of
            None \<Rightarrow> None | Some l \<Rightarrow> if l < 1 \<or> l > 10000 then None else Some l);
          order = (if req_Query request ''order'' = [] then ''desc'' else req_Query request ''order'')
      in case limit of
           None \<Rightarrow> Inl (api_New 422 ''invalid_request'' ''limit must be between 1 and 10000.'' ''limit'')
         | Some l \<Rightarrow> if order \<noteq> ''asc'' \<and> order \<noteq> ''desc''
             then Inl (api_New 422 ''invalid_request'' ''order must be asc or desc.'' ''order'')
             else Inr \<lparr>lq_limit = l, lq_order = order, lq_purpose = req_Query request ''purpose'',
               lq_after = req_Query request ''after''\<rparr>)"

definition list_page :: "int \<Rightarrow> File list \<Rightarrow> json" where
  "list_page limit records =
     (let hasMore = int (length records) > limit;
          page = (if hasMore then take (nat limit) records else records)
      in JObj [(''object'', JStr ''list''), (''data'', JArr (map openAIFile page)),
           (''first_id'', if page = [] then JNull else JStr (ID (hd page))),
           (''last_id'', if page = [] then JNull else JStr (ID (last page))), (''has_more'', JBool hasMore)])"

definition listFiles :: "env \<Rightarrow> Config \<Rightarrow> db_fault \<Rightarrow> db_fault \<Rightarrow> int \<Rightarrow> go_error option \<Rightarrow> request \<Rightarrow> table
    \<Rightarrow> response option" where
  "listFiles E settings cursor_flt flt now ctx request rows = (case tenantID E settings request of
     Inl e \<Rightarrow> Some (writeError e)
   | Inr tenant \<Rightarrow> (case parse_list request of
       Inl e \<Rightarrow> Some (writeError e)
     | Inr q \<Rightarrow>
       (case store_List cursor_flt flt now rows tenant (lq_purpose q) (lq_limit q + 1) (lq_order q) (lq_after q) of
          Inl e \<Rightarrow> writeAnyError ctx e
        | Inr records \<Rightarrow> Some (writeJSON 200 (list_page (lq_limit q) records)))))"

section \<open>One file\<close>

definition ownedFile :: "env \<Rightarrow> Config \<Rightarrow> db_fault \<Rightarrow> int \<Rightarrow> go_error option \<Rightarrow> request \<Rightarrow> table \<Rightarrow> response option + File" where
  "ownedFile E settings flt now ctx request rows = (case tenantID E settings request of
     Inl e \<Rightarrow> Inl (Some (writeError e))
   | Inr tenant \<Rightarrow> (case store_Get flt now rows (req_PathValue request ''file_id'') tenant of
       Inl e \<Rightarrow> Inl (writeAnyError ctx e)
     | Inr None \<Rightarrow> Inl (Some (writeError no_such_file))
     | Inr (Some f) \<Rightarrow> Inr f))"

definition retrieveFile :: "env \<Rightarrow> Config \<Rightarrow> db_fault \<Rightarrow> int \<Rightarrow> go_error option \<Rightarrow> request \<Rightarrow> table \<Rightarrow> response option" where
  "retrieveFile E settings flt now ctx request rows = (case ownedFile E settings flt now ctx request rows of
     Inl r \<Rightarrow> r | Inr f \<Rightarrow> Some (writeJSON 200 (openAIFile f)))"

text \<open>The content of the file, for a request without \<open>Range\<close> and conditions, which \<open>http.ServeContent\<close>
  would apply; the lease is released at the end.\<close>

definition retrieveContent :: "env \<Rightarrow> Config \<Rightarrow> db_fault \<Rightarrow> int \<Rightarrow> go_error option \<Rightarrow> request \<Rightarrow> service
    \<Rightarrow> service \<times> response option" where
  "retrieveContent E settings flt now ctx request s = (case tenantID E settings request of
     Inl e \<Rightarrow> (s, Some (writeError e))
   | Inr tenant \<Rightarrow> (let i = req_PathValue request ''file_id'' in
       case OpenSource E settings flt now i tenant s of
         (s', Inl e) \<Rightarrow> (s', writeAnyError ctx e)
       | (s', Inr (f, content, h)) \<Rightarrow> (s'\<lparr>svc_regs := releaseLease (svc_regs s') i h\<rparr>,
           Some \<lparr>resp_Status = 200,
             resp_Header = [(''Content-Type'', [File.MediaType f]),
               (''Content-Disposition'', [''attachment; filename='' @ go_quote E (Filename f)])],
             resp_Body = CopiedBody content None\<rparr>)))"

text \<open>\<open>files.Delete\<close> when it finds no conversion to cancel and no lease to wait for; \<open>Lifecycle\<close> has the
  interleavings.\<close>

definition Delete :: "Config \<Rightarrow> db_fault \<Rightarrow> db_fault \<Rightarrow> db_fault \<Rightarrow> int \<Rightarrow> string \<Rightarrow> string \<Rightarrow> service \<Rightarrow> service \<times> bool result" where
  "Delete settings flt1 flt2 flt3 now i tenant s = (case store_Get flt1 now (svc_rows s) i tenant of
     Inl e \<Rightarrow> (s, Inl e)
   | Inr None \<Rightarrow> (s, Inr False)
   | Inr (Some f) \<Rightarrow> (case beginDeletion (svc_regs s) i of
       (_, None) \<Rightarrow> (s, Inr False)
     | (r1, Some ch) \<Rightarrow> (let finish = (\<lambda>s r. (s\<lparr>svc_regs := endDeletion (svc_regs s) i ch\<rparr>, r)); s1 = s\<lparr>svc_regs := r1\<rparr> in
         (case store_MarkDeleted flt2 now (svc_rows s1) i tenant of
            (rows, Inl e) \<Rightarrow> finish (s1\<lparr>svc_rows := rows\<rparr>) (Inl e)
          | (rows, Inr marked) \<Rightarrow> (let s2 = s1\<lparr>svc_rows := rows\<rparr> in
              if \<not> marked then finish s2 (Inr False)
              else case remove_all (butlast (source_at settings f)) (svc_os s2) of
                (o1, Inl e) \<Rightarrow> finish (s2\<lparr>svc_os := o1\<rparr>) (Inl e)
              | (o1, Inr _) \<Rightarrow> (case store_Delete flt3 (svc_rows s2) i tenant of
                  (rows', r) \<Rightarrow> finish (s2\<lparr>svc_os := o1, svc_rows := rows'\<rparr>) r))))))"

definition deleteFile :: "env \<Rightarrow> Config \<Rightarrow> db_fault \<Rightarrow> db_fault \<Rightarrow> db_fault \<Rightarrow> int \<Rightarrow> go_error option \<Rightarrow> request \<Rightarrow> service
    \<Rightarrow> service \<times> response option" where
  "deleteFile E settings flt1 flt2 flt3 now ctx request s = (case tenantID E settings request of
     Inl e \<Rightarrow> (s, Some (writeError e))
   | Inr tenant \<Rightarrow> (let i = req_PathValue request ''file_id'' in
       case Delete settings flt1 flt2 flt3 now i tenant s of
         (s', Inl e) \<Rightarrow> (s', writeAnyError ctx e)
       | (s', Inr deleted) \<Rightarrow> (s', if \<not> deleted then Some (writeError no_such_file)
           else Some (writeJSON 200 (JObj [(''id'', JStr i), (''object'', JStr ''file''), (''deleted'', JBool True)])))))"

end
