(* ===== verification/Proxy.thy ===== *)
theory Proxy
  imports Http
begin

text \<open>
  \<open>internal/server/proxy.go\<close>: forwarding to the model server. The model server is a parameter, the
  function from the request it is sent to its reply; so are the URL syntax and the states of the
  request's context at the two points where the code looks at it. What is logged is in \<open>Streaming\<close>.
\<close>

section \<open>Headers that are forwarded\<close>

definition hopByHopHeaders :: "string list" where
  "hopByHopHeaders = [''connection'', ''keep-alive'', ''proxy-authenticate'', ''proxy-authorization'', ''proxy-connection'',
     ''te'', ''trailer'', ''transfer-encoding'', ''upgrade'', ''host'', ''content-length'']"

text \<open>\<open>strings.TrimSpace\<close>.\<close>

definition TrimSpace :: "string \<Rightarrow> string" where
  "TrimSpace s = concat (rev (dropWhile space_rune (rev (dropWhile space_rune (split_runes s)))))"

definition connection_headers :: "env \<Rightarrow> header \<Rightarrow> string list" where
  "connection_headers E source = map (to_lower (uni_lower E)) (filter (\<lambda>name. name \<noteq> [])
     (map TrimSpace (concat (map (split_on (CHR '','')) (header_Values source ''Connection'')))))"

definition dropped :: "env \<Rightarrow> header \<Rightarrow> string \<Rightarrow> bool" where
  "dropped E source name \<longleftrightarrow> (let lower = to_lower (uni_lower E) name in
     lower \<in> set hopByHopHeaders \<or> lower \<in> set (connection_headers E source))"

fun add_values :: "string \<Rightarrow> string list \<Rightarrow> header \<Rightarrow> header" where
  "add_values name [] h = h"
| "add_values name (v # vs) h = add_values name vs (header_Add h name v)"

fun copy_kept :: "(string \<Rightarrow> bool) \<Rightarrow> header \<Rightarrow> header \<Rightarrow> header" where
  "copy_kept drop_it [] h = h"
| "copy_kept drop_it ((name, vs) # src) h = copy_kept drop_it src (if drop_it name then h else add_values name vs h)"

definition copyHeaders :: "env \<Rightarrow> header \<Rightarrow> header \<Rightarrow> header" where
  "copyHeaders E destination source = copy_kept (dropped E source) source destination"

definition upstreamAuthorization :: "Config \<Rightarrow> string" where
  "upstreamAuthorization settings = ''Bearer '' @ VLLMAPIKey settings"

section \<open>The model server\<close>

record upstream_request =
  up_Method :: string
  up_URL :: string
  up_Header :: header
  up_Body :: reader

record upstream_reply =
  upr_Status :: int
  upr_Header :: header
  upr_Body :: reader

record link =
  base_text :: "url \<Rightarrow> string"
  request_invalid :: "string \<Rightarrow> string \<Rightarrow> bool"
  vllm :: "upstream_request \<Rightarrow> upstream_reply result"
  ctx_at_failure :: "go_error option"
  ctx_at_start :: "go_error option"

definition upstreamError :: "go_error \<Rightarrow> api_error" where
  "upstreamError e = (if net_timeout e
     then api_New 504 ''request_timeout'' ''The request to upstream model timeout.'' []
     else api_New 502 ''model_upstream_error'' ''Unable to reach the model server.'' [])"

definition upstreamErrorPreviewBytes :: int where "upstreamErrorPreviewBytes = 65536"

text \<open>\<open>io.MultiReader\<close> of bytes and a reader.\<close>

definition multi_reader :: "string \<Rightarrow> reader \<Rightarrow> reader" where
  "multi_reader s r = r\<lparr>rd_data := s @ rd_data r\<rparr>"

text \<open>The body is read up to the limit for the log and then replayed; a failed read fails again.\<close>

definition logUpstreamErrorResponse :: "upstream_reply \<Rightarrow> reader" where
  "logUpstreamErrorResponse upstream = (if upr_Status upstream < 400 then upr_Body upstream
     else let preview = fst (copy_from (Some (upstreamErrorPreviewBytes + 1)) (upr_Body upstream))
       in multi_reader preview ((upr_Body upstream)\<lparr>rd_data := drop (length preview) (rd_data (upr_Body upstream))\<rparr>))"

section \<open>Forwarding\<close>

record forwarded =
  fw_Sent :: "upstream_request option"
  fw_Response :: "response option"
  fw_Flushed :: bool

definition refuse :: "api_error \<Rightarrow> forwarded" where
  "refuse e = \<lparr>fw_Sent = None, fw_Response = Some (writeError e), fw_Flushed = False\<rparr>"

definition join_upstream :: "link \<Rightarrow> Config \<Rightarrow> string \<Rightarrow> string" where
  "join_upstream L settings path = trim_right (CHR ''/'') (base_text L (VLLMBaseURL settings)) @ ''/'' @ path"

text \<open>\<open>strings.EqualFold\<close> with \<open>text/event-stream\<close>: the long s, U+017F, folds to s.\<close>

fun fold_case :: "string \<Rightarrow> string" where
  "fold_case (a # b # s) = (if a = CHR 0xC5 \<and> b = CHR 0xBF then CHR ''s'' # fold_case s
     else ascii_lower a # fold_case (b # s))"
| "fold_case [a] = [ascii_lower a]"
| "fold_case [] = []"

definition event_stream :: "header \<Rightarrow> bool" where
  "event_stream h \<longleftrightarrow> fold_case (TrimSpace (hd (split_on (CHR '';'') (header_Get h ''Content-Type'')))) = ''text/event-stream''"

definition copy_response :: "env \<Rightarrow> upstream_reply \<Rightarrow> response" where
  "copy_response E upstream = \<lparr>resp_Status = upr_Status upstream, resp_Header = copyHeaders E [] (upr_Header upstream),
     resp_Body = case_prod CopiedBody (copy_from None (logUpstreamErrorResponse upstream))\<rparr>"

text \<open>The common end: \<open>client.Do\<close>, the answer to its failure, \<open>startResponse\<close>, the copy.\<close>

definition exchange_with :: "env \<Rightarrow> link \<Rightarrow> (upstream_reply \<Rightarrow> bool) \<Rightarrow> upstream_request \<Rightarrow> forwarded" where
  "exchange_with E L flush u = \<lparr>fw_Sent = Some u,
     fw_Response = Some (case vllm L u of
         Inl e \<Rightarrow> writeError (upstreamError (case ctx_at_failure L of Some c \<Rightarrow> c | None \<Rightarrow> e))
       | Inr upstream \<Rightarrow> (case ctx_at_start L of
           Some c \<Rightarrow> writeError (upstreamError c) | None \<Rightarrow> copy_response E upstream)),
     fw_Flushed = (case vllm L u of Inl _ \<Rightarrow> False | Inr upstream \<Rightarrow> ctx_at_start L = None \<and> flush upstream)\<rparr>"

definition upstream_header :: "env \<Rightarrow> Config \<Rightarrow> header \<Rightarrow> header" where
  "upstream_header E settings client = (let h = header_Del (copyHeaders E [] client) ''Authorization'' in
     if upstreamAuthorization settings = [] then h else header_Set h ''Authorization'' (upstreamAuthorization settings))"

definition forward_url :: "link \<Rightarrow> Config \<Rightarrow> request \<Rightarrow> string \<Rightarrow> string" where
  "forward_url L settings request path =
     join_upstream L settings path @ (if req_RawQuery request \<noteq> [] then ''?'' @ req_RawQuery request else [])"

definition forwardRequest :: "env \<Rightarrow> link \<Rightarrow> Config \<Rightarrow> request \<Rightarrow> string \<Rightarrow> bool \<Rightarrow> forwarded" where
  "forwardRequest E L settings request path stream =
     (let url = forward_url L settings request path
      in if request_invalid L (req_Method request) url
         then refuse (api_New 500 ''internal_error'' ''Internal server error.'' [])
         else exchange_with E L (\<lambda>upstream. stream \<or> event_stream (upr_Header upstream))
           \<lparr>up_Method = req_Method request, up_URL = url,
            up_Header = upstream_header E settings (req_Header request), up_Body = req_Body request\<rparr>)"

text \<open>\<open>ctx\<close> is the state of the request's context when the payload has been marshalled.\<close>

definition forwardJSON ::
  "env \<Rightarrow> link \<Rightarrow> Config \<Rightarrow> go_error option \<Rightarrow> request \<Rightarrow> string \<Rightarrow> (string \<times> json) list \<Rightarrow> forwarded" where
  "forwardJSON E L settings ctx request endpoint payload = (case ctx of
     Some e \<Rightarrow> \<lparr>fw_Sent = None, fw_Response = writeAnyError ctx e, fw_Flushed = False\<rparr>
   | None \<Rightarrow> (let h = header_Set (header_Del (copyHeaders E [] (req_Header request)) ''Authorization'')
                    ''Content-Type'' ''application/json'' in
       exchange_with E L (\<lambda>_. field payload ''stream'' = Some (JBool True))
         \<lparr>up_Method = ''POST'', up_URL = join_upstream L settings endpoint,
          up_Header = (if upstreamAuthorization settings = [] then h
            else header_Set h ''Authorization'' (upstreamAuthorization settings)),
          up_Body = \<lparr>rd_data = json_text E (JObj payload), rd_err = None, rd_joined = False\<rparr>\<rparr>))"

definition passthrough :: "env \<Rightarrow> link \<Rightarrow> Config \<Rightarrow> request \<Rightarrow> forwarded" where
  "passthrough E L settings request = (case tenantID E settings request of
     Inl e \<Rightarrow> refuse e
   | Inr _ \<Rightarrow> (let path = req_PathValue request ''path'' in
       if path = ''files'' \<or> has_prefix path ''files/''
       then refuse (api_New 405 ''method_not_allowed'' ''Method not allowed for the Files API.'' [])
       else forwardRequest E L settings request path False))"

section \<open>Copied headers\<close>

text \<open>The headers of a request as the HTTP server delivers them.\<close>

definition header_ok :: "header \<Rightarrow> bool" where
  "header_ok h \<longleftrightarrow> distinct (map fst h) \<and> list_all (\<lambda>kv. CanonicalHeaderKey (fst kv) = fst kv) h"

lemma add_values_Values:
  "CanonicalHeaderKey name = name \<Longrightarrow> CanonicalHeaderKey k = k \<Longrightarrow>
     header_Values (add_values name vs h) k = (if k = name then header_Values h k @ vs else header_Values h k)"
  by (induction name vs h rule: add_values.induct) (auto simp: header_Values_Add)

lemma header_Values_Cons: "CanonicalHeaderKey k = k \<Longrightarrow>
    header_Values ((name, vs) # src) k = (if k = name then vs else header_Values src k)"
  by (simp add: header_Values_def)

lemma copy_kept_Values:
  "header_ok src \<Longrightarrow> CanonicalHeaderKey k = k \<Longrightarrow>
     header_Values (copy_kept d src h) k = header_Values h k @ (if d k then [] else header_Values src k)"
proof (induction d src h rule: copy_kept.induct)
  case (1 d h)
  then show ?case by (simp add: header_Values_def)
next
  case (2 d name vs src h)
  have ok: "header_ok src" "CanonicalHeaderKey name = name" and n: "name \<notin> fst ` set src"
    using 2(2) by (auto simp: header_ok_def)
  have "map_of src name = None" using n by (simp add: map_of_eq_None_iff)
  then have "header_Values src name = []" using ok(2) by (simp add: header_Values_def)
  then show ?case using 2(1) [OF ok(1) 2(3)] 2(3) ok(2) by (auto simp: header_Values_Cons add_values_Values)
qed

lemma header_Values_Nil [simp]: "header_Values [] k = []"
  by (simp add: header_Values_def)

lemma copyHeaders_Values:
  "header_ok src \<Longrightarrow> CanonicalHeaderKey k = k \<Longrightarrow>
     header_Values (copyHeaders E [] src) k = (if dropped E src k then [] else header_Values src k)"
  by (simp add: copyHeaders_def copy_kept_Values)

lemma canonical_names [simp]:
  "CanonicalHeaderKey ''Authorization'' = ''Authorization''" "CanonicalHeaderKey ''Content-Type'' = ''Content-Type''"
  by code_simp+

lemma replayed [simp]: "copy_from None (logUpstreamErrorResponse u) = (rd_data (upr_Body u), rd_err (upr_Body u))"
  by (auto simp: logUpstreamErrorResponse_def copy_from_def multi_reader_def Let_def)

text \<open>Bytes and headers that go through unchanged.\<close>

definition forwards_headers :: "env \<Rightarrow> Config \<Rightarrow> header \<Rightarrow> header \<Rightarrow> bool" where
  "forwards_headers E settings client sent \<longleftrightarrow>
     (\<forall>k. CanonicalHeaderKey k = k \<longrightarrow> header_Values sent k =
       (if k = ''Authorization'' then [''Bearer '' @ VLLMAPIKey settings]
        else if dropped E client k then [] else header_Values client k))"

lemma upstream_header_Values: "header_ok client \<Longrightarrow> forwards_headers E settings client (upstream_header E settings client)"
  by (simp add: forwards_headers_def upstream_header_def upstreamAuthorization_def Let_def
      header_Values_Set header_Values_Del copyHeaders_Values)


end
