(* ===== verification/File_Url.thy ===== *)
theory File_Url
  imports File_Service "HOL-Library.Word"
begin

text \<open>
  \<open>internal/server/file_url.go\<close>: the download of a file from a URL that a client supplies. An address
  is public or not (\<open>isPublicIP\<close>, over the bytes of a \<open>net.IP\<close>, with \<open>netip\<close> prefixes as words); the
  dialer resolves a host and connects to addresses of that very answer; the download validates the
  URL and each redirect. The resolver may answer differently each time it is asked, the peers answer
  as a script says, and the state records every connection attempt and every request sent. URL syntax
  and the ASCII form of host names are parameters.
\<close>

unbundle bit_operations_syntax

section \<open>Addresses\<close>

type_synonym ip = "8 word list"

definition To4 :: "ip \<Rightarrow> ip option" where
  "To4 p = (if length p = 4 then Some p
     else if length p = 16 \<and> take 12 p = replicate 10 0 @ [0xff, 0xff] then Some (drop 12 p) else None)"

definition ip_Equal :: "ip \<Rightarrow> ip \<Rightarrow> bool" where
  "ip_Equal p q \<longleftrightarrow> (if length p = length q then p = q
     else if length p = 4 \<and> length q = 16 then take 12 q = replicate 10 0 @ [0xff, 0xff] \<and> p = drop 12 q
     else if length p = 16 \<and> length q = 4 then take 12 p = replicate 10 0 @ [0xff, 0xff] \<and> drop 12 p = q
     else False)"

definition IPv4zero :: ip where "IPv4zero = replicate 10 0 @ [0xff, 0xff, 0, 0, 0, 0]"
definition IPv6unspecified :: ip where "IPv6unspecified = replicate 16 0"
definition IPv6loopback :: ip where "IPv6loopback = replicate 15 0 @ [1]"

definition IsUnspecified :: "ip \<Rightarrow> bool" where
  "IsUnspecified p \<longleftrightarrow> ip_Equal p IPv4zero \<or> ip_Equal p IPv6unspecified"

definition IsLoopback :: "ip \<Rightarrow> bool" where
  "IsLoopback p \<longleftrightarrow> (case To4 p of Some v4 \<Rightarrow> v4 ! 0 = 127 | None \<Rightarrow> ip_Equal p IPv6loopback)"

definition IsPrivate :: "ip \<Rightarrow> bool" where
  "IsPrivate p \<longleftrightarrow> (case To4 p of
     Some v4 \<Rightarrow> v4 ! 0 = 10 \<or> (v4 ! 0 = 172 \<and> (v4 ! 1) AND 0xf0 = 16) \<or> (v4 ! 0 = 192 \<and> v4 ! 1 = 168)
   | None \<Rightarrow> length p = 16 \<and> (p ! 0) AND 0xfe = 0xfc)"

definition IsMulticast :: "ip \<Rightarrow> bool" where
  "IsMulticast p \<longleftrightarrow> (case To4 p of
     Some v4 \<Rightarrow> (v4 ! 0) AND 0xf0 = 0xe0 | None \<Rightarrow> length p = 16 \<and> p ! 0 = 0xff)"

definition IsInterfaceLocalMulticast :: "ip \<Rightarrow> bool" where
  "IsInterfaceLocalMulticast p \<longleftrightarrow> length p = 16 \<and> p ! 0 = 0xff \<and> (p ! 1) AND 0x0f = 0x01"

definition IsLinkLocalMulticast :: "ip \<Rightarrow> bool" where
  "IsLinkLocalMulticast p \<longleftrightarrow> (case To4 p of
     Some v4 \<Rightarrow> v4 ! 0 = 224 \<and> v4 ! 1 = 0 \<and> v4 ! 2 = 0
   | None \<Rightarrow> length p = 16 \<and> p ! 0 = 0xff \<and> (p ! 1) AND 0x0f = 0x02)"

definition IsLinkLocalUnicast :: "ip \<Rightarrow> bool" where
  "IsLinkLocalUnicast p \<longleftrightarrow> (case To4 p of
     Some v4 \<Rightarrow> v4 ! 0 = 169 \<and> v4 ! 1 = 254
   | None \<Rightarrow> length p = 16 \<and> p ! 0 = 0xfe \<and> (p ! 1) AND 0xc0 = 0x80)"

datatype addr = Addr4 "32 word" | Addr6 "128 word"

definition AddrFromSlice :: "ip \<Rightarrow> addr option" where
  "AddrFromSlice p = (if length p = 4 then Some (Addr4 (word_rcat p))
     else if length p = 16 then Some (Addr6 (word_rcat p)) else None)"

fun Unmap :: "addr \<Rightarrow> addr" where
  "Unmap (Addr4 a) = Addr4 a"
| "Unmap (Addr6 a) = (if drop_bit 32 a = 0xffff then Addr4 (ucast a) else Addr6 a)"

fun prefix_Contains :: "addr \<times> nat \<Rightarrow> addr \<Rightarrow> bool" where
  "prefix_Contains (Addr4 p, n) (Addr4 a) \<longleftrightarrow> drop_bit (32 - n) (a XOR p) = 0"
| "prefix_Contains (Addr6 p, n) (Addr6 a) \<longleftrightarrow> drop_bit (128 - n) (a XOR p) = 0"
| "prefix_Contains (Addr4 p, n) (Addr6 a) \<longleftrightarrow> False"
| "prefix_Contains (Addr6 p, n) (Addr4 a) \<longleftrightarrow> False"

definition dotted :: "8 word \<Rightarrow> 8 word \<Rightarrow> 8 word \<Rightarrow> 8 word \<Rightarrow> addr" where
  "dotted a b c d = Addr4 (word_rcat [a, b, c, d])"

text \<open>The leading groups of an IPv6 address; the others are zero.\<close>

definition groups :: "16 word list \<Rightarrow> addr" where
  "groups gs = Addr6 (word_rcat (gs @ replicate (8 - length gs) 0))"

definition specialUsePrefixes :: "(addr \<times> nat) list" where
  "specialUsePrefixes =
     [(dotted 0 0 0 0, 8), (dotted 100 64 0 0, 10), (dotted 192 0 0 0, 24), (dotted 192 0 2 0, 24),
      (dotted 192 88 99 2, 32), (dotted 198 18 0 0, 15), (dotted 198 51 100 0, 24),
      (dotted 203 0 113 0, 24), (dotted 240 0 0 0, 4),
      (groups [], 96), (groups [0x64, 0xff9b], 96), (groups [0x64, 0xff9b, 1], 48), (groups [0x100], 64),
      (groups [0x100, 0, 0, 1], 64), (groups [0x2001], 23), (groups [0x2001, 0xdb8], 32),
      (groups [0x2002], 16), (groups [0x3fff], 20), (groups [0x5f00], 16)]"

definition isPublicIP :: "ip \<Rightarrow> bool" where
  "isPublicIP p \<longleftrightarrow>
     (if IsPrivate p \<or> IsLoopback p \<or> IsLinkLocalUnicast p \<or> IsLinkLocalMulticast p \<or>
         IsInterfaceLocalMulticast p \<or> IsUnspecified p \<or> IsMulticast p then False
      else (case AddrFromSlice p of None \<Rightarrow> False
        | Some address \<Rightarrow> \<not> list_ex (\<lambda>prefix. prefix_Contains prefix (Unmap address)) specialUsePrefixes))"

section \<open>URLs and host names\<close>

record full_url = url +
  url_User :: "string option"

text \<open>\<open>Hostname\<close> and \<open>Port\<close> of \<open>net/url\<close>.\<close>

definition after_last :: "char \<Rightarrow> string \<Rightarrow> string" where
  "after_last c s = rev (takeWhile (\<lambda>x. x \<noteq> c) (rev s))"

definition before_last :: "char \<Rightarrow> string \<Rightarrow> string" where
  "before_last c s = rev (drop 1 (dropWhile (\<lambda>x. x \<noteq> c) (rev s)))"

definition split_host_port :: "string \<Rightarrow> string \<times> string" where
  "split_host_port s =
     (let (host, port) = (if CHR '':'' \<in> set s \<and> list_all is_digit (after_last (CHR '':'') s)
            then (before_last (CHR '':'') s, after_last (CHR '':'') s) else (s, []))
      in (if has_prefix host ''['' \<and> has_suffix host '']'' then butlast (tl host) else host, port))"

definition Hostname :: "full_url \<Rightarrow> string" where "Hostname u = fst (split_host_port (url_Host u))"
definition Port :: "full_url \<Rightarrow> string" where "Port u = snd (split_host_port (url_Host u))"

text \<open>\<open>net.SplitHostPort\<close>; None for every address that it refuses.\<close>

definition SplitHostPort :: "string \<Rightarrow> (string \<times> string) option" where
  "SplitHostPort s =
     (if CHR '':'' \<notin> set s then None
      else let before = before_last (CHR '':'') s; port = after_last (CHR '':'') s in
        if has_prefix s ''['' then
          (let inside = takeWhile (\<lambda>c. c \<noteq> CHR '']'') (tl s) in
           if CHR '']'' \<notin> set s \<or> before \<noteq> ''['' @ inside @ '']'' then None
           else if CHR ''['' \<in> set (inside @ port) \<or> CHR '']'' \<in> set port then None else Some (inside, port))
        else if CHR '':'' \<in> set before \<or> CHR ''['' \<in> set s \<or> CHR '']'' \<in> set s then None
        else Some (before, port))"

section \<open>The network\<close>

record http_reply =
  rep_Status :: int
  rep_Location :: string
  rep_Body :: reader

text \<open>One use of the HTTP client: whether it finds an idle connection of an earlier request to the host,
  and what the exchange over its connection gives.\<close>

record http_exchange =
  ex_idle :: bool
  ex_result :: "http_reply result"

record web =
  parse_url :: "string \<Rightarrow> full_url option"
  resolve_reference :: "full_url \<Rightarrow> string \<Rightarrow> full_url option"
  url_String :: "full_url \<Rightarrow> string"
  idna_host :: "string \<Rightarrow> string"
  LookupIPAddr :: "nat \<Rightarrow> string \<Rightarrow> ip list result"
  dial_failure :: "nat \<Rightarrow> go_error option"

record net =
  lookups :: nat
  dials :: "(ip \<times> string) list"
  requests :: "full_url list"
  exchanges :: "http_exchange list"

definition lookup :: "web \<Rightarrow> string \<Rightarrow> net \<Rightarrow> net \<times> ip list result" where
  "lookup W host s = (s\<lparr>lookups := Suc (lookups s)\<rparr>, LookupIPAddr W (lookups s) host)"

fun dial_any :: "web \<Rightarrow> string \<Rightarrow> go_error \<Rightarrow> ip list \<Rightarrow> net \<Rightarrow> net \<times> unit result" where
  "dial_any W port lastErr [] s = (s, Inl lastErr)"
| "dial_any W port lastErr (ip # ips) s =
     (let s' = s\<lparr>dials := dials s @ [(ip, port)]\<rparr> in
      case dial_failure W (length (dials s)) of None \<Rightarrow> (s', Inr ()) | Some e \<Rightarrow> dial_any W port e ips s')"

text \<open>\<open>publicDialer.DialContext\<close>. The message about an address that is not public, which is only logged,
  leaves the address out here.\<close>

definition DialContext :: "web \<Rightarrow> string \<Rightarrow> net \<Rightarrow> net \<times> unit result" where
  "DialContext W address s = (case SplitHostPort address of
     None \<Rightarrow> (s, Inl (Wrapped ''invalid dial address: '' (Opaque address)))
   | Some (host, port) \<Rightarrow> (case lookup W host s of
       (s1, Inl e) \<Rightarrow> (s1, Inl (Wrapped (''resolve '' @ host @ '': '') e))
     | (s1, Inr ips) \<Rightarrow>
         if ips = [] then (s1, Inl (Opaque (''resolve '' @ host @ '': no addresses'')))
         else if \<not> list_all isPublicIP ips then (s1, Inl (Opaque (''resolve '' @ host @ '': non-public address'')))
         else dial_any W port (Opaque []) ips s1))"

text \<open>\<open>client.Do\<close> with \<open>ErrUseLastResponse\<close>: the transport of \<open>net/http\<close> dials the host and port of the
  URL unless it has an idle connection, which the same dialer made.\<close>

definition dial_address :: "web \<Rightarrow> full_url \<Rightarrow> string" where
  "dial_address W u = JoinHostPort (idna_host W (Hostname u)) (if Port u = [] then ''443'' else Port u)"

definition next_exchange :: "net \<Rightarrow> net \<times> http_exchange" where
  "next_exchange s = (s\<lparr>exchanges := tl (exchanges s)\<rparr>, case exchanges s of
     [] \<Rightarrow> \<lparr>ex_idle = False, ex_result = Inl (Opaque ''connection reset'')\<rparr> | x # _ \<Rightarrow> x)"

definition client_Do :: "web \<Rightarrow> full_url \<Rightarrow> net \<Rightarrow> net \<times> http_reply result" where
  "client_Do W u s = (let (s1, x) = next_exchange s in
     case (if ex_idle x then (s1, Inr ()) else DialContext W (dial_address W u) s1) of
       (s2, Inl e) \<Rightarrow> (s2, Inl e)
     | (s2, Inr _) \<Rightarrow> (s2\<lparr>requests := requests s2 @ [u]\<rparr>, ex_result x))"

section \<open>The download\<close>

definition url_error :: "string \<Rightarrow> string \<Rightarrow> go_error" where
  "url_error message param = ApiError (api_New 400 ''invalid_file_url'' message param)"

definition validatePublicHTTPS :: "web \<Rightarrow> string \<Rightarrow> string \<Rightarrow> net \<Rightarrow> net \<times> full_url result" where
  "validatePublicHTTPS W rawURL param s =
     (case parse_url W rawURL of
        None \<Rightarrow> (s, Inl (url_error ''Only public HTTPS URLs on port 443 are allowed.'' param))
      | Some parsed \<Rightarrow>
        if url_Scheme parsed \<noteq> ''https'' \<or> Hostname parsed = [] \<or> url_User parsed \<noteq> None \<or>
           (Port parsed \<noteq> [] \<and> Port parsed \<noteq> ''443'')
        then (s, Inl (url_error ''Only public HTTPS URLs on port 443 are allowed.'' param))
        else (case lookup W (Hostname parsed) s of
          (s1, Inl _) \<Rightarrow> (s1, Inl (url_error ''File URL hostname cannot be resolved.'' param))
        | (s1, Inr ips) \<Rightarrow>
            if ips = [] then (s1, Inl (url_error ''File URL hostname cannot be resolved.'' param))
            else if \<not> list_all isPublicIP ips
            then (s1, Inl (url_error ''File URL must resolve to a public address.'' param))
            else (s1, Inr parsed)))"

definition contains_text :: "string \<Rightarrow> string \<Rightarrow> bool" where
  "contains_text s part \<longleftrightarrow> list_ex (\<lambda>t. has_prefix t part) (suffixes s)"

definition read_limited :: "Config \<Rightarrow> reader \<Rightarrow> string \<times> go_error option" where
  "read_limited settings body =
     copy_from (if MaxFileBytes settings > 0 then Some (wrap64 (MaxFileBytes settings + 1)) else None) body"

function download :: "web \<Rightarrow> Config \<Rightarrow> string \<Rightarrow> nat \<Rightarrow> full_url \<Rightarrow> net \<Rightarrow> net \<times> (string \<times> string) result" where
  "download W settings param redirects current s = (case client_Do W current s of
     (s1, Inl e) \<Rightarrow> (s1, Inl (if contains_text (err_text e) ''failed to parse Location header''
        then url_error ''Redirect location is invalid.'' param else url_error ''Unable to download file URL.'' param))
   | (s1, Inr upstream) \<Rightarrow>
       if 300 \<le> rep_Status upstream \<and> rep_Status upstream < 400 then
         (if redirects \<ge> 4 then (s1, Inl (url_error ''Too many redirects.'' param))
          else case resolve_reference W current (rep_Location upstream) of
            None \<Rightarrow> (s1, Inl (url_error ''Redirect location is invalid.'' param))
          | Some nxt \<Rightarrow> (case validatePublicHTTPS W (url_String W nxt) param s1 of
              (s2, Inl e) \<Rightarrow> (s2, Inl e)
            | (s2, Inr current') \<Rightarrow> download W settings param (redirects + 1) current' s2))
       else if rep_Status upstream < 200 \<or> rep_Status upstream \<ge> 300
       then (s1, Inl (url_error ''Unable to download file URL.'' param))
       else (case read_limited settings (rep_Body upstream) of
           (content, Some e) \<Rightarrow> (s1, Inl e)
         | (content, None) \<Rightarrow> (s1, Inr (content, path_base (url_Path current)))))"
  by pat_completeness auto
termination by (relation "measure (\<lambda>(W, settings, param, redirects, current, s). 4 - redirects)") auto

declare download.simps [simp del]

definition downloadPublicHTTPS :: "web \<Rightarrow> Config \<Rightarrow> string \<Rightarrow> string \<Rightarrow> net \<Rightarrow> net \<times> (string \<times> string) result" where
  "downloadPublicHTTPS W settings rawURL param s = (case validatePublicHTTPS W rawURL param s of
     (s1, Inl e) \<Rightarrow> (s1, Inl e) | (s1, Inr parsed) \<Rightarrow> download W settings param 0 parsed s1)"

end
