(* ===== verification/Base64.thy ===== *)
theory Base64
  imports Prelude
begin

text \<open>
  \<open>base64.StdEncoding\<close>, as \<open>internal/server/document.go\<close> uses it: \<open>EncodeToString\<close> for the images of
  a document, \<open>Strict().DecodeString\<close> for inline file data. The decoder skips line breaks, wants whole
  quanta with padding in the last one only, and refuses bits that no encoder would set.
\<close>

section \<open>Digits\<close>

definition b64_char :: "nat \<Rightarrow> char" where
  "b64_char n = (if n < 26 then char_of (65 + n) else if n < 52 then char_of (71 + n)
     else if n < 62 then char_of (n - 4) else if n = 62 then CHR ''+'' else CHR ''/'')"

definition b64_digit :: "char \<Rightarrow> nat option" where
  "b64_digit c = (let v = of_char c :: nat in
     if 65 \<le> v \<and> v \<le> 90 then Some (v - 65) else if 97 \<le> v \<and> v \<le> 122 then Some (v - 71)
     else if 48 \<le> v \<and> v \<le> 57 then Some (v + 4)
     else if c = CHR ''+'' then Some 62 else if c = CHR ''/'' then Some 63 else None)"

definition byte :: "char \<Rightarrow> nat" where
  "byte c = of_char c"

definition b64_quad :: "nat \<Rightarrow> string" where
  "b64_quad v = [b64_char (v div 262144), b64_char (v div 4096 mod 64), b64_char (v div 64 mod 64), b64_char (v mod 64)]"

fun EncodeToString :: "string \<Rightarrow> string" where
  "EncodeToString (a # b # c # s) = b64_quad (byte a * 65536 + byte b * 256 + byte c) @ EncodeToString s"
| "EncodeToString [a, b] = take 3 (b64_quad (byte a * 65536 + byte b * 256)) @ ''=''"
| "EncodeToString [a] = take 2 (b64_quad (byte a * 65536)) @ ''==''"
| "EncodeToString [] = []"

definition b64_value :: "char \<Rightarrow> char \<Rightarrow> char \<Rightarrow> char \<Rightarrow> nat option" where
  "b64_value a b c d = (case (b64_digit a, b64_digit b, b64_digit c, b64_digit d) of
     (Some w, Some x, Some y, Some z) \<Rightarrow> Some (w * 262144 + x * 4096 + y * 64 + z) | _ \<Rightarrow> None)"

definition b64_bytes :: "nat \<Rightarrow> string" where
  "b64_bytes v = [char_of (v div 65536), char_of (v div 256 mod 256), char_of (v mod 256)]"

text \<open>The last quantum, whose fourth character is the padding: the bits past its bytes must be zero.\<close>

definition b64_last :: "char \<Rightarrow> char \<Rightarrow> char \<Rightarrow> string option" where
  "b64_last a b c = (if c = CHR ''='' then
       (case b64_value a b (CHR ''A'') (CHR ''A'') of None \<Rightarrow> None
        | Some v \<Rightarrow> if v mod 65536 = 0 then Some (take 1 (b64_bytes v)) else None)
     else (case b64_value a b c (CHR ''A'') of None \<Rightarrow> None
        | Some v \<Rightarrow> if v mod 256 = 0 then Some (take 2 (b64_bytes v)) else None))"

fun b64_quanta :: "string \<Rightarrow> string option" where
  "b64_quanta [] = Some []"
| "b64_quanta (a # b # c # d # s) =
     (if s = [] \<and> d = CHR ''='' then b64_last a b c
      else case b64_value a b c d of None \<Rightarrow> None
        | Some v \<Rightarrow> map_option ((@) (b64_bytes v)) (b64_quanta s))"
| "b64_quanta s = None"

definition line_break :: "char \<Rightarrow> bool" where
  "line_break c \<longleftrightarrow> c = CHR 0x0A \<or> c = CHR 0x0D"

definition DecodeString :: "string \<Rightarrow> string option" where
  "DecodeString s = b64_quanta (filter (\<lambda>c. \<not> line_break c) s)"

section \<open>Correctness\<close>

lemma byte_less [simp]: "byte c < 256"
  by (simp add: byte_def)

lemma char_byte [simp]: "char_of (byte c) = c" "byte (char_of n) = n mod 256"
  by (simp_all add: byte_def of_char_of)

lemma byte_literals: "byte CHR ''+'' = 43" "byte CHR ''/'' = 47" "byte CHR ''='' = 61" "byte CHR ''A'' = 65"
  "byte CHR 0x0A = 10" "byte CHR 0x0D = 13"
  by (simp_all add: byte_def)

lemma byte_eq: "c = d \<longleftrightarrow> byte c = byte d"
  by (metis char_byte(1))

lemma b64_digit_byte: "b64_digit c = (let v = byte c in
     if 65 \<le> v \<and> v \<le> 90 then Some (v - 65) else if 97 \<le> v \<and> v \<le> 122 then Some (v - 71)
     else if 48 \<le> v \<and> v \<le> 57 then Some (v + 4)
     else if v = 43 then Some 62 else if v = 47 then Some 63 else None)"
  by (simp only: b64_digit_def byte_def [symmetric] byte_eq [of c] byte_literals Let_def)

lemma byte_b64_char: "n < 64 \<Longrightarrow> byte (b64_char n) = (if n < 26 then 65 + n else if n < 52 then 71 + n
     else if n < 62 then n - 4 else if n = 62 then 43 else 47)"
  by (simp add: b64_char_def byte_literals)

lemma char_of_digit [simp]: "n < 64 \<Longrightarrow> b64_digit (b64_char n) = Some n"
  by (auto simp: b64_digit_byte byte_b64_char Let_def)

lemma digit_of_char: "b64_digit c = Some n \<Longrightarrow> n < 64 \<and> b64_char n = c"
  by (auto simp: b64_digit_byte byte_eq [of _ c] byte_b64_char Let_def split: if_splits)

lemma pad_no_digit [simp]: "b64_digit CHR ''='' = None" "b64_digit CHR ''A'' = Some 0"
  by (simp_all add: b64_digit_byte byte_literals)

lemma digit_plain [simp]: "n < 64 \<Longrightarrow> b64_char n \<noteq> CHR ''=''" "n < 64 \<Longrightarrow> \<not> line_break (b64_char n)"
  by (auto simp: line_break_def byte_eq [of "b64_char n"] byte_b64_char byte_literals split: if_splits)

lemma last_digit: "r < n \<Longrightarrow> v = q * n + r \<Longrightarrow> v div n = q \<and> v mod n = r" for q r n v :: nat
  by simp

lemma three_bytes:
  fixes a b c :: nat
  assumes "a < 256" "b < 256" "c < 256" and v: "v = a * 65536 + b * 256 + c"
  shows "v < 16777216" "v div 65536 = a" "v div 256 mod 256 = b" "v mod 256 = c"
proof -
  have d: "v div 256 = a * 256 + b" and m: "v mod 256 = c"
    using last_digit [OF assms(3), of v "a * 256 + b"] v by simp_all
  have "v div 65536 = v div 256 div 256" by (simp add: div_mult2_eq [symmetric])
  then show "v div 65536 = a" "v div 256 mod 256 = b" "v mod 256 = c" using d m assms(2) by simp_all
  show "v < 16777216" using assms by linarith
qed

lemma four_digits:
  fixes w x y z :: nat
  assumes "w < 64" "x < 64" "y < 64" "z < 64" and v: "v = w * 262144 + x * 4096 + y * 64 + z"
  shows "v < 16777216" "v div 262144 = w" "v div 4096 mod 64 = x" "v div 64 mod 64 = y" "v mod 64 = z"
proof -
  have d: "v div 64 = (w * 64 + x) * 64 + y" and m: "v mod 64 = z"
    using last_digit [OF assms(4), of v "(w * 64 + x) * 64 + y"] v by simp_all
  have e: "v div 64 div 64 = w * 64 + x" and n: "v div 64 mod 64 = y"
    using last_digit [OF assms(3) d] by simp_all
  have "v div 4096 = v div 64 div 64" "v div 262144 = v div 64 div 64 div 64"
    by (simp_all add: div_mult2_eq [symmetric])
  then show "v div 262144 = w" "v div 4096 mod 64 = x" "v div 64 mod 64 = y" "v mod 64 = z"
    using d e m n assms(2) by simp_all
  show "v < 16777216" using assms by linarith
qed

lemma digits64: "v = v div 262144 * 262144 + v div 4096 mod 64 * 4096 + v div 64 mod 64 * 64 + v mod 64" for v :: nat
proof -
  have e: "v div 4096 = v div 64 div 64" "v div 262144 = v div 64 div 64 div 64"
    by (simp_all add: div_mult2_eq [symmetric])
  have "v = v div 64 * 64 + v mod 64" "v div 64 = v div 64 div 64 * 64 + v div 64 mod 64"
    "v div 64 div 64 = v div 64 div 64 div 64 * 64 + v div 64 div 64 mod 64" by simp_all
  then show ?thesis unfolding e by linarith
qed

lemma b64_value_quad: "v < 16777216 \<Longrightarrow> b64_quad v = [a, b, c, d] \<Longrightarrow> b64_value a b c d = Some v"
proof -
  assume v: "v < 16777216" and q: "b64_quad v = [a, b, c, d]"
  have "v div 262144 < 64" using v by linarith
  then show ?thesis using q digits64 [of v, symmetric] by (auto simp: b64_quad_def b64_value_def)
qed

lemma b64_quad_value:
  assumes "b64_value a b c d = Some v"
  shows "v < 16777216 \<and> b64_quad v = [a, b, c, d]"
proof -
  obtain w x y z where d: "b64_digit a = Some w" "b64_digit b = Some x" "b64_digit c = Some y" "b64_digit d = Some z"
    and v: "v = w * 262144 + x * 4096 + y * 64 + z"
    using assms by (auto simp: b64_value_def split: option.splits)
  note n = d [THEN digit_of_char]
  show ?thesis using four_digits [OF _ _ _ _ v] n by (auto simp: b64_quad_def)
qed


lemma b64_quad_split: obtains a b c d where "b64_quad v = [a, b, c, d]"
  by (simp add: b64_quad_def)

lemma quad_plain: "v < 16777216 \<Longrightarrow> c \<in> set (b64_quad v) \<Longrightarrow> c \<noteq> CHR ''='' \<and> \<not> line_break c"
proof -
  assume v: "v < 16777216"
  then have "v div 262144 < 64" by linarith
  then show "c \<in> set (b64_quad v) \<Longrightarrow> c \<noteq> CHR ''='' \<and> \<not> line_break c" by (auto simp: b64_quad_def)
qed

lemma encoded_plain: "c \<in> set (EncodeToString s) \<Longrightarrow> \<not> line_break c"
proof (induction s rule: EncodeToString.induct)
  case (1 x y z s)
  then show ?case using quad_plain [OF three_bytes(1) [OF byte_less byte_less byte_less HOL.refl], of c x y z] by auto
next
  case (2 x y)
  then show ?case using quad_plain [OF three_bytes(1) [OF byte_less byte_less _ HOL.refl], of 0 c x y]
    by (auto simp: line_break_def dest: in_set_takeD)
next
  case (3 x)
  then show ?case using quad_plain [OF three_bytes(1) [OF byte_less _ _ HOL.refl], of 0 0 c x]
    by (auto simp: line_break_def dest: in_set_takeD)
qed simp

lemma decode_encode: "b64_quanta (EncodeToString s) = Some s"
proof (induction s rule: EncodeToString.induct)
  case (1 x y z s)
  define v where "v = byte x * 65536 + byte y * 256 + byte z"
  note b = three_bytes [OF byte_less byte_less byte_less v_def]
  obtain a b c d where q: "b64_quad v = [a, b, c, d]" by (rule b64_quad_split)
  have "d \<noteq> CHR ''=''" using quad_plain [OF b(1), of d] q by simp
  then show ?case using 1 b64_value_quad [OF b(1) q] b q by (simp add: v_def [symmetric] b64_bytes_def)
next
  case (2 x y)
  define v where "v = byte x * 65536 + byte y * 256 + 0"
  have z: "(0 :: nat) < 256" by simp
  note b = three_bytes [OF byte_less byte_less z v_def]
  obtain a b c d where q: "b64_quad v = [a, b, c, d]" by (rule b64_quad_split)
  have "v mod 64 = 0" using b(4) mod_mod_cancel [of 64 256 v] by simp
  then have "d = CHR ''A''" using q by (simp add: b64_quad_def b64_char_def byte_eq byte_literals)
  moreover have "c \<noteq> CHR ''=''" using quad_plain [OF b(1), of c] q by simp
  ultimately show ?case using b64_value_quad [OF b(1) q] b q by (simp add: v_def b64_last_def b64_bytes_def)
next
  case (3 x)
  define v where "v = byte x * 65536 + 0 * 256 + 0"
  have z: "(0 :: nat) < 256" by simp
  note b = three_bytes [OF byte_less z z v_def]
  obtain a b c d where q: "b64_quad v = [a, b, c, d]" by (rule b64_quad_split)
  have m: "v mod 65536 = 0" unfolding v_def by simp
  then have "v mod 64 = 0" "v div 64 mod 64 = 0" using v_def by auto
  then have "d = CHR ''A''" "c = CHR ''A''" using q by (auto simp: b64_quad_def b64_char_def byte_eq byte_literals)
  then show ?case using b64_value_quad [OF b(1) q] b q m by (simp add: v_def b64_last_def b64_bytes_def)
qed simp

lemma bytes_split:
  fixes v :: nat
  assumes "v < 16777216"
  shows "v div 65536 < 256" "v div 65536 * 65536 + v div 256 mod 256 * 256 + v mod 256 = v"
proof -
  show "v div 65536 < 256" using assms by linarith
  have e: "v div 65536 = v div 256 div 256" by (simp add: div_mult2_eq [symmetric])
  have "v = v div 256 * 256 + v mod 256" "v div 256 = v div 256 div 256 * 256 + v div 256 mod 256" by simp_all
  then show "v div 65536 * 65536 + v div 256 mod 256 * 256 + v mod 256 = v" unfolding e by linarith
qed

lemma encode_last:
  assumes "b64_last a b c = Some s"
  shows "EncodeToString s = [a, b, c, CHR ''='']"
proof (cases "c = CHR ''=''")
  case True
  then obtain v where v: "b64_value a b (CHR ''A'') (CHR ''A'') = Some v" "v mod 65536 = 0"
    and s: "s = take 1 (b64_bytes v)"
    using assms by (auto simp: b64_last_def split: option.splits if_splits)
  note q = b64_quad_value [OF v(1)]
  have "v div 65536 * 65536 = v" using v(2) by (metis add_0_right div_mod_decomp)
  then show ?thesis using q s True bytes_split(1) [of v] by (simp add: b64_bytes_def)
next
  case False
  then obtain v where v: "b64_value a b c (CHR ''A'') = Some v" "v mod 256 = 0"
    and s: "s = take 2 (b64_bytes v)"
    using assms by (auto simp: b64_last_def split: option.splits if_splits)
  note q = b64_quad_value [OF v(1)]
  have "v div 65536 * 65536 + v div 256 mod 256 * 256 = v" using bytes_split(2) [of v] q v(2) by simp
  then show ?thesis using q s bytes_split(1) [of v] by (simp add: b64_bytes_def numeral_2_eq_2)
qed

lemma encode_decode: "b64_quanta s = Some b \<Longrightarrow> EncodeToString b = s"
proof (induction s arbitrary: b rule: b64_quanta.induct)
  case (2 x y z w s)
  show ?case
  proof (cases "s = [] \<and> w = CHR ''=''")
    case True
    then show ?thesis using 2(2) encode_last by auto
  next
    case False
    then obtain v b' where v: "b64_value x y z w = Some v" and b: "b64_quanta s = Some b'" "b = b64_bytes v @ b'"
      using 2(2) by (auto split: option.splits)
    have "EncodeToString b' = s" using 2(1) [OF False v b(1)] .
    then show ?thesis using b64_quad_value [OF v] bytes_split [of v] b(2) by (simp add: b64_bytes_def)
  qed
qed auto


end
