(* ===== verification/Concurrency_Limit.thy ===== *)
theory Concurrency_Limit
  imports Http
begin

text \<open>
  \<open>withConcurrencyLimit\<close> and \<open>slotResponseWriter\<close> of \<open>internal/server/server.go\<close>. The
  channel of slots is its capacity and the number of tokens in it; None is the nil channel of an
  unlimited gateway. Each admitted request has its release function, which runs once, and its
  response writer. The steps are those of any number of requests, in any order.
\<close>

section \<open>State\<close>

text \<open>\<open>released\<close> is the state of the \<open>sync.OnceFunc\<close>, \<open>final_status\<close> the first final status written.\<close>

record handler =
  released :: bool
  wroteHeader :: bool
  final_status :: "int option"

record limiter =
  slots :: "nat option"
  tokens :: nat
  handlers :: "nat \<Rightarrow> handler option"

definition new_limiter :: "Config \<Rightarrow> limiter" where
  "new_limiter settings =
     \<lparr>slots = (if MaxConcurrentRequests settings > 0 then Some (nat (MaxConcurrentRequests settings)) else None),
      tokens = 0, handlers = (\<lambda>_. None)\<rparr>"

definition busy_error :: response where
  "busy_error = writeError (api_New 429 ''too_many_requests'' ''The gateway is busy.'' [])"

section \<open>Operations\<close>

text \<open>The \<open>select\<close> with its default case; the response of a refused request.\<close>

definition admit :: "nat \<Rightarrow> limiter \<Rightarrow> limiter \<times> response option" where
  "admit r l =
     (let start = (\<lambda>l. l\<lparr>handlers := (handlers l)(r := Some \<lparr>released = False, wroteHeader = False, final_status = None\<rparr>)\<rparr>) in
      case slots l of
        None \<Rightarrow> (start l, None)
      | Some cap \<Rightarrow> if tokens l < cap then (start (l\<lparr>tokens := tokens l + 1\<rparr>), None) else (l, Some busy_error))"

text \<open>The release function, which receives from the channel when called for the first time; None: the
  receive blocks.\<close>

definition release :: "nat \<Rightarrow> handler \<Rightarrow> limiter \<Rightarrow> limiter option" where
  "release r h l =
     (if released h then Some l
      else case slots l of
        None \<Rightarrow> Some l
      | Some _ \<Rightarrow> if tokens l = 0 then None
          else Some (l\<lparr>tokens := tokens l - 1, handlers := (handlers l)(r := Some (h\<lparr>released := True\<rparr>))\<rparr>))"

definition WriteHeader :: "nat \<Rightarrow> int \<Rightarrow> handler \<Rightarrow> limiter \<Rightarrow> limiter option" where
  "WriteHeader r status h l =
     (if status \<ge> 200 then
        (let h' = h\<lparr>wroteHeader := True, final_status := (case final_status h of None \<Rightarrow> Some status | Some x \<Rightarrow> Some x)\<rparr>
         in release r h' (l\<lparr>handlers := (handlers l)(r := Some h')\<rparr>))
      else Some l)"

definition Write :: "nat \<Rightarrow> handler \<Rightarrow> limiter \<Rightarrow> limiter option" where
  "Write r h l = (if \<not> wroteHeader h then WriteHeader r 200 h l else Some l)"

text \<open>The handler returns: the deferred release, and the request is over.\<close>

definition finish :: "nat \<Rightarrow> handler \<Rightarrow> limiter \<Rightarrow> limiter option" where
  "finish r h l = map_option (\<lambda>l. l\<lparr>handlers := (handlers l)(r := None)\<rparr>) (release r h l)"

section \<open>Steps\<close>

inductive slot_step :: "limiter \<Rightarrow> limiter \<Rightarrow> bool" where
  arrive: "handlers l r = None \<Longrightarrow> slot_step l (fst (admit r l))"
| status: "handlers l r = Some h \<Longrightarrow> WriteHeader r status h l = Some l' \<Longrightarrow> slot_step l l'"
| body: "handlers l r = Some h \<Longrightarrow> Write r h l = Some l' \<Longrightarrow> slot_step l l'"
| return: "handlers l r = Some h \<Longrightarrow> finish r h l = Some l' \<Longrightarrow> slot_step l l'"

inductive_cases slot_stepE: "slot_step l l'"

inductive slot_reach :: "limiter \<Rightarrow> limiter \<Rightarrow> bool" where
  here: "slot_reach l l"
| more: "slot_reach l l' \<Longrightarrow> slot_step l' l'' \<Longrightarrow> slot_reach l l''"

text \<open>The requests that are in progress and have not sent the status of a response.\<close>

definition waiting :: "(nat \<Rightarrow> handler option) \<Rightarrow> nat set" where
  "waiting hs = {r. holds (\<lambda>h. final_status h = None) (hs r)}"

definition occupying :: "limiter \<Rightarrow> nat set" where
  "occupying l = waiting (handlers l)"

section \<open>The invariant\<close>

definition slot_inv :: "limiter \<Rightarrow> bool" where
  "slot_inv l \<longleftrightarrow> finite (dom (handlers l)) \<and>
     (\<forall>r h. handlers l r = Some h \<longrightarrow> (wroteHeader h \<longleftrightarrow> final_status h \<noteq> None) \<and>
        (slots l \<noteq> None \<longrightarrow> (released h \<longleftrightarrow> final_status h \<noteq> None))) \<and>
     (\<forall>cap. slots l = Some cap \<longrightarrow> tokens l = card (waiting (handlers l)) \<and> tokens l \<le> cap)"

lemma waiting_upd: "waiting (hs(r := x)) =
    (if holds (\<lambda>h. final_status h = None) x then insert r (waiting hs) else waiting hs - {r})"
  by (auto simp: waiting_def)

lemma waiting_iff: "r \<in> waiting hs \<longleftrightarrow> (\<exists>h. hs r = Some h \<and> final_status h = None)"
  by (simp add: waiting_def holds_iff)

lemma finite_waiting: "slot_inv l \<Longrightarrow> finite (waiting (handlers l))"
  by (rule finite_subset [of _ "dom (handlers l)"]) (auto simp: slot_inv_def waiting_iff)

lemma slot_invD:
  assumes "slot_inv l" and "handlers l r = Some h" and "slots l = Some cap"
  shows "released h \<longleftrightarrow> final_status h \<noteq> None" "wroteHeader h \<longleftrightarrow> final_status h \<noteq> None"
    "tokens l = card (waiting (handlers l))" "tokens l \<le> cap"
    "final_status h = None \<Longrightarrow> tokens l \<noteq> 0 \<and> card (waiting (handlers l) - {r}) = tokens l - 1"
    "final_status h \<noteq> None \<Longrightarrow> waiting (handlers l) - {r} = waiting (handlers l)"
proof -
  show "released h \<longleftrightarrow> final_status h \<noteq> None" "wroteHeader h \<longleftrightarrow> final_status h \<noteq> None"
    and t: "tokens l = card (waiting (handlers l))" "tokens l \<le> cap"
    using assms by (auto simp: slot_inv_def)
  show "final_status h \<noteq> None \<Longrightarrow> waiting (handlers l) - {r} = waiting (handlers l)" using assms(2) by (auto simp: waiting_iff)
  show "tokens l \<noteq> 0 \<and> card (waiting (handlers l) - {r}) = tokens l - 1" if "final_status h = None"
  proof -
    have "r \<in> waiting (handlers l)" using assms(2) that by (simp add: waiting_iff)
    then show ?thesis unfolding t using finite_waiting [OF assms(1)] by auto
  qed
qed

lemma admit_inv: "slot_inv l \<Longrightarrow> handlers l r = None \<Longrightarrow> slot_inv (fst (admit r l))"
proof -
  assume i: "slot_inv l" and n: "handlers l r = None"
  have "r \<notin> waiting (handlers l)" using n by (simp add: waiting_iff)
  then have "card (insert r (waiting (handlers l))) = Suc (card (waiting (handlers l)))" using finite_waiting [OF i] by simp
  then show ?thesis using i by (auto simp: admit_def slot_inv_def Let_def waiting_upd split: option.splits)
qed

lemma WriteHeader_spec:
  assumes i: "slot_inv l" and h: "handlers l r = Some h"
  shows "\<exists>l'. WriteHeader r status h l = Some l' \<and> slot_inv l' \<and> slots l' = slots l \<and>
    waiting (handlers l') = (if status \<ge> 200 then waiting (handlers l) - {r} else waiting (handlers l))"
proof (cases "status \<ge> 200")
  case False
  then show ?thesis using i by (simp add: WriteHeader_def)
next
  case True
  show ?thesis
  proof (cases "slots l")
    case None
    then show ?thesis using i True
      by (auto simp: WriteHeader_def release_def slot_inv_def Let_def waiting_upd split: option.splits)
  next
    case (Some cap)
    note d = slot_invD [OF i h Some]
    show ?thesis using i True Some d
      by (cases "final_status h") (auto simp: WriteHeader_def release_def slot_inv_def Let_def waiting_upd)
  qed
qed

lemma Write_spec:
  assumes i: "slot_inv l" and h: "handlers l r = Some h"
  shows "\<exists>l'. Write r h l = Some l' \<and> slot_inv l' \<and> slots l' = slots l \<and> waiting (handlers l') = waiting (handlers l) - {r}"
proof (cases "wroteHeader h")
  case True
  then have "final_status h \<noteq> None" using i h by (auto simp: slot_inv_def)
  then have "r \<notin> waiting (handlers l)" using h by (auto simp: waiting_iff)
  then show ?thesis using True i by (simp add: Write_def)
next
  case False
  then show ?thesis using WriteHeader_spec [OF i h, of 200] by (simp add: Write_def)
qed

lemma finish_spec:
  assumes i: "slot_inv l" and h: "handlers l r = Some h"
  shows "\<exists>l'. finish r h l = Some l' \<and> slot_inv l' \<and> slots l' = slots l \<and>
    waiting (handlers l') = waiting (handlers l) - {r} \<and> handlers l' r = None"
proof (cases "slots l")
  case None
  then show ?thesis using i by (auto simp: finish_def release_def slot_inv_def waiting_upd)
next
  case (Some cap)
  note d = slot_invD [OF i h Some]
  show ?thesis using i Some d by (cases "final_status h") (auto simp: finish_def release_def slot_inv_def waiting_upd)
qed

lemma admit_slots [simp]: "slots (fst (admit r l)) = slots l"
  by (simp add: admit_def Let_def split: option.splits)

lemma reach_slot_inv: "slot_reach l l' \<Longrightarrow> slot_inv l \<Longrightarrow> slot_inv l' \<and> slots l' = slots l"
proof (induction rule: slot_reach.induct)
  case (more l l' l'')
  then have i: "slot_inv l'" "slots l' = slots l" by blast+
  from more(2) show ?case
  proof (cases rule: slot_step.cases)
    case (arrive r)
    then show ?thesis using admit_inv i by simp
  next
    case (status r h st)
    then show ?thesis using WriteHeader_spec [OF i(1) status(1), of st] i(2) by auto
  next
    case (body r h)
    then show ?thesis using Write_spec [OF i(1) body(1)] i(2) by auto
  next
    case (return r h)
    then show ?thesis using finish_spec [OF i(1) return(1)] i(2) by auto
  qed
qed simp

lemma new_limiter_inv: "slot_inv (new_limiter settings)"
  by (auto simp: slot_inv_def new_limiter_def waiting_def)

text \<open>C37. The slots of the concurrency limit. At any moment as many slots are taken as there are requests
  in progress whose response has not started, at most \<open>MAX_CONCURRENT_REQUESTS\<close>; so an interim (1xx)
  status keeps the slot, the first final status or byte gives it back, and so does a handler that
  returns without a response, each exactly once and without ever blocking. A request is refused with
  429 iff that many requests are waiting for their response to start.\<close>

theorem slots_exact:
  assumes "slot_reach (new_limiter settings) l" and "MaxConcurrentRequests settings > 0"
  shows "int (tokens l) = int (card (occupying l)) \<and> int (tokens l) \<le> MaxConcurrentRequests settings \<and>
    (\<forall>r. handlers l r = None \<longrightarrow>
       (snd (admit r l) = Some busy_error \<longleftrightarrow> int (card (occupying l)) = MaxConcurrentRequests settings) \<and>
       (snd (admit r l) = None \<longrightarrow> occupying (fst (admit r l)) = insert r (occupying l))) \<and>
    (\<forall>r h. handlers l r = Some h \<longrightarrow>
       (\<exists>l'. WriteHeader r status h l = Some l' \<and>
          occupying l' = (if status \<ge> 200 then occupying l - {r} else occupying l)) \<and>
       (\<exists>l'. Write r h l = Some l' \<and> occupying l' = occupying l - {r}) \<and>
       (\<exists>l'. finish r h l = Some l' \<and> occupying l' = occupying l - {r} \<and> handlers l' r = None))"
proof -
  have i: "slot_inv l" and sl: "slots l = Some (nat (MaxConcurrentRequests settings))"
    using reach_slot_inv [OF assms(1) new_limiter_inv] assms(2) by (auto simp: new_limiter_def)
  have t: "tokens l = card (occupying l)" "tokens l \<le> nat (MaxConcurrentRequests settings)"
    using i sl by (auto simp: slot_inv_def occupying_def)
  have a: "(snd (admit r l) = Some busy_error \<longleftrightarrow> int (card (occupying l)) = MaxConcurrentRequests settings) \<and>
       (snd (admit r l) = None \<longrightarrow> occupying (fst (admit r l)) = insert r (occupying l))" for r
    using t assms(2) by (auto simp: admit_def sl Let_def occupying_def waiting_upd)
  have w: "(\<exists>l'. WriteHeader r status h l = Some l' \<and> occupying l' = (if status \<ge> 200 then occupying l - {r} else occupying l)) \<and>
       (\<exists>l'. Write r h l = Some l' \<and> occupying l' = occupying l - {r}) \<and>
       (\<exists>l'. finish r h l = Some l' \<and> occupying l' = occupying l - {r} \<and> handlers l' r = None)"
    if h: "handlers l r = Some h" for r h
    using WriteHeader_spec [OF i h, of status] Write_spec [OF i h] finish_spec [OF i h] unfolding occupying_def by blast
  have n: "int (tokens l) = int (card (occupying l))" "int (tokens l) \<le> MaxConcurrentRequests settings"
    using t assms(2) by simp_all
  show ?thesis by (intro conjI allI impI n) (use a w in blast)+
qed

end
