(* ===== verification/Gateway.thy ===== *)
theory Gateway
  imports Server_Files Inference Concurrency_Limit
begin

text \<open>
  \<open>NewHandler\<close> in \<open>internal/server/server.go\<close>: the routes and the handlers behind them, so that a request
  is served as a whole. The patterns are matched as \<open>http.ServeMux\<close> does for a path that it does not
  have to clean (no empty, \<open>.\<close> or \<open>..\<close> segment, no percent escape) and a method other than CONNECT;
  a literal segment wins over a wildcard, a pattern with a method over one without, and \<open>GET\<close> also
  answers \<open>HEAD\<close>. Redirects and the answers 404 and 405 of the mux itself are a parameter.
\<close>

datatype route = Health | CreateFile | ListFiles | RetrieveFile string | RetrieveContent string | DeleteFile string
  | Inference endpoint | Passthrough string | ByMux

text \<open>The segments of a path; the last one is empty when it ends with a slash.\<close>

definition segments :: "string \<Rightarrow> string list" where
  "segments p = split_on (CHR ''/'') (drop 1 p)"

definition clean_path :: "string \<Rightarrow> bool" where
  "clean_path p \<longleftrightarrow> has_prefix p ''/'' \<and> list_all (\<lambda>s. s \<noteq> [] \<and> s \<noteq> ''.'' \<and> s \<noteq> ''..'') (butlast (segments p)) \<and>
     last (segments p) \<noteq> ''.'' \<and> last (segments p) \<noteq> ''..''"

text \<open>The patterns with a method below \<open>/v1\<close>; a wildcard does not match an empty segment.\<close>

definition route_v1 :: "string \<Rightarrow> string list \<Rightarrow> route option" where
  "route_v1 method rest = (case rest of
     [f] \<Rightarrow> if f = ''files'' \<and> method = ''POST'' then Some CreateFile
            else if f = ''files'' \<and> method = ''GET'' then Some ListFiles
            else if f = ''responses'' \<and> method = ''POST'' then Some (Inference Responses) else None
   | [f, i] \<Rightarrow> if f = ''files'' \<and> i \<noteq> [] \<and> method = ''GET'' then Some (RetrieveFile i)
            else if f = ''files'' \<and> i \<noteq> [] \<and> method = ''DELETE'' then Some (DeleteFile i)
            else if f = ''chat'' \<and> i = ''completions'' \<and> method = ''POST'' then Some (Inference ChatCompletions) else None
   | [f, i, c] \<Rightarrow> if f = ''files'' \<and> c = ''content'' \<and> method = ''GET'' then Some (RetrieveContent i) else None
   | _ \<Rightarrow> None)"

definition route :: "string \<Rightarrow> string \<Rightarrow> route" where
  "route method path =
     (let m = (if method = ''HEAD'' then ''GET'' else method) in
      if \<not> clean_path path then ByMux
      else case segments path of
        [h] \<Rightarrow> if h = ''health'' \<and> m = ''GET'' then Health else ByMux
      | v # rest \<Rightarrow> if v \<noteq> ''v1'' then ByMux
          else (case route_v1 m rest of Some r \<Rightarrow> r | None \<Rightarrow> Passthrough (join_with ''/'' rest))
      | [] \<Rightarrow> ByMux)"

text \<open>What the outside world contributes to one request: the faults of the database, the time, the random
  bytes of a new id, the state of the context at the end, the multipart form, the answer of the mux.\<close>

record call =
  call_flt1 :: db_fault
  call_flt2 :: db_fault
  call_flt3 :: db_fault
  call_now :: int
  call_random :: "string result"
  call_ctx :: "go_error option"
  call_form :: form
  call_mux :: response

text \<open>\<open>withConcurrencyLimit\<close>: request number \<open>r\<close> runs its handler when it gets a slot.\<close>

definition withConcurrencyLimit :: "nat \<Rightarrow> limiter \<Rightarrow> (work \<Rightarrow> work \<times> forwarded) \<Rightarrow> work \<Rightarrow> work \<times> forwarded" where
  "withConcurrencyLimit r l handler s = (case snd (admit r l) of
     Some refused \<Rightarrow> (s, replied (Some refused)) | None \<Rightarrow> handler s)"

text \<open>A handler of the file service.\<close>

definition on_service :: "(service \<Rightarrow> service \<times> response option) \<Rightarrow> work \<Rightarrow> work \<times> forwarded" where
  "on_service handler s = (case handler (wk_svc s) of (v, resp) \<Rightarrow> (s\<lparr>wk_svc := v\<rparr>, replied resp))"

definition path_value :: "string \<Rightarrow> string \<Rightarrow> request \<Rightarrow> request" where
  "path_value k v request = request\<lparr>req_PathValue := (req_PathValue request)(k := v)\<rparr>"

definition handle ::
  "env \<Rightarrow> link \<Rightarrow> Config \<Rightarrow> Dispatcher \<Rightarrow> web \<Rightarrow> call \<Rightarrow> request \<Rightarrow> route \<Rightarrow> work \<Rightarrow> work \<times> forwarded" where
  "handle E L settings dispatcher W c request to = (case to of
     CreateFile \<Rightarrow> on_service (createFile E settings dispatcher (call_flt1 c) (call_now c) (call_random c) (call_ctx c)
       request (call_form c))
   | ListFiles \<Rightarrow> on_service (\<lambda>v. (v, listFiles E settings (call_flt1 c) (call_flt2 c) (call_now c) (call_ctx c) request (svc_rows v)))
   | RetrieveFile i \<Rightarrow> on_service (\<lambda>v. (v, retrieveFile E settings (call_flt1 c) (call_now c) (call_ctx c)
       (path_value ''file_id'' i request) (svc_rows v)))
   | RetrieveContent i \<Rightarrow> on_service (retrieveContent E settings (call_flt1 c) (call_now c) (call_ctx c) (path_value ''file_id'' i request))
   | DeleteFile i \<Rightarrow> on_service (deleteFile E settings (call_flt1 c) (call_flt2 c) (call_flt3 c) (call_now c) (call_ctx c)
       (path_value ''file_id'' i request))
   | Inference kind \<Rightarrow> handleInference E L settings dispatcher W kind request
   | Passthrough p \<Rightarrow> (\<lambda>s. (s, passthrough E L settings (path_value ''path'' p request)))
   | Health \<Rightarrow> (\<lambda>s. (s, replied (Some health)))
   | ByMux \<Rightarrow> (\<lambda>s. (s, replied (Some (call_mux c)))))"

definition serve ::
  "env \<Rightarrow> link \<Rightarrow> Config \<Rightarrow> Dispatcher \<Rightarrow> web \<Rightarrow> call \<Rightarrow> nat \<Rightarrow> limiter \<Rightarrow> request \<Rightarrow> work \<Rightarrow> work \<times> forwarded" where
  "serve E L settings dispatcher W c r l request =
     (let to = route (req_Method request) (req_Path request) in
      if to = Health \<or> to = ByMux then handle E L settings dispatcher W c request to
      else withConcurrencyLimit r l (handle E L settings dispatcher W c request to))"

section \<open>Authentication\<close>

text \<open>The one \<open>Authorization\<close> value that is accepted.\<close>

definition authorized :: "Config \<Rightarrow> request \<Rightarrow> bool" where
  "authorized settings request \<longleftrightarrow> \<not> GatewayAuthRequired settings \<or>
     (GatewayAPIKey settings \<noteq> [] \<and> header_Get (req_Header request) ''Authorization'' = ''Bearer '' @ GatewayAPIKey settings)"

definition tenant_of :: "env \<Rightarrow> Config \<Rightarrow> string" where
  "tenant_of E settings = (if GatewayAuthRequired settings then take 32 (hex_encode (sha256 E (GatewayAPIKey settings))) else SharedTenantID)"

lemma tenantID_cases:
  "if authorized settings request then tenantID E settings request = Inr (tenant_of E settings)
   else \<exists>e. tenantID E settings request = Inl e \<and> err_Status e = 401"
proof (cases "GatewayAuthRequired settings")
  case True
  let ?a = "header_Get (req_Header request) ''Authorization''"
  show ?thesis
  proof (cases "has_prefix ?a ''Bearer ''")
    case p: True
    then obtain token where a: "?a = ''Bearer '' @ token" unfolding has_prefix_iff by blast
    then have "trim_prefix ?a ''Bearer '' = token" using p by (simp add: trim_prefix_def)
    then show ?thesis using True p a
      by (auto simp: authorized_def tenantID_def tenant_of_def Let_def api_New_def)
  next
    case False
    then have "\<not> authorized settings request" using True by (auto simp: authorized_def has_prefix_iff)
    then show ?thesis using True False by (simp add: tenantID_def Let_def api_New_def)
  qed
qed (simp add: authorized_def tenantID_def tenant_of_def)

end
