(* ===== verification/File_Url_Correct.thy ===== *)
theory File_Url_Correct
  imports File_Url Upload_To_Inference
begin

text \<open>
  What \<open>isPublicIP\<close> lets through, as ranges of addresses, and what the download of a file URL can
  connect to: only addresses of that kind, on port 443, however the resolver and the peers answer.
\<close>

section \<open>IPv4 ranges\<close>

text \<open>The blocks that are not public: the number of the first address and of the first one after.\<close>

definition v4_number :: "int \<Rightarrow> int \<Rightarrow> int \<Rightarrow> int \<Rightarrow> int" where
  "v4_number a b c d = a * 16777216 + b * 65536 + c * 256 + d"

definition not_public_v4 :: "(int \<times> int) list" where
  "not_public_v4 =
     [(v4_number 0 0 0 0, v4_number 1 0 0 0), (v4_number 10 0 0 0, v4_number 11 0 0 0),
      (v4_number 100 64 0 0, v4_number 100 128 0 0), (v4_number 127 0 0 0, v4_number 128 0 0 0),
      (v4_number 169 254 0 0, v4_number 169 255 0 0), (v4_number 172 16 0 0, v4_number 172 32 0 0),
      (v4_number 192 0 0 0, v4_number 192 0 1 0), (v4_number 192 0 2 0, v4_number 192 0 3 0),
      (v4_number 192 88 99 2, v4_number 192 88 99 3), (v4_number 192 168 0 0, v4_number 192 169 0 0),
      (v4_number 198 18 0 0, v4_number 198 20 0 0), (v4_number 198 51 100 0, v4_number 198 51 101 0),
      (v4_number 203 0 113 0, v4_number 203 0 114 0), (v4_number 224 0 0 0, v4_number 256 0 0 0)]"

definition in_ranges :: "(int \<times> int) list \<Rightarrow> int \<Rightarrow> bool" where
  "in_ranges rs n \<longleftrightarrow> list_ex (\<lambda>(lo, hi). lo \<le> n \<and> n < hi) rs"

lemma all_words8: "list_all (\<lambda>i. P (word_of_int i)) [0..255] \<Longrightarrow> P (w :: 8 word)"
proof -
  assume "list_all (\<lambda>i. P (word_of_int i)) [0..255]"
  moreover have "uint w \<in> set [0..255]" using uint_lt2p [of w] by simp
  ultimately have "P (word_of_int (uint w))" unfolding list_all_iff by blast
  then show "P w" by simp
qed

lemma high_nibble: "(w AND 0xf0 = 16) = (16 \<le> uint w \<and> uint w < 32)" "(w AND 0xf0 = 0xe0) = (224 \<le> uint w \<and> uint w < 240)"
  for w :: "8 word"
  by (rule all_words8 [of "\<lambda>w. (w AND 0xf0 = 16) = (16 \<le> uint w \<and> uint w < 32)"], code_simp,
      rule all_words8 [of "\<lambda>w. (w AND 0xf0 = 0xe0) = (224 \<le> uint w \<and> uint w < 240)"], code_simp)

lemma byte_eq_uint: "w = 0 \<longleftrightarrow> uint w = 0" "w = numeral n \<longleftrightarrow> uint w = numeral n mod 256" for w :: "8 word"
  by (simp_all add: word_uint_eq_iff take_bit_eq_mod)

lemma byte_bounds: "0 \<le> uint w \<and> uint w \<le> 255" for w :: "8 word"
  using uint_lt2p [of w] by simp

lemma uint_dotted: "uint (word_rcat [a, b, c, d] :: 32 word) = v4_number (uint a) (uint b) (uint c) (uint d)"
  for a b c d :: "8 word"
proof -
  have "word_rcat [a, b, c, d] = (word_of_int (v4_number (uint a) (uint b) (uint c) (uint d)) :: 32 word)"
    by (simp add: word_rcat_def v4_number_def horner_sum_simps algebra_simps)
  moreover have "0 \<le> v4_number (uint a) (uint b) (uint c) (uint d)" "v4_number (uint a) (uint b) (uint c) (uint d) < 2 ^ 32"
    using byte_bounds [of a] byte_bounds [of b] byte_bounds [of c] byte_bounds [of d]
    by (simp_all add: v4_number_def)
  ultimately show ?thesis by (simp add: uint_word_of_int)
qed

lemma same_prefix: "drop_bit n (a XOR p) = 0 \<longleftrightarrow> uint a div 2 ^ n = uint p div 2 ^ n"
  for a p :: "'a::len word"
proof -
  have x: "drop_bit n (a XOR p) XOR drop_bit n p = drop_bit n a" by (simp add: xor.assoc)
  have "drop_bit n (a XOR p) = 0 \<longleftrightarrow> drop_bit n a = drop_bit n p"
  proof
    assume "drop_bit n (a XOR p) = 0"
    then show "drop_bit n a = drop_bit n p" using x by (simp del: drop_bit_xor)
  qed simp
  also have "\<dots> \<longleftrightarrow> drop_bit n (uint a) = drop_bit n (uint p)"
    by (simp only: word_uint_eq_iff unsigned_drop_bit_eq bintr_uint order_refl)
  finally show ?thesis by (simp only: drop_bit_eq_div)
qed

lemma contains_dotted:
  "prefix_Contains (dotted p q r s, n) (Addr4 a) \<longleftrightarrow>
     uint a div 2 ^ (32 - n) = v4_number (uint p) (uint q) (uint r) (uint s) div 2 ^ (32 - n)"
  by (simp add: dotted_def same_prefix uint_dotted del: drop_bit_xor)

lemma contains_other_family: "\<not> prefix_Contains (groups gs, n) (Addr4 a)"
  by (simp add: groups_def)

lemma div_range: "0 < d \<Longrightarrow> n div d = m \<longleftrightarrow> m * d \<le> n \<and> n < (m + 1) * d" for n m d :: int
proof (intro iffI conjI)
  assume d: "0 < d" and m: "n div d = m"
  have "n = m * d + n mod d" using m div_mult_mod_eq [of n d] by simp
  moreover have "0 \<le> n mod d" "n mod d < d" using d by simp_all
  ultimately show "m * d \<le> n" "n < (m + 1) * d" by (simp_all add: algebra_simps)
next
  assume "0 < d" "m * d \<le> n \<and> n < (m + 1) * d"
  then show "n div d = m" by (intro int_div_pos_eq [of n d m "n - m * d"]) (simp_all add: algebra_simps)
qed

lemma special_use_v4:
  assumes n: "n = uint a" and r: "0 \<le> n" "n < 4294967296"
  shows "list_ex (\<lambda>prefix. prefix_Contains prefix (Addr4 a)) specialUsePrefixes \<longleftrightarrow>
     in_ranges [(v4_number 0 0 0 0, v4_number 1 0 0 0), (v4_number 100 64 0 0, v4_number 100 128 0 0),
      (v4_number 192 0 0 0, v4_number 192 0 1 0), (v4_number 192 0 2 0, v4_number 192 0 3 0),
      (v4_number 192 88 99 2, v4_number 192 88 99 3), (v4_number 198 18 0 0, v4_number 198 20 0 0),
      (v4_number 198 51 100 0, v4_number 198 51 101 0), (v4_number 203 0 113 0, v4_number 203 0 114 0),
      (v4_number 240 0 0 0, v4_number 256 0 0 0)] n"
proof -
  have e: "n = 3227017986 \<longleftrightarrow> 3227017986 \<le> n \<and> n < 3227017987" by linarith
  show ?thesis using r
    by (simp add: specialUsePrefixes_def contains_dotted contains_other_family div_range v4_number_def
        in_ranges_def n [symmetric] e del: prefix_Contains.simps)
qed

lemma v4_block:
  fixes k x b c d :: int
  assumes "0 \<le> b" "b \<le> 255" "0 \<le> c" "c \<le> 255" "0 \<le> d" "d \<le> 255"
  shows "x = k \<longleftrightarrow> v4_number k 0 0 0 \<le> v4_number x b c d \<and> v4_number x b c d < v4_number (k + 1) 0 0 0"
  using assms unfolding v4_number_def by auto

lemma v4_block2:
  fixes k l x b c d :: int
  assumes "0 \<le> b" "b \<le> 255" "0 \<le> c" "c \<le> 255" "0 \<le> d" "d \<le> 255" "0 \<le> l" "l \<le> 255"
  shows "x = k \<and> b = l \<longleftrightarrow> v4_number k l 0 0 \<le> v4_number x b c d \<and> v4_number x b c d < v4_number k (l + 1) 0 0"
proof
  assume n: "v4_number k l 0 0 \<le> v4_number x b c d \<and> v4_number x b c d < v4_number k (l + 1) 0 0"
  then have "x = k" using assms unfolding v4_number_def by auto
  then show "x = k \<and> b = l" using n assms unfolding v4_number_def by auto
qed (use assms in \<open>auto simp: v4_number_def\<close>)

lemma v4_spans:
  fixes x b c d :: int
  assumes "0 \<le> b" "b \<le> 255" "0 \<le> c" "c \<le> 255" "0 \<le> d" "d \<le> 255"
  shows "x = 172 \<and> 16 \<le> b \<and> b < 32 \<longleftrightarrow> v4_number 172 16 0 0 \<le> v4_number x b c d \<and> v4_number x b c d < v4_number 172 32 0 0"
    and "224 \<le> x \<and> x < 240 \<longleftrightarrow> v4_number 224 0 0 0 \<le> v4_number x b c d \<and> v4_number x b c d < v4_number 240 0 0 0"
proof -
  have x: "x = 172" if "v4_number 172 16 0 0 \<le> v4_number x b c d \<and> v4_number x b c d < v4_number 172 32 0 0"
    using that assms unfolding v4_number_def by auto
  have "16 \<le> b \<and> b < 32" if "v4_number 172 16 0 0 \<le> v4_number x b c d \<and> v4_number x b c d < v4_number 172 32 0 0"
    using that assms x [OF that] unfolding v4_number_def by auto
  with x show "x = 172 \<and> 16 \<le> b \<and> b < 32 \<longleftrightarrow>
      v4_number 172 16 0 0 \<le> v4_number x b c d \<and> v4_number x b c d < v4_number 172 32 0 0"
    using assms by (auto simp: v4_number_def)
  show "224 \<le> x \<and> x < 240 \<longleftrightarrow> v4_number 224 0 0 0 \<le> v4_number x b c d \<and> v4_number x b c d < v4_number 240 0 0 0"
    using assms unfolding v4_number_def by auto
qed

definition mapped :: "ip \<Rightarrow> ip" where
  "mapped p = replicate 10 0 @ [0xff, 0xff] @ p"

lemma To4_v4: "To4 [a, b, c, d] = Some [a, b, c, d]" "To4 (mapped [a, b, c, d]) = Some [a, b, c, d]"
  by (simp_all add: To4_def mapped_def eval_nat_numeral)

lemma unmap_mapped: "Unmap (Addr6 (word_rcat (mapped [a, b, c, d]))) = Addr4 (word_rcat [a, b, c, d])"
proof -
  define n where "n = v4_number (uint a) (uint b) (uint c) (uint d)"
  have n: "0 \<le> n" "n < 2 ^ 32"
    using byte_bounds [of a] byte_bounds [of b] byte_bounds [of c] byte_bounds [of d] by (simp_all add: n_def v4_number_def)
  have m: "mapped [a, b, c, d] = [0, 0, 0, 0, 0, 0, 0, 0, 0, 0, 0xff, 0xff, a, b, c, d]"
    by (simp add: mapped_def numeral_eq_Suc)
  have "horner_sum uint (2 ^ 8) (rev (mapped [a, b, c, d])) = 0xffff * 2 ^ 32 + n"
    unfolding m by (simp add: n_def v4_number_def)
  then have "word_rcat (mapped [a, b, c, d]) = (word_of_int (0xffff * 2 ^ 32 + n) :: 128 word)"
    by (simp add: word_rcat_def)
  then have u: "uint (word_rcat (mapped [a, b, c, d]) :: 128 word) = 0xffff * 2 ^ 32 + n"
    by (simp only: uint_word_of_int) (use n in simp)
  have "drop_bit 32 (word_rcat (mapped [a, b, c, d]) :: 128 word) = 0xffff"
    by (simp only: word_uint_eq_iff unsigned_drop_bit_eq bintr_uint order_refl u) (use n in \<open>simp add: drop_bit_eq_div take_bit_eq_mod\<close>)
  moreover have "(65535 * 2 ^ 32 + n) mod 2 ^ 32 = n" using n by (simp only: mod_mult_self3 mod_pos_pos_trivial)
  then have "(ucast (word_rcat (mapped [a, b, c, d]) :: 128 word) :: 32 word) = word_rcat [a, b, c, d]"
    by (simp only: word_uint_eq_iff unsigned_ucast_eq u uint_dotted n_def [symmetric]) (simp add: take_bit_eq_mod)
  ultimately show ?thesis by simp
qed

lemma v4_class:
  fixes a b c d :: "8 word"
  defines "n \<equiv> v4_number (uint a) (uint b) (uint c) (uint d)"
  assumes p: "To4 p = Some [a, b, c, d]"
  shows "IsPrivate p \<longleftrightarrow> in_ranges [(v4_number 10 0 0 0, v4_number 11 0 0 0), (v4_number 172 16 0 0, v4_number 172 32 0 0),
      (v4_number 192 168 0 0, v4_number 192 169 0 0)] n"
    and "IsLoopback p \<longleftrightarrow> in_ranges [(v4_number 127 0 0 0, v4_number 128 0 0 0)] n"
    and "IsLinkLocalUnicast p \<longleftrightarrow> in_ranges [(v4_number 169 254 0 0, v4_number 169 255 0 0)] n"
    and "IsMulticast p \<longleftrightarrow> in_ranges [(v4_number 224 0 0 0, v4_number 240 0 0 0)] n"
    and "IsLinkLocalMulticast p \<Longrightarrow> IsMulticast p"
proof -
  note bounds = byte_bounds [of b, THEN conjunct1] byte_bounds [of b, THEN conjunct2]
    byte_bounds [of c, THEN conjunct1] byte_bounds [of c, THEN conjunct2]
    byte_bounds [of d, THEN conjunct1] byte_bounds [of d, THEN conjunct2]
  note one = v4_block [OF bounds, of "uint a", folded n_def] and two = v4_block2 [OF bounds, of _ "uint a", folded n_def]
    and spans = v4_spans [OF bounds, of "uint a", folded n_def]
  have "IsPrivate p \<longleftrightarrow> a = 10 \<or> (a = 172 \<and> b AND 0xf0 = 16) \<or> (a = 192 \<and> b = 168)" by (simp add: IsPrivate_def p)
  then have priv: "IsPrivate p \<longleftrightarrow>
      uint a = 10 \<or> (uint a = 172 \<and> 16 \<le> uint b \<and> uint b < 32) \<or> (uint a = 192 \<and> uint b = 168)"
    unfolding high_nibble by (simp add: byte_eq_uint)
  show "IsPrivate p \<longleftrightarrow> in_ranges [(v4_number 10 0 0 0, v4_number 11 0 0 0), (v4_number 172 16 0 0, v4_number 172 32 0 0),
      (v4_number 192 168 0 0, v4_number 192 169 0 0)] n"
    using one [of 10] two [of 168 192] spans(1) by (simp add: priv in_ranges_def)
  show "IsLoopback p \<longleftrightarrow> in_ranges [(v4_number 127 0 0 0, v4_number 128 0 0 0)] n"
    using one [of 127] p by (simp add: IsLoopback_def in_ranges_def byte_eq_uint)
  show "IsLinkLocalUnicast p \<longleftrightarrow> in_ranges [(v4_number 169 254 0 0, v4_number 169 255 0 0)] n"
    using two [of 254 169] p by (simp add: IsLinkLocalUnicast_def in_ranges_def byte_eq_uint)
  show "IsMulticast p \<longleftrightarrow> in_ranges [(v4_number 224 0 0 0, v4_number 240 0 0 0)] n"
    using spans(2) p by (simp add: IsMulticast_def in_ranges_def high_nibble)
  show "IsLinkLocalMulticast p \<Longrightarrow> IsMulticast p"
    using p by (simp add: IsLinkLocalMulticast_def IsMulticast_def high_nibble)
qed

lemma in_ranges_Cons: "in_ranges (r # r' # rs) n \<longleftrightarrow> in_ranges [r] n \<or> in_ranges (r' # rs) n"
  by (simp add: in_ranges_def)

lemma public_v4:
  assumes p: "To4 p = Some [a, b, c, d]" and m: "AddrFromSlice p = Some m" "Unmap m = Addr4 (word_rcat [a, b, c, d])"
    and i: "\<not> IsInterfaceLocalMulticast p" and u: "IsUnspecified p \<Longrightarrow> a = 0"
  shows "isPublicIP p \<longleftrightarrow> \<not> in_ranges not_public_v4 (v4_number (uint a) (uint b) (uint c) (uint d))"
proof -
  define n where "n = v4_number (uint a) (uint b) (uint c) (uint d)"
  have r: "0 \<le> n" "n < 4294967296"
    using byte_bounds [of a] byte_bounds [of b] byte_bounds [of c] byte_bounds [of d] by (auto simp: n_def v4_number_def)
  note s = special_use_v4 [OF uint_dotted [of a b c d, folded n_def, symmetric] r]
  note kinds = v4_class [OF p, folded n_def]
  have z: "IsUnspecified p \<Longrightarrow> in_ranges [(v4_number 0 0 0 0, v4_number 1 0 0 0)] n"
    using u byte_bounds [of b] byte_bounds [of c] byte_bounds [of d] by (auto simp: n_def v4_number_def in_ranges_def)
  have last: "in_ranges [(v4_number 224 0 0 0, v4_number 256 0 0 0)] n \<longleftrightarrow>
      in_ranges [(v4_number 224 0 0 0, v4_number 240 0 0 0)] n \<or> in_ranges [(v4_number 240 0 0 0, v4_number 256 0 0 0)] n"
    unfolding v4_number_def in_ranges_def by auto
  have "isPublicIP p \<longleftrightarrow> \<not> (IsPrivate p \<or> IsLoopback p \<or> IsLinkLocalUnicast p \<or> IsLinkLocalMulticast p \<or>
      IsUnspecified p \<or> IsMulticast p \<or> list_ex (\<lambda>prefix. prefix_Contains prefix (Unmap m)) specialUsePrefixes)"
    using m(1) i by (simp add: isPublicIP_def)
  then show ?thesis using kinds(5) z
    unfolding m(2) s kinds(1-4) not_public_v4_def n_def [symmetric] in_ranges_Cons last by blast
qed

text \<open>C34. Which IPv4 addresses count as public: exactly those outside the private, shared, loopback,
  link-local, documentation, benchmarking, multicast, reserved and protocol blocks, and the same for the
  IPv4-mapped IPv6 form of an address, so writing an address in its other form gets around nothing.\<close>

theorem public_ipv4_ranges:
  "(isPublicIP [a, b, c, d] \<longleftrightarrow> \<not> in_ranges not_public_v4 (v4_number (uint a) (uint b) (uint c) (uint d))) \<and>
   (isPublicIP (mapped [a, b, c, d]) \<longleftrightarrow> isPublicIP [a, b, c, d])"
proof -
  have "\<not> IsInterfaceLocalMulticast [a, b, c, d]" "IsUnspecified [a, b, c, d] \<Longrightarrow> a = 0"
    by (auto simp: IsInterfaceLocalMulticast_def IsUnspecified_def ip_Equal_def IPv4zero_def IPv6unspecified_def
        numeral_eq_Suc split: if_splits)
  moreover have "AddrFromSlice [a, b, c, d] = Some (Addr4 (word_rcat [a, b, c, d]))" by (simp add: AddrFromSlice_def)
  ultimately have v4: "isPublicIP [a, b, c, d] \<longleftrightarrow> \<not> in_ranges not_public_v4 (v4_number (uint a) (uint b) (uint c) (uint d))"
    by (intro public_v4 [OF To4_v4(1)]) auto
  have "\<not> IsInterfaceLocalMulticast (mapped [a, b, c, d])" "IsUnspecified (mapped [a, b, c, d]) \<Longrightarrow> a = 0"
    by (auto simp: IsInterfaceLocalMulticast_def IsUnspecified_def ip_Equal_def IPv4zero_def IPv6unspecified_def
        mapped_def numeral_eq_Suc split: if_splits)
  moreover have "AddrFromSlice (mapped [a, b, c, d]) = Some (Addr6 (word_rcat (mapped [a, b, c, d])))"
    by (simp add: AddrFromSlice_def mapped_def)
  ultimately have "isPublicIP (mapped [a, b, c, d]) \<longleftrightarrow>
      \<not> in_ranges not_public_v4 (v4_number (uint a) (uint b) (uint c) (uint d))"
    by (intro public_v4 [OF To4_v4(2) _ unmap_mapped]) simp_all
  with v4 show ?thesis by simp
qed

section \<open>Connections\<close>

definition https_only :: "full_url \<Rightarrow> bool" where
  "https_only u \<longleftrightarrow> url_Scheme u = ''https'' \<and> url_User u = None \<and> (Port u = [] \<or> Port u = ''443'')"

text \<open>What a part of the download adds to the connections and requests of the gateway.\<close>

definition only_public :: "nat \<Rightarrow> net \<Rightarrow> net \<Rightarrow> bool" where
  "only_public k s s' \<longleftrightarrow> (\<exists>new reqs. dials s' = dials s @ new \<and> requests s' = requests s @ reqs \<and>
     list_all (\<lambda>(ip, port). isPublicIP ip \<and> port = ''443'') new \<and> list_all https_only reqs \<and> length reqs \<le> k)"

lemma only_public_same: "dials s' = dials s \<Longrightarrow> requests s' = requests s \<Longrightarrow> only_public k s s'"
  by (auto simp: only_public_def)

lemma only_public_trans:
  assumes "only_public k s s'" and "only_public l s' s''"
  shows "only_public (k + l) s s''"
proof -
  obtain new reqs where a: "dials s' = dials s @ new" "requests s' = requests s @ reqs" "list_all https_only reqs"
    "list_all (\<lambda>(ip, port). isPublicIP ip \<and> port = ''443'') new" "length reqs \<le> k"
    using assms(1) by (auto simp: only_public_def)
  obtain new' reqs' where b: "dials s'' = dials s' @ new'" "requests s'' = requests s' @ reqs'" "list_all https_only reqs'"
    "list_all (\<lambda>(ip, port). isPublicIP ip \<and> port = ''443'') new'" "length reqs' \<le> l"
    using assms(2) by (auto simp: only_public_def)
  show ?thesis unfolding only_public_def using a b by (intro exI [of _ "new @ new'"] exI [of _ "reqs @ reqs'"]) simp
qed

lemma only_public_mono: "only_public k s s' \<Longrightarrow> k \<le> l \<Longrightarrow> only_public l s s'"
  unfolding only_public_def by (meson order_trans)

lemma after_last_sep: "c \<notin> set t \<Longrightarrow> after_last c (s @ c # t) = t"
proof -
  assume c: "c \<notin> set t"
  have "takeWhile (\<lambda>x. x \<noteq> c) (rev t @ c # rev s) = rev t @ takeWhile (\<lambda>x. x \<noteq> c) (c # rev s)"
    using c by (intro takeWhile_append2) auto
  then show ?thesis by (simp add: after_last_def)
qed

lemma split_join_port:
  assumes "SplitHostPort (JoinHostPort host port) = Some (h, p)" and "CHR '':'' \<notin> set port"
  shows "p = port"
proof -
  have "p = after_last (CHR '':'') (JoinHostPort host port)"
    using assms(1) by (auto simp: SplitHostPort_def Let_def split: if_splits)
  then show ?thesis using after_last_sep [OF assms(2), of host] after_last_sep [OF assms(2), of "''['' @ host @ '']''"]
    by (simp add: JoinHostPort_def split: if_splits)
qed

lemma dial_any_frame:
  "dial_any W port e ips s = (s', r) \<Longrightarrow> list_all isPublicIP ips \<Longrightarrow>
     requests s' = requests s \<and> (\<exists>new. dials s' = dials s @ new \<and> list_all (\<lambda>(ip, q). isPublicIP ip \<and> q = port) new)"
proof (induction W port e ips s rule: dial_any.induct)
  case (2 W port e ip ips s)
  show ?case
  proof (cases "dial_failure W (length (dials s))")
    case None
    then show ?thesis using 2(2,3) by (auto simp: Let_def)
  next
    case (Some f)
    let ?s = "s\<lparr>dials := dials s @ [(ip, port)]\<rparr>"
    obtain new where "requests s' = requests ?s" "dials s' = dials ?s @ new" "list_all (\<lambda>(ip, q). isPublicIP ip \<and> q = port) new"
      using 2(1) [OF HOL.refl Some] 2(2,3) Some by (auto simp: Let_def)
    then show ?thesis using 2(3) by auto
  qed
qed auto

lemma dial_public:
  assumes run: "DialContext W (dial_address W u) s = (s', r)" and u: "https_only u"
  shows "only_public 0 s s'"
proof -
  define port where "port = (if Port u = [] then ''443'' else Port u)"
  have port: "port = ''443''" using u by (auto simp: port_def https_only_def)
  show ?thesis
  proof (cases "SplitHostPort (dial_address W u)")
    case None
    then show ?thesis using run by (auto simp: DialContext_def intro: only_public_same)
  next
    case (Some hp)
    obtain host p where hp: "hp = (host, p)" by (cases hp)
    have "p = ''443''"
      using split_join_port [of _ port host p] Some hp port by (simp add: dial_address_def port_def [symmetric])
    then show ?thesis using run Some hp
      by (auto simp: DialContext_def lookup_def only_public_def split: sum.splits if_splits dest!: dial_any_frame)
  qed
qed

lemma client_Do_public: "client_Do W u s = (s', r) \<Longrightarrow> https_only u \<Longrightarrow> only_public 1 s s'"
proof -
  assume run: "client_Do W u s = (s', r)" and u: "https_only u"
  obtain s1 x where e: "next_exchange s = (s1, x)" by (cases "next_exchange s")
  have s1: "dials s1 = dials s" "requests s1 = requests s" using e by (auto simp: next_exchange_def)
  define d where "d = (if ex_idle x then (s1, Inr ()) else DialContext W (dial_address W u) s1)"
  obtain s2 r2 where d2: "d = (s2, r2)" by (cases d)
  have "only_public 0 s1 s2"
  proof (cases "ex_idle x")
    case True
    then show ?thesis using d2 by (auto simp: d_def intro: only_public_same)
  next
    case False
    then show ?thesis using d2 dial_public [OF _ u] by (simp add: d_def)
  qed
  moreover have "only_public 0 s s1" by (rule only_public_same) (simp_all add: s1)
  ultimately have "only_public 0 s s2" using only_public_trans by fastforce
  moreover have "only_public 1 s2 s'"
    using run e d2 u by (cases r2) (auto simp: client_Do_def d_def [symmetric] only_public_def)
  ultimately show ?thesis using only_public_trans by fastforce
qed

lemma validate_public:
  assumes "validatePublicHTTPS W raw param s = (s', r)"
  shows "only_public 0 s s' \<and> (\<forall>u. r = Inr u \<longrightarrow> https_only u)"
  using assms by (auto simp: validatePublicHTTPS_def lookup_def https_only_def
      split: option.splits sum.splits if_splits intro: only_public_same)

lemma read_limited_bound:
  assumes "read_limited settings body = (content, e)" and "0 < MaxFileBytes settings" and "MaxFileBytes settings < 2 ^ 63 - 1"
  shows "int (length content) \<le> MaxFileBytes settings + 1"
proof -
  have "wrap64 (MaxFileBytes settings + 1) = MaxFileBytes settings + 1"
    using assms(2,3) by (intro wrap64_id) (simp add: in64_def)
  then show ?thesis using assms(1,2) by (auto simp: read_limited_def copy_from_def split: if_splits)
qed

definition bounded_content :: "Config \<Rightarrow> (string \<times> string) result \<Rightarrow> bool" where
  "bounded_content settings r \<longleftrightarrow> (case r of Inl _ \<Rightarrow> True | Inr (content, name) \<Rightarrow>
     MaxFileBytes settings \<le> 0 \<or> MaxFileBytes settings = 2 ^ 63 - 1 \<or> int (length content) \<le> MaxFileBytes settings + 1)"

lemma bounded_content_simps [simp]: "bounded_content settings (Inl e)"
  by (simp add: bounded_content_def)

lemma bounded_read:
  assumes "read_limited settings body = (content, e)" and "MaxFileBytes settings \<le> 2 ^ 63 - 1"
  shows "bounded_content settings (Inr (content, name))"
proof -
  consider "MaxFileBytes settings \<le> 0" | "MaxFileBytes settings = 2 ^ 63 - 1"
    | "0 < MaxFileBytes settings" "MaxFileBytes settings < 2 ^ 63 - 1" using assms(2) by linarith
  then show ?thesis by cases (simp_all add: bounded_content_def read_limited_bound [OF assms(1)])
qed

lemma download_public:
  "download W settings param redirects current s = (s', r) \<Longrightarrow> https_only current \<Longrightarrow> redirects \<le> 4 \<Longrightarrow>
     MaxFileBytes settings \<le> 2 ^ 63 - 1 \<Longrightarrow> only_public (5 - redirects) s s' \<and> bounded_content settings r"
proof (induction W settings param redirects current s arbitrary: s' r rule: download.induct)
  case (1 W settings param redirects current s)
  obtain s1 r1 where d: "client_Do W current s = (s1, r1)" by (cases "client_Do W current s")
  note one = client_Do_public [OF d 1(3)]
  have many: "only_public (5 - redirects) s s1" using only_public_mono [OF one, of "5 - redirects"] 1(4) by simp
  show ?case
  proof (cases r1)
    case (Inl e)
    then show ?thesis using 1(2) d many by (auto simp: download.simps)
  next
    case (Inr upstream)
    show ?thesis
    proof (cases "300 \<le> rep_Status upstream \<and> rep_Status upstream < 400 \<and> redirects < 4")
      case True
      then have loop: "300 \<le> rep_Status upstream \<and> rep_Status upstream < 400" "\<not> redirects \<ge> 4" by simp_all
      show ?thesis
      proof (cases "resolve_reference W current (rep_Location upstream)")
        case None
        then show ?thesis using 1(2) d Inr loop many by (auto simp: download.simps)
      next
        case (Some nxt)
        obtain s2 r2 where v: "validatePublicHTTPS W (url_String W nxt) param s1 = (s2, r2)"
          by (cases "validatePublicHTTPS W (url_String W nxt) param s1")
        note v' = validate_public [OF v]
        have two: "only_public (5 - redirects) s s2"
          using only_public_mono [OF only_public_trans [OF one conjunct1 [OF v']], of "5 - redirects"] 1(4) by simp
        show ?thesis
        proof (cases r2)
          case (Inl e)
          then show ?thesis using 1(2) d \<open>r1 = Inr upstream\<close> loop Some v two by (auto simp: download.simps)
        next
          case (Inr u)
          have "download W settings param (redirects + 1) u s2 = (s', r)"
            using 1(2) d \<open>r1 = Inr upstream\<close> loop Some v Inr by (subst (asm) download.simps) simp
          then have "only_public (5 - (redirects + 1)) s2 s' \<and> bounded_content settings r"
            using 1(1) [OF d [symmetric] \<open>r1 = Inr upstream\<close> loop Some v [symmetric] Inr] v' Inr loop 1(5) by auto
          then show ?thesis using only_public_trans [OF only_public_trans [OF one conjunct1 [OF v']], of "5 - (redirects + 1)" s'] loop
            by (auto elim!: only_public_mono)
        qed
      qed
    next
      case False
      obtain content e where c: "read_limited settings (rep_Body upstream) = (content, e)"
        by (cases "read_limited settings (rep_Body upstream)")
      show ?thesis using 1(2) d Inr False many c bounded_read [OF c 1(5)]
        by (cases e) (auto simp: download.simps split: if_splits)
    qed
  qed
qed

text \<open>C33. The download of a client's URL reaches public hosts only. Whatever the resolver answers, each time
  anew, and whatever the peers send back, redirects included: every connection attempt goes to a public
  address on port 443, every request is an HTTPS request without user information on that port, there
  are at most five of them, and what is read of the body is at most one byte over the limit.\<close>

theorem file_url_only_public:
  assumes "downloadPublicHTTPS W settings rawURL param s = (s', r)" and "MaxFileBytes settings \<le> 2 ^ 63 - 1"
  shows "(\<exists>new reqs. dials s' = dials s @ new \<and> requests s' = requests s @ reqs \<and> length reqs \<le> 5 \<and>
      list_all (\<lambda>(ip, port). isPublicIP ip \<and> port = ''443'') new \<and> list_all https_only reqs) \<and>
    (case r of Inl _ \<Rightarrow> True | Inr (content, name) \<Rightarrow> MaxFileBytes settings \<le> 0 \<or> MaxFileBytes settings = 2 ^ 63 - 1 \<or>
      int (length content) \<le> MaxFileBytes settings + 1)"
proof -
  obtain s1 r1 where v: "validatePublicHTTPS W rawURL param s = (s1, r1)"
    by (cases "validatePublicHTTPS W rawURL param s")
  note v' = validate_public [OF v]
  have "only_public 5 s s' \<and> bounded_content settings r"
  proof (cases r1)
    case (Inl e)
    then show ?thesis using assms(1) v v' only_public_mono [of 0 s s1 5] by (auto simp: downloadPublicHTTPS_def)
  next
    case (Inr u)
    then have "download W settings param 0 u s1 = (s', r)" using assms(1) v by (simp add: downloadPublicHTTPS_def)
    then show ?thesis using download_public [OF _ _ _ assms(2)] v' Inr only_public_trans [of 0 s s1 5 s'] by fastforce
  qed
  then show ?thesis unfolding only_public_def bounded_content_def by auto
qed

text \<open>A host that is public when the URL is validated and the loopback address when it is dialled; and one
  that stays public.\<close>

definition demo_url :: full_url where
  "demo_url = \<lparr>url_Scheme = ''https'', url_Host = ''example.org'', url_Path = ''/doc.txt'', url_RawQuery = [], url_User = None\<rparr>"

definition demo_web :: "ip \<Rightarrow> web" where
  "demo_web later = \<lparr>parse_url = \<lambda>_. Some demo_url, resolve_reference = \<lambda>_ _. None, url_String = \<lambda>_. [], idna_host = \<lambda>h. h,
     LookupIPAddr = \<lambda>n _. Inr [if n = 0 then [93, 184, 216, 34] else later], dial_failure = \<lambda>_. None\<rparr>"

definition demo_net :: net where
  "demo_net = \<lparr>lookups = 0, dials = [], requests = [], exchanges = [\<lparr>ex_idle = False, ex_result =
     Inr \<lparr>rep_Status = 200, rep_Location = [], rep_Body = \<lparr>rd_data = ''hi'', rd_err = None, rd_joined = False\<rparr>\<rparr>\<rparr>]\<rparr>"

lemma demo_ips: "isPublicIP [93, 184, 216, 34]" "\<not> isPublicIP [127, 0, 0, 1]"
  by code_simp+

lemma demo_hosts [simp]: "Hostname demo_url = ''example.org''" "Port demo_url = []" "url_Scheme demo_url = ''https''"
  "url_User demo_url = None" "url_Path demo_url = ''/doc.txt''"
  "SplitHostPort (JoinHostPort ''example.org'' ''443'') = Some (''example.org'', ''443'')" "path_base ''/doc.txt'' = ''doc.txt''"
  by code_simp+

lemma demo_limit [simp]: "MaxFileBytes demo_settings = 10"
  by (simp add: demo_settings_def)

lemma demo_validated:
  "validatePublicHTTPS (demo_web later) [] [] demo_net = (demo_net\<lparr>lookups := 1\<rparr>, Inr demo_url)"
  by (simp add: validatePublicHTTPS_def lookup_def demo_web_def demo_net_def demo_ips)

lemmas download_defs = download.simps client_Do_def next_exchange_def
  dial_address_def DialContext_def lookup_def

lemma demo_downloads:
  "downloadPublicHTTPS (demo_web [127, 0, 0, 1]) demo_settings [] [] demo_net =
     (demo_net\<lparr>lookups := 2, exchanges := []\<rparr>, Inl (url_error ''Unable to download file URL.'' []))"
  "downloadPublicHTTPS (demo_web [93, 184, 216, 34]) demo_settings [] [] demo_net =
     (demo_net\<lparr>lookups := 2, exchanges := [], dials := [([93, 184, 216, 34], ''443'')], requests := [demo_url]\<rparr>,
      Inr (''hi'', ''doc.txt''))"
  unfolding downloadPublicHTTPS_def demo_validated
  by (simp_all add: download_defs demo_web_def demo_net_def demo_ips contains_text_def has_prefix_def
      read_limited_def copy_from_def wrap64_def)

theorem file_url_only_public_witness:
  "(\<exists>s' e. downloadPublicHTTPS (demo_web [127, 0, 0, 1]) demo_settings [] [] demo_net = (s', Inl e) \<and> dials s' = []) \<and>
   (\<exists>s' b. downloadPublicHTTPS (demo_web [93, 184, 216, 34]) demo_settings [] [] demo_net = (s', Inr b) \<and>
      (\<exists>new. dials s' = dials demo_net @ new \<and> new \<noteq> [] \<and> list_all (\<lambda>(ip, port). isPublicIP ip \<and> port = ''443'') new))"
proof (intro conjI)
  show "\<exists>s' e. downloadPublicHTTPS (demo_web [127, 0, 0, 1]) demo_settings [] [] demo_net = (s', Inl e) \<and> dials s' = []"
    unfolding demo_downloads by (simp add: demo_net_def)
  obtain new where "[([93, 184, 216, 34], ''443'')] = dials demo_net @ new" and "list_all (\<lambda>(ip, port). isPublicIP ip \<and> port = ''443'') new"
    using file_url_only_public [OF demo_downloads(2)] by auto
  then show "\<exists>s' b. downloadPublicHTTPS (demo_web [93, 184, 216, 34]) demo_settings [] [] demo_net = (s', Inr b) \<and>
      (\<exists>new. dials s' = dials demo_net @ new \<and> new \<noteq> [] \<and> list_all (\<lambda>(ip, port). isPublicIP ip \<and> port = ''443'') new)"
    unfolding demo_downloads(2) by (intro exI conjI) (auto simp: demo_net_def)
qed

end
