(* ===== verification/Inference_Correct.thy ===== *)
theory Inference_Correct
  imports Inference File_Service_Correct File_Url_Correct
begin

text \<open>
  What an inference request does: what it sends to the model server, with every file part replaced by
  the text and images of its document, and what it leaves behind, namely nothing, on every path.
\<close>

section \<open>The payload\<close>

text \<open>The parts that stand for a document.\<close>

definition document_part :: "endpoint \<Rightarrow> json \<Rightarrow> bool" where
  "document_part endpoint part = (case part of
     JObj kvs \<Rightarrow> (case endpoint of
         Responses \<Rightarrow> field kvs ''type'' = Some (JStr ''input_text'') \<or> field kvs ''type'' = Some (JStr ''input_image'')
       | ChatCompletions \<Rightarrow> field kvs ''type'' = Some (JStr ''text'') \<or> field kvs ''type'' = Some (JStr ''image_url''))
   | _ \<Rightarrow> False)"

lemma document_part_no_file: "document_part endpoint part \<Longrightarrow> \<not> file_part endpoint part"
  by (cases endpoint) (auto simp: document_part_def file_part_def split: json.splits)

lemma document_part_made [simp]:
  "document_part endpoint (text_json_part endpoint label)" "document_part endpoint (image_json_part endpoint artifact picture)"
  by (cases endpoint; simp add: document_part_def text_json_part_def image_json_part_def field_def)+

lemma returns_Inr: "returns x s = (s', Inr y) \<longleftrightarrow> s' = s \<and> y = x" and fails_Inr: "fails e s \<noteq> (s', Inr y)"
  by (auto simp: returns_def fails_def)

lemmas success = and_then_Inr returns_Inr fails_Inr

lemma read_text_part_document:
  "read_text_part E kind filename dir artifact s = (s', Inr ps) \<Longrightarrow> list_all (document_part kind) ps"
  by (auto simp: read_text_part_def success split: if_splits)

lemma read_parts_document:
  "read_parts E settings kind filename dir images artifacts s = (s', Inr ps) \<Longrightarrow> list_all (document_part kind) ps"
proof (induction E settings kind filename dir images artifacts arbitrary: s s' ps rule: read_parts.induct)
  case (2 E settings kind filename dir images artifact artifacts)
  show ?case
  proof (cases "ImagePath artifact")
    case None
    then show ?thesis using 2(1) [OF None] 2(4) by (auto simp: success dest!: read_text_part_document)
  next
    case (Some image_path)
    show ?thesis
    proof (cases "MaxDocumentPages settings > 0 \<and> images \<ge> MaxDocumentPages settings")
      case True
      then show ?thesis using 2(2) [OF Some True] 2(4) Some by (auto simp: success dest!: read_text_part_document)
    next
      case False
      then show ?thesis using 2(3) [OF Some False] 2(4) Some
        by (auto simp: success dest!: read_text_part_document split: if_splits)
    qed
  qed
qed (simp add: success)

lemma documentParts_document: "documentParts E settings kind doc s = (s', Inr ps) \<Longrightarrow> list_all (document_part kind) ps"
  by (auto simp: documentParts_def success split: list.splits dest: read_parts_document)

text \<open>How the parts of a message, and a message, are expanded.\<close>

definition part_expansion :: "endpoint \<Rightarrow> json \<Rightarrow> json list \<Rightarrow> bool" where
  "part_expansion endpoint part new \<longleftrightarrow> (if file_part endpoint part then list_all (document_part endpoint) new else new = [part])"

definition item_expansion :: "endpoint \<Rightarrow> json \<Rightarrow> json \<Rightarrow> bool" where
  "item_expansion endpoint item item' \<longleftrightarrow> (case content_parts item of
     None \<Rightarrow> item' = item
   | Some parts \<Rightarrow> \<exists>kvs new. item = JObj kvs \<and> list_all2 (part_expansion endpoint) parts new \<and>
       item' = JObj (set_field ''content'' (JArr (concat new)) (typed_item endpoint kvs)))"

lemma expand_document_document:
  "expand_document E settings endpoint param doc s = (s', Inr new) \<Longrightarrow> list_all (document_part endpoint) new"
  by (cases "documentParts E settings endpoint doc (svc_os (wk_svc s))")
    (auto simp: expand_document_def on_os_def map_sum_def split: sum.splits dest: documentParts_document)

lemma expand_part_expansion:
  "expand_part E settings dispatcher W endpoint tenant param part s = (s', Inr new) \<Longrightarrow> part_expansion endpoint part new"
  by (auto simp: expand_part_def part_expansion_def success split: if_splits sum.splits dest: expand_document_document)

lemma expand_parts_expansion:
  assumes "\<And>j part s s' new. expand j part s = (s', Inr new) \<Longrightarrow> part_expansion endpoint part new"
  shows "expand_parts endpoint expand j parts s = (s', Inr (parts', seen)) \<Longrightarrow>
    (\<exists>new. parts' = concat new \<and> list_all2 (part_expansion endpoint) parts new) \<and> seen = list_ex (file_part endpoint) parts"
proof (induction parts arbitrary: j s s' parts' seen)
  case (Cons part parts)
  obtain s1 s2 d rest seen' where 1: "expand j part s = (s1, Inr d)" and
    2: "expand_parts endpoint expand (j + 1) parts s1 = (s2, Inr (rest, seen'))" and
    r: "parts' = d @ rest" "seen = (file_part endpoint part \<or> seen')"
    using Cons(2) by (simp add: success split_def) blast
  obtain new where n: "rest = concat new" "list_all2 (part_expansion endpoint) parts new" and "seen' = list_ex (file_part endpoint) parts"
    using Cons(1) [OF 2] by blast
  then show ?case using assms [OF 1] r by (auto intro!: exI [of _ "d # new"])
qed (auto simp: success)

definition item_with_file :: "endpoint \<Rightarrow> json \<Rightarrow> bool" where
  "item_with_file endpoint item \<longleftrightarrow> (case content_parts item of None \<Rightarrow> False | Some parts \<Rightarrow> list_ex (file_part endpoint) parts)"

lemma hasFileReference_items: "hasFileReference endpoint payload \<longleftrightarrow>
    (case as_array (field payload (items_key endpoint)) of None \<Rightarrow> False | Some messages \<Rightarrow> list_ex (item_with_file endpoint) messages)"
proof -
  have "item_with_file endpoint = (\<lambda>item. case content_parts item of None \<Rightarrow> False | Some parts \<Rightarrow> list_ex (file_part endpoint) parts)"
    by (rule ext) (simp add: item_with_file_def)
  then show ?thesis by (simp add: hasFileReference_def split: option.split)
qed

lemma content_parts_Some: "content_parts item = Some parts \<Longrightarrow> \<exists>kvs. item = JObj kvs \<and> field kvs ''content'' = Some (JArr parts)"
  by (cases item) (auto simp: content_parts_def as_array_Some)

lemma expand_items_expansion:
  assumes "\<And>i j part s s' new. expand i j part s = (s', Inr new) \<Longrightarrow> part_expansion endpoint part new"
  shows "expand_items endpoint expand i messages s = (s', Inr (messages', seen)) \<Longrightarrow>
    list_all2 (item_expansion endpoint) messages messages' \<and> seen = list_ex (item_with_file endpoint) messages"
proof (induction messages arbitrary: i s s' messages' seen)
  case (Cons item messages)
  show ?case
  proof (cases "content_parts item")
    case None
    have e: "item_expansion endpoint item item" "\<not> item_with_file endpoint item"
      using None by (simp_all add: item_expansion_def item_with_file_def)
    obtain s2 rest seen2 where 2: "expand_items endpoint expand (i + 1) messages s = (s2, Inr (rest, seen2))"
      and r: "messages' = item # rest" "seen = seen2"
      using Cons(2) None by (cases item) (simp_all add: success split_def, blast+)
    then show ?thesis using e Cons(1) [OF 2] by simp
  next
    case (Some parts)
    obtain kvs where item: "item = JObj kvs" using content_parts_Some [OF Some] by blast
    obtain s1 s2 ps seen1 rest seen2 where 1: "expand_parts endpoint (expand i) 0 parts s = (s1, Inr (ps, seen1))" and
      2: "expand_items endpoint expand (i + 1) messages s1 = (s2, Inr (rest, seen2))" and
      r: "messages' = JObj (set_field ''content'' (JArr ps) (typed_item endpoint kvs)) # rest" "seen = (seen1 \<or> seen2)"
      using Cons(2) Some item by (simp add: success split_def) blast
    have "(\<exists>new. ps = concat new \<and> list_all2 (part_expansion endpoint) parts new) \<and> seen1 = list_ex (file_part endpoint) parts"
      by (rule expand_parts_expansion [OF _ 1]) (rule assms)
    then have "item_expansion endpoint item (JObj (set_field ''content'' (JArr ps) (typed_item endpoint kvs)))"
      "seen1 = item_with_file endpoint item"
      using Some item by (auto simp: item_expansion_def item_with_file_def)
    then show ?thesis using Cons(1) [OF 2] r by simp
  qed
qed (auto simp: success)

lemma expanded_item_without_file: "item_expansion endpoint item item' \<Longrightarrow> \<not> item_with_file endpoint item'"
proof (cases "content_parts item")
  case (Some parts)
  assume "item_expansion endpoint item item'"
  then obtain kvs new where n: "list_all2 (part_expansion endpoint) parts new"
    and item': "item' = JObj (set_field ''content'' (JArr (concat new)) (typed_item endpoint kvs))"
    using Some by (auto simp: item_expansion_def)
  have "\<not> list_ex (file_part endpoint) (concat new)" using n
    by (induction rule: list_all2_induct)
      (auto simp: part_expansion_def list_ex_iff list_all_iff dest: document_part_no_file split: if_splits)
  then show ?thesis by (simp add: item_with_file_def item' content_parts_def)
qed (auto simp: item_expansion_def item_with_file_def)

lemma expand_payload_expansion:
  assumes "expand_payload E settings dispatcher W endpoint tenant payload s = (s', Inr (payload', seen))"
    and "hasFileReference endpoint payload"
  shows "seen \<and> (\<exists>messages messages'. field payload (items_key endpoint) = Some (JArr messages) \<and>
    list_all2 (item_expansion endpoint) messages messages' \<and> payload' = set_field (items_key endpoint) (JArr messages') payload)"
proof -
  obtain messages where m: "field payload (items_key endpoint) = Some (JArr messages)" and f: "list_ex (item_with_file endpoint) messages"
    using assms(2) by (auto simp: hasFileReference_items as_array_Some split: option.splits)
  have "\<not> (endpoint = Responses \<and> as_string (field payload ''input'') \<noteq> None)" using m by (auto simp: items_key_def)
  then obtain s1 messages' where "expand_items endpoint (\<lambda>i j part. expand_part E settings dispatcher W endpoint tenant
      (part_param endpoint i j) part) 0 messages s = (s1, Inr (messages', seen))"
    and "payload' = set_field (items_key endpoint) (JArr messages') payload"
    using assms(1) m by (auto simp: expand_payload_def success)
  moreover have "list_all2 (item_expansion endpoint) messages messages' \<and> seen = list_ex (item_with_file endpoint) messages"
    by (rule expand_items_expansion [OF _ calculation(1)]) (rule expand_part_expansion)
  ultimately show ?thesis using m f by blast
qed

lemma instructed_without_file:
  "list_all2 (item_expansion endpoint) messages messages' \<Longrightarrow>
     \<not> hasFileReference endpoint (instructed endpoint (set_field (items_key endpoint) (JArr messages') payload))"
proof -
  assume "list_all2 (item_expansion endpoint) messages messages'"
  then have "\<not> list_ex (item_with_file endpoint) messages'"
    by (induction rule: list_all2_induct) (auto dest: expanded_item_without_file)
  moreover have "\<not> item_with_file endpoint (JObj [(''role'', JStr ''system''), (''content'', JStr documentInstruction)])"
    by (simp add: item_with_file_def content_parts_def field_def)
  ultimately show ?thesis by (cases endpoint) (simp_all add: hasFileReference_items instructed_def items_key_def)
qed

lemma not_forwarded: "fw_Sent (snd (body_failure e s)) = None"
  by (auto simp: body_failure_def refuse_def replied_def split: prod.splits sum.splits)


end
