(* ===== verification/Inference_Resources.thy ===== *)
theory Inference_Resources
  imports Inference_Correct
begin

text \<open>
  What an inference request leaves behind: no request directory, no lease, no change of the rows of the
  store and none of the files outside the work directory, on whichever path it ends.
\<close>

section \<open>Files\<close>

definition work_dir :: "Config \<Rightarrow> path" where
  "work_dir settings = data_dir settings @ [''work'']"

definition request_path :: "path \<Rightarrow> path \<Rightarrow> bool" where
  "request_path d p \<longleftrightarrow> (\<exists>n. below (d @ [''gateway-request-'' @ n]) p)"

definition os_of :: "work \<Rightarrow> os" where
  "os_of s = svc_os (wk_svc s)"

definition regs_of :: "work \<Rightarrow> registers" where
  "regs_of s = svc_regs (wk_svc s)"

text \<open>From \<open>s\<close> to \<open>s'\<close> only request directories are made, and they are recorded; all other files are as
  before. The work directory and its ancestors are left out, which \<open>MkdirAll\<close> would make.\<close>

definition frame_to :: "path \<Rightarrow> work \<Rightarrow> work \<Rightarrow> bool" where
  "frame_to d s s' \<longleftrightarrow> rm_faults (os_of s') = [] \<and> svc_rows (wk_svc s') = svc_rows (wk_svc s) \<and>
     (\<exists>ts. wk_temporary s' = wk_temporary s @ ts \<and> (\<forall>t \<in> set ts. \<exists>n. t = d @ [''gateway-request-'' @ n])) \<and>
     (\<forall>p. \<not> below p d \<longrightarrow> node_at (os_of s') p = node_at (os_of s) p \<or> (\<exists>t \<in> set (wk_temporary s'). below t p) \<or>
        (request_path d p \<and> node_at (os_of s') p = None))"

definition tidy :: "path \<Rightarrow> path set \<Rightarrow> (work \<Rightarrow> work \<times> 'a result) \<Rightarrow> bool" where
  "tidy d T m \<longleftrightarrow> (\<forall>s s' r. m s = (s', r) \<longrightarrow> rm_faults (os_of s) = [] \<longrightarrow> T \<subseteq> set (wk_temporary s) \<longrightarrow> frame_to d s s')"

lemma tidyI: "(\<And>s s' r. m s = (s', r) \<Longrightarrow> rm_faults (os_of s) = [] \<Longrightarrow> T \<subseteq> set (wk_temporary s) \<Longrightarrow> frame_to d s s') \<Longrightarrow> tidy d T m"
  unfolding tidy_def by blast

lemma tidyD: "tidy d T m \<Longrightarrow> m s = (s', r) \<Longrightarrow> rm_faults (os_of s) = [] \<Longrightarrow> T \<subseteq> set (wk_temporary s) \<Longrightarrow> frame_to d s s'"
  unfolding tidy_def by blast

lemma frame_same:
  "rm_faults (os_of s) = [] \<Longrightarrow> wk_temporary s' = wk_temporary s \<Longrightarrow> rm_faults (os_of s') = rm_faults (os_of s) \<Longrightarrow>
     svc_rows (wk_svc s') = svc_rows (wk_svc s) \<Longrightarrow> (\<And>p. node_at (os_of s') p = node_at (os_of s) p) \<Longrightarrow> frame_to d s s'"
  by (simp add: frame_to_def)

lemma frame_trans:
  assumes "frame_to d s s'" and "frame_to d s' s''"
  shows "frame_to d s s''"
proof -
  obtain ts where a: "wk_temporary s' = wk_temporary s @ ts" "\<forall>t \<in> set ts. \<exists>n. t = d @ [''gateway-request-'' @ n]"
    using assms(1) unfolding frame_to_def by blast
  obtain us where b: "wk_temporary s'' = wk_temporary s' @ us" "\<forall>t \<in> set us. \<exists>n. t = d @ [''gateway-request-'' @ n]"
    using assms(2) unfolding frame_to_def by blast
  have n: "node_at (os_of s'') p = node_at (os_of s) p \<or> (\<exists>t \<in> set (wk_temporary s''). below t p) \<or>
      (request_path d p \<and> node_at (os_of s'') p = None)" if "\<not> below p d" for p
  proof -
    have 1: "node_at (os_of s') p = node_at (os_of s) p \<or> (\<exists>t \<in> set (wk_temporary s'). below t p) \<or>
        (request_path d p \<and> node_at (os_of s') p = None)" using assms(1) that unfolding frame_to_def by blast
    have 2: "node_at (os_of s'') p = node_at (os_of s') p \<or> (\<exists>t \<in> set (wk_temporary s''). below t p) \<or>
        (request_path d p \<and> node_at (os_of s'') p = None)" using assms(2) that unfolding frame_to_def by blast
    show ?thesis using 1 2 b(1) by auto
  qed
  have "\<forall>t \<in> set (ts @ us). \<exists>n. t = d @ [''gateway-request-'' @ n]" using a(2) b(2) by auto
  then have "\<exists>vs. wk_temporary s'' = wk_temporary s @ vs \<and> (\<forall>t \<in> set vs. \<exists>n. t = d @ [''gateway-request-'' @ n])"
    using a(1) b(1) by (intro exI [of _ "ts @ us"]) simp
  moreover have "rm_faults (os_of s'') = []" "svc_rows (wk_svc s'') = svc_rows (wk_svc s)"
    using assms unfolding frame_to_def by simp_all
  ultimately show ?thesis using n unfolding frame_to_def by blast
qed

lemma frame_temporary: "frame_to d s s' \<Longrightarrow> set (wk_temporary s) \<subseteq> set (wk_temporary s')"
  unfolding frame_to_def by auto

lemma frame_rm: "frame_to d s s' \<Longrightarrow> rm_faults (os_of s') = []"
  by (simp add: frame_to_def)

lemma tidy_and_then:
  assumes "tidy d T m" and "\<And>x. tidy d T (k x)"
  shows "tidy d T (and_then m k)"
proof (rule tidyI)
  fix s s' r assume run: "and_then m k s = (s', r)" and s: "rm_faults (os_of s) = []" "T \<subseteq> set (wk_temporary s)"
  obtain s1 r1 where 1: "m s = (s1, r1)" by (cases "m s")
  note f = tidyD [OF assms(1) 1 s]
  show "frame_to d s s'"
  proof (cases r1)
    case (Inl e)
    then show ?thesis using run 1 f by (simp add: and_then_def)
  next
    case (Inr x)
    then have "k x s1 = (s', r)" using run 1 by (simp add: and_then_def)
    then show ?thesis using frame_trans [OF f] tidyD [OF assms(2)] frame_rm [OF f] frame_temporary [OF f] s(2) by blast
  qed
qed

lemma tidy_pure: "tidy d T (returns x)" "tidy d T (fails e)"
  by (auto intro!: tidyI frame_same simp: returns_def fails_def)

lemma quiet_same:
  assumes "quiet m" and "on_os m s = (s', r)"
  shows "wk_temporary s' = wk_temporary s" "rm_faults (os_of s') = rm_faults (os_of s)"
    "svc_rows (wk_svc s') = svc_rows (wk_svc s)" "node_at (os_of s') p = node_at (os_of s) p"
proof -
  obtain o1 r1 where 1: "m (os_of s) = (o1, r1)" by (cases "m (os_of s)")
  have o1: "rm_faults o1 = rm_faults (os_of s)" "node_at o1 q = node_at (os_of s) q" for q
    using assms(1) 1 unfolding quiet_def by blast+
  have s': "s' = s\<lparr>wk_svc := (wk_svc s)\<lparr>svc_os := o1\<rparr>\<rparr>" using assms(2) 1 by (simp add: on_os_def os_of_def)
  show "wk_temporary s' = wk_temporary s" "svc_rows (wk_svc s') = svc_rows (wk_svc s)" by (simp_all add: s')
  show "rm_faults (os_of s') = rm_faults (os_of s)" "node_at (os_of s') p = node_at (os_of s) p"
    using o1 by (simp_all add: s' os_of_def [of "s\<lparr>wk_svc := x\<rparr>" for x])
qed

lemma tidy_quiet: "quiet m \<Longrightarrow> tidy d T (on_os m)"
proof (rule tidyI)
  fix s s' r assume q: "quiet m" and run: "on_os m s = (s', r)" and rm: "rm_faults (os_of s) = []"
  show "frame_to d s s'" by (rule frame_same [OF rm]) (rule quiet_same [OF q run])+
qed

lemma quiet_poll: "quiet (unless_cancelled (returns ()))"
  unfolding quiet_def
proof (intro allI impI)
  fix s s' r assume u: "unless_cancelled (returns ()) s = (s', r)"
  obtain s1 e where 1: "ctx_Err s = (s1, e)" by (cases "ctx_Err s")
  have "s' = s1" using u 1 by (cases e) (simp_all add: unless_cancelled_def returns_def)
  then show "rm_faults s' = rm_faults s \<and> (\<forall>p. node_at s' p = node_at s p)" using ctx_Err_frame [OF 1] by simp
qed

lemma tidy_check: "tidy d T check_ctx"
  unfolding check_ctx_def by (rule tidy_quiet [OF quiet_poll])

text \<open>A step inside a request directory that is recorded.\<close>

lemma tidy_inside:
  assumes "keeps_rm m" and "\<And>s s' r p. m s = (s', r) \<Longrightarrow> \<not> below t p \<Longrightarrow> \<not> below p d \<Longrightarrow> node_at s' p = node_at s p"
  shows "tidy d {t} (on_os m)"
proof (rule tidyI)
  fix s s' r assume run: "on_os m s = (s', r)" and s: "rm_faults (os_of s) = []" "{t} \<subseteq> set (wk_temporary s)"
  obtain o1 r1 where 1: "m (os_of s) = (o1, r1)" by (cases "m (os_of s)")
  have s': "os_of s' = o1" "wk_temporary s' = wk_temporary s" "svc_rows (wk_svc s') = svc_rows (wk_svc s)"
    using run 1 by (auto simp: on_os_def os_of_def)
  have "rm_faults o1 = []" by (rule keeps_rmD [OF assms(1) s(1) 1])
  then show "frame_to d s s'" using s' s(2) assms(2) [OF 1] by (auto simp: frame_to_def)
qed

lemma touched_derived: "touched (d @ [n] @ [x]) p \<Longrightarrow> below (d @ [n]) p \<or> below p d"
proof -
  assume t: "touched (d @ [n] @ [x]) p"
  have 1: "below (d @ [n]) p" if "below (d @ [n] @ [x]) p"
    using that unfolding below_iff by auto
  have 2: "below (d @ [n]) p \<or> below p d" if b: "below p (d @ [n] @ [x])"
  proof -
    obtain z where z: "d @ [n] @ [x] = p @ z" using b unfolding below_iff by blast
    show ?thesis
    proof (cases z rule: rev_cases)
      case Nil
      then have "p = (d @ [n]) @ [x]" using z by simp
      then show ?thesis unfolding below_iff by blast
    next
      case (snoc y b)
      then have "d @ [n] = p @ y" using z by (metis append.assoc append1_eq_conv)
      then show ?thesis unfolding below_iff by (cases y rule: rev_cases) (auto simp flip: append_assoc)
    qed
  qed
  have "below (d @ [n]) p" if "p = manifest_at (d @ [n] @ [x])"
    using that by (simp add: manifest_at_def below_iff butlast_append)
  then show ?thesis using t 1 2 by (auto simp: touched_def)
qed

lemma tidy_on_net: "tidy d T (on_net m)"
  by (rule tidyI) (auto simp: on_net_def os_of_def intro!: frame_same split: prod.splits)

lemma resolve_open_rows:
  "resolve_open E settings i param f v = (v', r) \<Longrightarrow> svc_rows v' = svc_rows v \<and> rm_faults (svc_os v') = rm_faults (svc_os v)
     \<and> node_at (svc_os v') p = node_at (svc_os v) p"
proof -
  assume run: "resolve_open E settings i param f v = (v', r)"
  show ?thesis
  proof (cases "ManifestPath f")
    case (Some mp)
    obtain r1 l where 1: "acquireLease (svc_regs v) i = (r1, l)" by fastforce
    obtain o1 c where 2: "read_file (data_dir settings @ path_of mp) (svc_os v) = (o1, c)" by fastforce
    show ?thesis using run Some 1 2 read_file_frame [OF 2] rm_faults_same(3) [OF 2]
      by (auto simp: resolve_open_def split: if_splits sum.splits option.splits)
  qed (use run in \<open>simp add: resolve_open_def\<close>)
qed

lemma Resolve_frame:
  assumes "Resolve E settings polls i tenant param v = (v', r)"
  shows "svc_rows v' = svc_rows v" "rm_faults (svc_os v') = rm_faults (svc_os v)" "node_at (svc_os v') p = node_at (svc_os v) p"
  using assms resolve_open_rows by (auto simp: Resolve_def split: option.splits sum.splits prod.splits)

lemma tidy_resolve_file: "tidy d T (resolve_file E settings i tenant param)"
proof (rule tidyI)
  fix s s' r assume run: "resolve_file E settings i tenant param s = (s', r)" and rm: "rm_faults (os_of s) = []"
  obtain polls v r' where 1: "Resolve E settings polls i tenant param (wk_svc s) = (v, r')"
    and s': "s' = s\<lparr>wk_svc := v, wk_polls := tl (wk_polls s)\<rparr>"
    using run by (auto simp: resolve_file_def Let_def split: prod.splits)
  show "frame_to d s s'"
    by (rule frame_same [OF rm]) (simp_all add: s' os_of_def Resolve_frame [OF 1])
qed

lemma mkdir_temp_frame:
  "mkdir_temp d names s = (s', r) \<Longrightarrow> rm_faults s' = rm_faults s \<and>
     (case r of Inl e \<Rightarrow> \<forall>p. node_at s' p = node_at s p
      | Inr (t, names') \<Rightarrow> (\<exists>n. t = d @ [''gateway-request-'' @ n]) \<and> (\<forall>p. p \<noteq> t \<longrightarrow> node_at s' p = node_at s p))"
proof (induction d names s arbitrary: s' r rule: mkdir_temp.induct)
  case (2 d n ns s)
  show ?case
  proof (cases "next_fault (faults s)")
    case (Fails e k)
    then show ?thesis using 2(2) by (auto simp: Let_def)
  next
    case Works
    show ?thesis
    proof (cases "node_at s (d @ [''gateway-request-'' @ n]) = None")
      case True
      then show ?thesis using 2(2) Works by (auto simp: Let_def node_at_def set_node_at split: if_splits)
    next
      case False
      then have "mkdir_temp d ns (s\<lparr>faults := tl (faults s)\<rparr>) = (s', r)" using 2(2) Works by (simp add: Let_def)
      from 2(1) [OF HOL.refl HOL.refl Works False this] show ?thesis by (simp split: sum.splits prod.splits)
    qed
  qed
qed auto

lemma createRequestDirectory_frame:
  assumes "createRequestDirectory d names s = (s', r)" and "rm_faults s = []"
  shows "rm_faults s' = [] \<and> (case r of
       Inl e \<Rightarrow> \<forall>p. node_at s' p = node_at s p \<or> (request_path d p \<and> node_at s' p = None)
     | Inr (t, names') \<Rightarrow> (\<exists>n. t = d @ [''gateway-request-'' @ n]) \<and> (\<forall>p. \<not> below t p \<longrightarrow> node_at s' p = node_at s p))"
proof -
  obtain s1 r1 where 1: "mkdir_temp d names s = (s1, r1)" by fastforce
  note f = mkdir_temp_frame [OF 1]
  show ?thesis
  proof (cases r1)
    case (Inl e)
    then show ?thesis using assms 1 f by (auto simp: createRequestDirectory_def and_then_def)
  next
    case (Inr x)
    obtain t names1 where x: "x = (t, names1)" by fastforce
    obtain n where t: "t = d @ [''gateway-request-'' @ n]" and n1: "p \<noteq> t \<Longrightarrow> node_at s1 p = node_at s p" for p
      using f Inr x by auto
    obtain s2 c where 2: "chmod s1 = (s2, c)" by fastforce
    have s2: "rm_faults s2 = []" "node_at s2 p = node_at s1 p" for p using 2 f assms(2) by (auto simp: chmod_def)
    have t': "\<not> below t p \<Longrightarrow> node_at s2 p = node_at s p" for p using n1 s2 by (metis below_refl)
    show ?thesis
    proof (cases c)
      case (Inl e)
      obtain s3 where 3: "remove_all t s2 = (s3, Inr ())" "rm_faults s3 = []" using remove_all_works [OF s2(1)] by blast
      have "node_at s3 p = node_at s p \<or> (request_path d p \<and> node_at s3 p = None)" for p
        using remove_all_frame [OF 3(1)] remove_all_gone [OF 3(1)] t' t unfolding request_path_def by metis
      then show ?thesis using assms 1 2 3 Inl Inr x by (auto simp: createRequestDirectory_def and_then_def)
    next
      case (Inr u)
      then show ?thesis using assms 1 2 \<open>r1 = Inr x\<close> x s2(1) t t'
        by (auto simp: createRequestDirectory_def and_then_def)
    qed
  qed
qed

lemma request_directory_frame:
  assumes "request_directory settings s = (s', r)" and "rm_faults (os_of s) = []"
  shows "frame_to (work_dir settings) s s' \<and> (\<forall>t. r = Inr t \<longrightarrow> t \<in> set (wk_temporary s') \<and>
    (\<exists>n. t = work_dir settings @ [''gateway-request-'' @ n]))"
proof -
  obtain o1 r1 where 1: "createRequestDirectory (work_dir settings) (wk_names s) (os_of s) = (o1, r1)" by fastforce
  note f = createRequestDirectory_frame [OF 1 assms(2)]
  show ?thesis
  proof (cases r1)
    case (Inl e)
    then show ?thesis using f assms(1) 1
      by (auto simp: request_directory_def on_os_def work_dir_def os_of_def frame_to_def)
  next
    case (Inr x)
    then show ?thesis using f assms(1) 1
      by (auto simp: request_directory_def on_os_def work_dir_def os_of_def frame_to_def split: prod.splits)
  qed
qed

lemma tidy_in_request_directory:
  assumes "\<And>n. tidy (work_dir settings) {work_dir settings @ [''gateway-request-'' @ n]}
      (k (work_dir settings @ [''gateway-request-'' @ n]))"
  shows "tidy (work_dir settings) T (and_then (request_directory settings) k)"
proof (rule tidyI)
  fix s s' r assume run: "and_then (request_directory settings) k s = (s', r)" and rm: "rm_faults (os_of s) = []"
  obtain s1 r1 where 1: "request_directory settings s = (s1, r1)" by fastforce
  note f = request_directory_frame [OF 1 rm]
  show "frame_to (work_dir settings) s s'"
  proof (cases r1)
    case (Inl e)
    then show ?thesis using run 1 f by (simp add: and_then_def)
  next
    case (Inr t)
    then obtain n where t: "t \<in> set (wk_temporary s1)" "t = work_dir settings @ [''gateway-request-'' @ n]" using f by blast
    have k: "k t s1 = (s', r)" using run 1 Inr by (simp add: and_then_def)
    have "frame_to (work_dir settings) s1 s'"
      by (rule tidyD [OF assms [of n] k [unfolded t(2)]]) (use f t in \<open>auto simp: frame_to_def\<close>)
    then show ?thesis using frame_trans f by blast
  qed
qed

section \<open>A document\<close>

lemma tidy_then_check:
  assumes "tidy d T (on_os m)"
  shows "tidy d T (then_check f m)"
proof (rule tidyI)
  fix s s' r assume run: "then_check f m s = (s', r)" and s: "rm_faults (os_of s) = []" "T \<subseteq> set (wk_temporary s)"
  obtain s1 r1 where 1: "on_os m s = (s1, r1)" by fastforce
  obtain s2 r2 where 2: "check_ctx s1 = (s2, r2)" by fastforce
  note f = tidyD [OF assms 1 s]
  have "s' = s2" using run 1 2 by (cases r2) (simp_all add: then_check_def)
  then show "frame_to d s s'"
    using frame_trans [OF f tidyD [OF tidy_check 2 frame_rm [OF f], of "{}"]] by simp
qed

lemma tidy_convert:
  assumes "document_converter (Convert c)"
  shows "tidy d {d @ [n]} (on_os (Convert c source ((d @ [n]) @ [''derived'']) options))"
proof (rule tidy_inside)
  show "keeps_rm (Convert c source ((d @ [n]) @ [''derived'']) options)"
    by (rule document_converter.convert_keeps [OF assms])
  fix s s' r p assume run: "Convert c source ((d @ [n]) @ [''derived'']) options s = (s', r)"
    and p: "\<not> below (d @ [n]) p" "\<not> below p d"
  have "\<not> touched ((d @ [n]) @ [''derived'']) p" using touched_derived [of d n "''derived''" p] p by auto
  then show "node_at s' p = node_at s p" by (rule document_converter.leaves_rest [OF assms run untouched_spared])
qed

lemma tidy_write_source: "tidy d {t} (on_os (write_file (t @ [x]) c))"
proof (rule tidy_inside)
  show "keeps_rm (write_file (t @ [x]) c)" using rm_faults_same(2) by (metis keeps_rmI)
  fix s s' r p assume w: "write_file (t @ [x]) c s = (s', r)" and "\<not> below t p"
  then have "p \<noteq> t @ [x]" by auto
  then show "node_at s' p = node_at s p" by (rule write_file_frame [OF w])
qed

lemma tidy_inline_conversion:
  assumes "renderer_ok E"
  shows "tidy d {d @ [n]} (case ResolveConverter E (NewDispatcher E (NewInTreeRegistry E) config) name of
      Inl e \<Rightarrow> fails e
    | Inr c \<Rightarrow>
        and_then check_ctx (\<lambda>_.
        and_then (then_check f (Validate c source)) (\<lambda>_.
        and_then (then_check g (Convert c source ((d @ [n]) @ [''derived'']) options)) (\<lambda>result. returns (h result)))))"
proof (cases "ResolveConverter E (NewDispatcher E (NewInTreeRegistry E) config) name")
  case (Inl e)
  then show ?thesis by (simp add: tidy_pure)
next
  case (Inr c)
  note validate = tidy_then_check [OF tidy_quiet [OF resolved_validate_quiet [OF Inr]]]
  note conversion = tidy_then_check [OF tidy_convert [OF resolve_contract [OF assms Inr]]]
  show ?thesis unfolding Inr sum.case by (intro tidy_and_then tidy_check validate conversion tidy_pure)
qed

lemma tidy_if: "tidy d T m \<Longrightarrow> tidy d T m' \<Longrightarrow> tidy d T (if b then m else m')"
  by simp

lemma tidy_convert_inline:
  assumes "renderer_ok E"
  shows "tidy (work_dir settings) T (convert_inline E settings (NewDispatcher E (NewInTreeRegistry E) config) param x)"
proof -
  obtain content filename where x: "x = (content, filename)" by fastforce
  show ?thesis unfolding x convert_inline_def prod.case Let_def
    by (rule tidy_and_then [OF tidy_check], rule tidy_if [OF tidy_pure(2)], rule tidy_in_request_directory,
      rule tidy_and_then [OF tidy_write_source tidy_inline_conversion [OF assms]])
qed

lemma tidy_prepareDocument:
  assumes "renderer_ok E"
  shows "tidy (work_dir settings) T (prepareDocument E settings (NewDispatcher E (NewInTreeRegistry E) config) W reference tenant param)"
proof -
  have inline: "tidy d T (inline_content W settings reference param)" for d
    unfolding inline_content_def Let_def
    by (intro tidy_if tidy_pure tidy_and_then tidy_on_net) (auto intro: tidy_pure split: option.split prod.split)
  have returned: "tidy d T (case x of (f, manifest, h) \<Rightarrow> returns (k f manifest h))"
    for d x and k :: "File \<Rightarrow> Manifest \<Rightarrow> nat \<Rightarrow> resolvedDocument"
    by (simp add: tidy_pure split: prod.split)
  show ?thesis unfolding prepareDocument_def Let_def
    by (intro tidy_and_then tidy_check tidy_if tidy_pure inline tidy_resolve_file returned tidy_convert_inline [OF assms])
qed

lemma quiet_returns: "quiet (returns x)" and quiet_fails: "quiet (fails e)"
  by (simp_all add: quiet_def returns_def fails_def)

lemma quiet_text_part: "quiet (read_text_part E kind filename dir artifact)"
  by (cases "TextPath artifact = []") (simp_all add: read_text_part_def quiet_and_then quiet_read quiet_returns)

lemma quiet_read_parts: "quiet (read_parts E settings kind filename dir images artifacts)"
proof (induction E settings kind filename dir images artifacts rule: read_parts.induct)
  case (1 E settings kind filename dir images)
  show ?case by (simp add: quiet_returns)
next
  case (2 E settings kind filename dir images artifact artifacts)
  show ?case
  proof (cases "ImagePath artifact")
    case None
    note IH = 2(1) [OF None]
    show ?thesis unfolding read_parts.simps None option.case by (intro quiet_and_then quiet_text_part quiet_returns IH)
  next
    case (Some image_path)
    show ?thesis
    proof (cases "MaxDocumentPages settings > 0 \<and> images \<ge> MaxDocumentPages settings")
      case True
      note IH = 2(2) [OF Some True]
      show ?thesis unfolding read_parts.simps Some option.case if_P [OF True]
        by (intro quiet_and_then quiet_text_part quiet_returns IH)
    next
      case False
      note IH = 2(3) [OF Some False]
      show ?thesis unfolding read_parts.simps Some option.case if_not_P [OF False]
        by (intro quiet_and_then quiet_text_part quiet_returns quiet_read IH)
    qed
  qed
qed

lemma quiet_documentParts: "quiet (documentParts E settings kind doc)"
  by (cases "Documents (doc_manifest doc)") (simp_all add: documentParts_def quiet_fails quiet_read_parts)

lemma release_document_same [simp]:
  "wk_temporary (release_document doc s) = wk_temporary s" "os_of (release_document doc s) = os_of s"
  "svc_rows (wk_svc (release_document doc s)) = svc_rows (wk_svc s)"
  by (simp_all add: release_document_def os_of_def split: option.splits prod.splits)

lemma tidy_expand_document: "tidy d T (expand_document E settings endpoint param doc)"
proof (rule tidyI)
  fix s s' r assume run: "expand_document E settings endpoint param doc s = (s', r)" and rm: "rm_faults (os_of s) = []"
  obtain s1 r1 where 1: "on_os (documentParts E settings endpoint doc) s = (s1, r1)" by fastforce
  have s': "s' = release_document doc s1" using run 1 by (simp add: expand_document_def)
  show "frame_to d s s'"
    by (rule frame_same [OF rm]) (simp_all add: s' quiet_same [OF quiet_documentParts 1])
qed

lemma tidy_expand_part:
  assumes "renderer_ok E"
  shows "tidy (work_dir settings) T (expand_part E settings (NewDispatcher E (NewInTreeRegistry E) config) W endpoint tenant param part)"
  unfolding expand_part_def
  by (intro tidy_if tidy_pure) (auto intro: tidy_pure tidy_and_then tidy_prepareDocument [OF assms] tidy_expand_document split: sum.split)

lemma tidy_expand_parts: "(\<And>j part. tidy d T (expand j part)) \<Longrightarrow> tidy d T (expand_parts endpoint expand j parts)"
proof (induction parts arbitrary: j)
  case (Cons part parts)
  show ?case unfolding expand_parts.simps
    by (intro tidy_and_then Cons.prems Cons.IH [OF Cons.prems]) (simp add: tidy_pure split: prod.split)
qed (simp add: tidy_pure)

lemma tidy_expand_items: "(\<And>i j part. tidy d T (expand i j part)) \<Longrightarrow> tidy d T (expand_items endpoint expand i messages)"
proof (induction messages arbitrary: i)
  case (Cons item messages)
  have parts: "tidy d T (and_then (expand_parts endpoint (expand i) 0 parts) (\<lambda>(parts', seen). returns (f parts' seen)))"
    for parts and f :: "json list \<Rightarrow> bool \<Rightarrow> json \<times> bool"
    by (intro tidy_and_then tidy_expand_parts Cons.prems) (simp add: tidy_pure split: prod.split)
  have one: "tidy d T (case (item, content_parts item) of
         (JObj kvs, Some parts) \<Rightarrow> and_then (expand_parts endpoint (expand i) 0 parts)
           (\<lambda>(parts', seen). returns (JObj (set_field ''content'' (JArr parts') (typed_item endpoint kvs)), seen))
       | _ \<Rightarrow> returns (item, False))"
    by (cases item; cases "content_parts item") (simp_all add: tidy_pure parts)
  have rest: "tidy d T (case x of (item', seen) \<Rightarrow> and_then (expand_items endpoint expand (i + 1) messages)
      (\<lambda>(rest', seen'). returns (item' # rest', seen \<or> seen')))" for x
    by (cases x) (simp, intro tidy_and_then Cons.IH [OF Cons.prems], simp add: tidy_pure split: prod.split)
  show ?case unfolding expand_items.simps by (rule tidy_and_then [OF one rest])
qed (simp add: tidy_pure)

lemma tidy_expand_payload:
  assumes "renderer_ok E"
  shows "tidy (work_dir settings) T (expand_payload E settings (NewDispatcher E (NewInTreeRegistry E) config) W endpoint tenant payload)"
proof -
  have items: "tidy (work_dir settings) T (and_then (expand_items endpoint (\<lambda>i j part. expand_part E settings
      (NewDispatcher E (NewInTreeRegistry E) config) W endpoint tenant (part_param endpoint i j) part) 0 messages)
      (\<lambda>(messages', expandedFile). returns (f messages' expandedFile)))"
    for messages and f :: "json list \<Rightarrow> bool \<Rightarrow> (string \<times> json) list \<times> bool"
    by (intro tidy_and_then tidy_expand_items tidy_expand_part [OF assms]) (simp add: tidy_pure split: prod.split)
  show ?thesis
    by (cases "as_array (field payload (items_key endpoint))") (simp_all add: expand_payload_def tidy_pure items)
qed

section \<open>Leases\<close>

text \<open>Every lease that is taken on the way from \<open>s\<close> to \<open>s'\<close> is given back; no row changes.\<close>

definition rows_of :: "work \<Rightarrow> table" where
  "rows_of s = svc_rows (wk_svc s)"

definition same_leases :: "work \<Rightarrow> work \<Rightarrow> bool" where
  "same_leases s s' \<longleftrightarrow> rows_of s' = rows_of s \<and> (lease_ok (regs_of s) \<longrightarrow> lease_ok (regs_of s') \<and> lease_count (regs_of s') = lease_count (regs_of s))"

definition balanced :: "(work \<Rightarrow> work \<times> 'a result) \<Rightarrow> bool" where
  "balanced m \<longleftrightarrow> (\<forall>s s' r. m s = (s', r) \<longrightarrow> same_leases s s')"

lemma balancedI: "(\<And>s s' r. m s = (s', r) \<Longrightarrow> same_leases s s') \<Longrightarrow> balanced m"
  unfolding balanced_def by blast

lemma balancedD: "balanced m \<Longrightarrow> m s = (s', r) \<Longrightarrow> same_leases s s'"
  unfolding balanced_def by blast

lemma same_leases_trans: "same_leases s s' \<Longrightarrow> same_leases s' s'' \<Longrightarrow> same_leases s s''"
  by (simp add: same_leases_def)

lemma same_leases_same: "regs_of s' = regs_of s \<and> rows_of s' = rows_of s \<Longrightarrow> same_leases s s'"
  by (simp add: same_leases_def)

lemma balanced_and_then:
  assumes "balanced m" and "\<And>x. balanced (k x)"
  shows "balanced (and_then m k)"
proof (rule balancedI)
  fix s s' r assume run: "and_then m k s = (s', r)"
  obtain s1 r1 where 1: "m s = (s1, r1)" by fastforce
  note b = balancedD [OF assms(1) 1]
  show "same_leases s s'"
  proof (cases r1)
    case (Inl e)
    then show ?thesis using run 1 b by (simp add: and_then_def)
  next
    case (Inr x)
    then have "k x s1 = (s', r)" using run 1 by (simp add: and_then_def)
    then show ?thesis by (rule same_leases_trans [OF b balancedD [OF assms(2)]])
  qed
qed

lemma balanced_pure: "balanced (returns x)" "balanced (fails e)"
  by (auto intro!: balancedI same_leases_same simp: returns_def fails_def)

lemma on_os_regs: "on_os m s = (s', r) \<Longrightarrow> regs_of s' = regs_of s \<and> rows_of s' = rows_of s"
  by (auto simp: on_os_def regs_of_def rows_of_def split: prod.splits)

lemma balanced_on_os: "balanced (on_os m)"
  by (auto intro!: balancedI same_leases_same dest: on_os_regs)

lemma check_ctx_regs: "check_ctx s = (s', r) \<Longrightarrow> regs_of s' = regs_of s \<and> rows_of s' = rows_of s"
  unfolding check_ctx_def by (rule on_os_regs)

lemma then_check_regs: "then_check f m s = (s', r) \<Longrightarrow> regs_of s' = regs_of s \<and> rows_of s' = rows_of s"
  unfolding then_check_def
  by (auto dest!: on_os_regs check_ctx_regs split: prod.splits sum.splits)

lemma balanced_steps: "balanced check_ctx" "balanced (then_check f m)" "balanced (on_net n)" "balanced (request_directory settings)"
proof -
  show "balanced check_ctx" unfolding check_ctx_def by (rule balanced_on_os)
  show "balanced (then_check f m)" by (auto intro!: balancedI same_leases_same dest: then_check_regs)
  show "balanced (on_net n)" by (auto intro!: balancedI same_leases_same simp: on_net_def regs_of_def rows_of_def split: prod.splits)
  show "balanced (request_directory settings)"
    by (rule balancedI, rule same_leases_same)
      (auto simp: request_directory_def on_os_def regs_of_def rows_of_def split: prod.splits sum.splits)
qed

text \<open>A document whose release function would give back all that its preparation took.\<close>

definition bracketed :: "(work \<Rightarrow> work \<times> resolvedDocument result) \<Rightarrow> bool" where
  "bracketed m \<longleftrightarrow> (\<forall>s s' r. m s = (s', r) \<longrightarrow>
     same_leases s (case r of Inl e \<Rightarrow> s' | Inr doc \<Rightarrow> release_document doc s'))"

lemma bracketedI: "(\<And>s s' r. m s = (s', r) \<Longrightarrow> same_leases s (case r of Inl e \<Rightarrow> s' | Inr doc \<Rightarrow> release_document doc s')) \<Longrightarrow> bracketed m"
  unfolding bracketed_def by blast

lemma bracketedD: "bracketed m \<Longrightarrow> m s = (s', r) \<Longrightarrow> same_leases s (case r of Inl e \<Rightarrow> s' | Inr doc \<Rightarrow> release_document doc s')"
  unfolding bracketed_def by blast

lemma bracketed_and_then:
  assumes "balanced m" and "\<And>x. bracketed (k x)"
  shows "bracketed (and_then m k)"
proof (rule bracketedI)
  fix s s' r assume run: "and_then m k s = (s', r)"
  obtain s1 r1 where 1: "m s = (s1, r1)" by fastforce
  note b = balancedD [OF assms(1) 1]
  show "same_leases s (case r of Inl e \<Rightarrow> s' | Inr doc \<Rightarrow> release_document doc s')"
  proof (cases r1)
    case (Inl e)
    then show ?thesis using run 1 b by (auto simp: and_then_def)
  next
    case (Inr x)
    then have "k x s1 = (s', r)" using run 1 by (simp add: and_then_def)
    then show ?thesis by (rule same_leases_trans [OF b bracketedD [OF assms(2)]])
  qed
qed

lemma bracketed_pure: "bracketed (fails e)" "doc_release doc = None \<Longrightarrow> bracketed (returns doc)"
  by (rule bracketedI, auto simp: fails_def returns_def release_document_def same_leases_def)+

lemma bracketed_if: "bracketed m \<Longrightarrow> bracketed m' \<Longrightarrow> bracketed (if b then m else m')"
  by simp

lemma bracketed_resolved: "bracketed (case r of Inl e \<Rightarrow> fails e | Inr c \<Rightarrow> k c)" if "\<And>c. bracketed (k c)"
  by (simp add: bracketed_pure(1) that split: sum.split)

lemma bracketed_convert_inline: "bracketed (convert_inline E settings dispatcher param x)"
proof -
  obtain content filename where x: "x = (content, filename)" by fastforce
  show ?thesis unfolding x convert_inline_def prod.case Let_def
    by (intro bracketed_and_then balanced_steps balanced_on_os bracketed_if bracketed_pure bracketed_resolved) simp
qed

lemma bracketed_resolve_file:
  "bracketed (and_then (resolve_file E settings i tenant param) (\<lambda>(f, manifest, h).
     returns \<lparr>doc_filename = n f, doc_derivedDir = d f, doc_manifest = manifest, doc_release = Some (i, h)\<rparr>))"
proof (rule bracketedI)
  fix s s' r
  let ?doc = "\<lambda>f manifest h. \<lparr>doc_filename = n f, doc_derivedDir = d f, doc_manifest = manifest, doc_release = Some (i, h)\<rparr>"
  assume run: "and_then (resolve_file E settings i tenant param) (\<lambda>(f, manifest, h). returns (?doc f manifest h)) s = (s', r)"
  let ?polls = "case wk_polls s of [] \<Rightarrow> [] | p # _ \<Rightarrow> p"
  obtain v r' where 1: "Resolve E settings ?polls i tenant param (wk_svc s) = (v, r')" by fastforce
  then have 2: "resolve_file E settings i tenant param s = (s\<lparr>wk_svc := v, wk_polls := tl (wk_polls s)\<rparr>,
      case r' of None \<Rightarrow> Inl Canceled | Some r \<Rightarrow> r)"
    by (simp add: resolve_file_def Let_def)
  show "same_leases s (case r of Inl e \<Rightarrow> s' | Inr doc \<Rightarrow> release_document doc s')"
    unfolding same_leases_def
  proof (intro conjI impI)
    show "rows_of (case r of Inl e \<Rightarrow> s' | Inr doc \<Rightarrow> release_document doc s') = rows_of s"
      using run 2 Resolve_frame(1) [OF 1]
      by (auto simp: and_then_def returns_def rows_of_def split: sum.splits prod.splits)
  next
    assume "lease_ok (regs_of s)"
    then have ok: "lease_ok (svc_regs (wk_svc s))" by (simp add: regs_of_def)
    note b = Resolve_balance [OF ok 1]
    have "lease_ok (regs_of (case r of Inl e \<Rightarrow> s' | Inr doc \<Rightarrow> release_document doc s')) \<and>
      lease_count (regs_of (case r of Inl e \<Rightarrow> s' | Inr doc \<Rightarrow> release_document doc s')) = lease_count (regs_of s)"
    proof (cases "\<exists>f m h. r' = Some (Inr (f, m, h))")
      case True
      then obtain f m h where r': "r' = Some (Inr (f, m, h))" by blast
      have l: "lease_ok (svc_regs v)" "lease_held (svc_regs v) i h"
        "lease_count (svc_regs v) = (lease_count (svc_regs (wk_svc s)))(i := lease_count (svc_regs (wk_svc s)) i + 1)"
        using b r' by simp_all
      have "r = Inr (?doc f m h)" "s' = s\<lparr>wk_svc := v, wk_polls := tl (wk_polls s)\<rparr>"
        using run 2 r' by (simp_all add: and_then_def returns_def)
      then show ?thesis using release_lease [OF l(1,2)] l(3) by (simp add: release_document_def regs_of_def)
    next
      case False
      then obtain e where "r = Inl e" "s' = s\<lparr>wk_svc := v, wk_polls := tl (wk_polls s)\<rparr>"
        using run 2 by (cases r') (auto simp: and_then_def split: sum.splits)
      then show ?thesis using b False by (auto simp: regs_of_def split: option.splits sum.splits)
    qed
    then show "lease_ok (regs_of (case r of Inl e \<Rightarrow> s' | Inr doc \<Rightarrow> release_document doc s'))"
      "lease_count (regs_of (case r of Inl e \<Rightarrow> s' | Inr doc \<Rightarrow> release_document doc s')) = lease_count (regs_of s)"
      by simp_all
  qed
qed

lemma bracketed_prepareDocument: "bracketed (prepareDocument E settings dispatcher W reference tenant param)"
proof -
  have "balanced (inline_content W settings reference param)"
    unfolding inline_content_def Let_def
    by (auto intro: balanced_and_then balanced_steps balanced_pure split: option.split prod.split)
  then show ?thesis unfolding prepareDocument_def Let_def
    by (intro bracketed_and_then balanced_steps bracketed_if bracketed_pure bracketed_resolve_file bracketed_convert_inline)
qed

lemma balanced_expand_part: "balanced (expand_part E settings dispatcher W endpoint tenant param part)"
proof -
  have "balanced (and_then (prepareDocument E settings dispatcher W reference tenant param)
      (expand_document E settings endpoint param))" for reference
  proof (rule balancedI)
    fix s s' r assume run: "and_then (prepareDocument E settings dispatcher W reference tenant param)
      (expand_document E settings endpoint param) s = (s', r)"
    obtain s1 r1 where 1: "prepareDocument E settings dispatcher W reference tenant param s = (s1, r1)" by fastforce
    note b = bracketedD [OF bracketed_prepareDocument 1]
    show "same_leases s s'"
    proof (cases r1)
      case (Inl e)
      then show ?thesis using run 1 b by (simp add: and_then_def)
    next
      case (Inr doc)
      obtain s2 r2 where 2: "on_os (documentParts E settings endpoint doc) s1 = (s2, r2)" by fastforce
      have "s' = release_document doc s2" using run 1 2 Inr by (simp add: and_then_def expand_document_def)
      moreover have "regs_of (release_document doc s2) = regs_of (release_document doc s1)"
        "rows_of (release_document doc s2) = rows_of (release_document doc s1)"
        using on_os_regs [OF 2] by (simp_all add: release_document_def regs_of_def rows_of_def split: option.split prod.split)
      ultimately show ?thesis using b Inr by (simp add: same_leases_def)
    qed
  qed
  then show ?thesis unfolding expand_part_def by (auto intro: balanced_pure split: sum.split)
qed

lemma balanced_expand_parts: "(\<And>j part. balanced (expand j part)) \<Longrightarrow> balanced (expand_parts endpoint expand j parts)"
proof (induction parts arbitrary: j)
  case (Cons part parts)
  show ?case unfolding expand_parts.simps
    by (intro balanced_and_then Cons.prems Cons.IH [OF Cons.prems]) (simp add: balanced_pure split: prod.split)
qed (simp add: balanced_pure)

lemma balanced_expand_items: "(\<And>i j part. balanced (expand i j part)) \<Longrightarrow> balanced (expand_items endpoint expand i messages)"
proof (induction messages arbitrary: i)
  case (Cons item messages)
  have parts: "balanced (and_then (expand_parts endpoint (expand i) 0 parts) (\<lambda>(parts', seen). returns (f parts' seen)))"
    for parts and f :: "json list \<Rightarrow> bool \<Rightarrow> json \<times> bool"
    by (intro balanced_and_then balanced_expand_parts Cons.prems) (simp add: balanced_pure split: prod.split)
  have one: "balanced (case (item, content_parts item) of
         (JObj kvs, Some parts) \<Rightarrow> and_then (expand_parts endpoint (expand i) 0 parts)
           (\<lambda>(parts', seen). returns (JObj (set_field ''content'' (JArr parts') (typed_item endpoint kvs)), seen))
       | _ \<Rightarrow> returns (item, False))"
    by (cases item; cases "content_parts item") (simp_all add: balanced_pure parts)
  have rest: "balanced (case x of (item', seen) \<Rightarrow> and_then (expand_items endpoint expand (i + 1) messages)
      (\<lambda>(rest', seen'). returns (item' # rest', seen \<or> seen')))" for x
    by (cases x) (simp, intro balanced_and_then Cons.IH [OF Cons.prems], simp add: balanced_pure split: prod.split)
  show ?case unfolding expand_items.simps by (rule balanced_and_then [OF one rest])
qed (simp add: balanced_pure)

lemma balanced_expand_payload: "balanced (expand_payload E settings dispatcher W endpoint tenant payload)"
proof -
  have items: "balanced (and_then (expand_items endpoint (\<lambda>i j part. expand_part E settings
      dispatcher W endpoint tenant (part_param endpoint i j) part) 0 messages)
      (\<lambda>(messages', expandedFile). returns (f messages' expandedFile)))"
    for messages and f :: "json list \<Rightarrow> bool \<Rightarrow> (string \<times> json) list \<times> bool"
    by (intro balanced_and_then balanced_expand_items balanced_expand_part) (simp add: balanced_pure split: prod.split)
  show ?thesis
    by (cases "as_array (field payload (items_key endpoint))") (simp_all add: expand_payload_def balanced_pure items)
qed

section \<open>The request\<close>

lemma remove_directories_clean:
  "rm_faults s = [] \<Longrightarrow> rm_faults (remove_directories ts s) = [] \<and>
     node_at (remove_directories ts s) p = (if \<exists>t \<in> set ts. below t p then None else node_at s p)"
proof (induction ts arbitrary: s)
  case (Cons t ts)
  obtain s1 where 1: "remove_all t s = (s1, Inr ())" "rm_faults s1 = []" using remove_all_works [OF Cons.prems] by blast
  have "node_at s1 p = (if below t p then None else node_at s p)"
    using remove_all_gone [OF 1(1)] remove_all_frame [OF 1(1)] by simp
  then show ?case using Cons.IH [OF 1(2)] 1(1) by simp
qed simp

definition clean :: "path \<Rightarrow> work \<Rightarrow> work \<Rightarrow> bool" where
  "clean d s s' \<longleftrightarrow> wk_temporary s' = [] \<and> svc_rows (wk_svc s') = svc_rows (wk_svc s) \<and>
     (\<forall>p. \<not> below p d \<longrightarrow> node_at (os_of s') p = node_at (os_of s) p \<or> request_path d p \<and> node_at (os_of s') p = None)"

lemma clean_cleanup:
  assumes "frame_to d s s'" and "wk_temporary s = []"
  shows "clean d s (cleanup s')"
proof -
  have rm: "rm_faults (svc_os (wk_svc s')) = []" using assms(1) by (simp add: frame_to_def os_of_def)
  have ts: "\<forall>t \<in> set (wk_temporary s'). \<exists>n. t = d @ [''gateway-request-'' @ n]"
    using assms unfolding frame_to_def by auto
  have "node_at (os_of (cleanup s')) p = node_at (os_of s) p \<or> request_path d p \<and> node_at (os_of (cleanup s')) p = None"
    if p: "\<not> below p d" for p
  proof (cases "\<exists>t \<in> set (wk_temporary s'). below t p")
    case True
    then obtain t n where "below t p" "t = d @ [''gateway-request-'' @ n]" using ts by meson
    then have "request_path d p" unfolding request_path_def by (intro exI [of _ n]) simp
    moreover have "node_at (os_of (cleanup s')) p = None"
      using remove_directories_clean [OF rm, of "wk_temporary s'" p] True by (simp add: cleanup_def os_of_def)
    ultimately show ?thesis by blast
  next
    case False
    then have "node_at (os_of (cleanup s')) p = node_at (os_of s') p"
      using remove_directories_clean [OF rm, of "wk_temporary s'" p] by (simp add: cleanup_def os_of_def)
    moreover have "node_at (os_of s') p = node_at (os_of s) p \<or> (\<exists>t \<in> set (wk_temporary s'). below t p) \<or>
        (request_path d p \<and> node_at (os_of s') p = None)" using assms(1) p unfolding frame_to_def by blast
    ultimately show ?thesis using False by metis
  qed
  then show ?thesis using assms(1) by (simp add: clean_def cleanup_def frame_to_def)
qed

lemma clean_frame: "frame_to d s s' \<Longrightarrow> wk_temporary s' = [] \<Longrightarrow> clean d s s'"
  by (auto simp: clean_def frame_to_def)

lemma poll_frame:
  assumes "ctx_Err (svc_os (wk_svc s)) = (o1, e)" and "rm_faults (os_of s) = []"
  shows "frame_to d s (s\<lparr>wk_svc := (wk_svc s)\<lparr>svc_os := o1\<rparr>\<rparr>)"
  using ctx_Err_frame [OF assms(1)] assms(2) by (intro frame_same) (simp_all add: os_of_def)

lemma check_ctx_frame: "check_ctx s = (s', r) \<Longrightarrow> rm_faults (os_of s) = [] \<Longrightarrow> frame_to d s s' \<and> wk_temporary s' = wk_temporary s"
  using tidyD [OF tidy_check, of s s' r "{}"] quiet_same(1) [OF quiet_poll] unfolding check_ctx_def by simp

text \<open>What holds between the start and the end of a request.\<close>

definition undone :: "path \<Rightarrow> work \<Rightarrow> work \<Rightarrow> bool" where
  "undone d s s' \<longleftrightarrow> clean d s s' \<and> same_leases s s'"

lemma undone_check:
  "check_ctx s = (s', r) \<Longrightarrow> rm_faults (os_of s) = [] \<Longrightarrow> wk_temporary s = [] \<Longrightarrow> undone d s s'"
  unfolding undone_def using clean_frame check_ctx_frame same_leases_same check_ctx_regs by metis

lemma undone_same: "wk_temporary s = [] \<Longrightarrow> undone d s s"
  by (simp add: undone_def clean_def same_leases_def)

lemma undone_body_failure:
  assumes "body_failure e s = (s', fw)" and "rm_faults (os_of s) = []" and "wk_temporary s = []"
  shows "undone d s s'"
proof -
  obtain o1 ctx where 1: "ctx_Err (svc_os (wk_svc s)) = (o1, ctx)" by fastforce
  obtain s1 r where 2: "check_ctx s = (s1, r)" by fastforce
  have "undone d s (s\<lparr>wk_svc := (wk_svc s)\<lparr>svc_os := o1\<rparr>\<rparr>)"
    using clean_frame [OF poll_frame [OF 1 assms(2)]] assms(3) by (simp add: undone_def same_leases_def regs_of_def rows_of_def)
  then show ?thesis using assms 1 2 undone_check [OF 2 assms(2,3)] undone_same [OF assms(3)]
    by (auto simp: body_failure_def split: if_splits sum.splits)
qed

lemma undone_forwardOriginal:
  assumes "forwardOriginal E L settings endpoint request body stream s = (s', fw)"
    and "rm_faults (os_of s) = []" and "wk_temporary s = []"
  shows "undone d s s'"
proof -
  obtain s1 r where 1: "check_ctx s = (s1, r)" by fastforce
  then show ?thesis using assms undone_check [OF 1 assms(2,3)] by (cases r) (auto simp: forwardOriginal_def)
qed

lemma undone_expanded:
  assumes "renderer_ok E" and "rm_faults (os_of s) = []" and "wk_temporary s = []"
    and run: "forward_expanded E L settings (NewDispatcher E (NewInTreeRegistry E) config) W endpoint request tenant payload s = (s', fw)"
  shows "undone (work_dir settings) s (cleanup s')"
proof -
  obtain s1 r where 1: "expand_payload E settings (NewDispatcher E (NewInTreeRegistry E) config) W endpoint tenant payload s = (s1, r)"
    by fastforce
  obtain s2 c where 2: "check_ctx s1 = (s2, c)" by fastforce
  obtain o1 ctx where 3: "ctx_Err (svc_os (wk_svc s2)) = (o1, ctx)" by fastforce
  let ?s3 = "s2\<lparr>wk_svc := (wk_svc s2)\<lparr>svc_os := o1\<rparr>\<rparr>"
  have f1: "frame_to (work_dir settings) s s1" by (rule tidyD [OF tidy_expand_payload [OF assms(1)] 1 assms(2), of "{}"]) simp
  have f2: "frame_to (work_dir settings) s s2" using frame_trans [OF f1] check_ctx_frame [OF 2 frame_rm [OF f1]] by blast
  have f3: "frame_to (work_dir settings) s ?s3" by (rule frame_trans [OF f2 poll_frame [OF 3 frame_rm [OF f2]]])
  have "same_leases s s1" by (rule balancedD [OF balanced_expand_payload 1])
  then have l: "same_leases s s2" "same_leases s ?s3" using check_ctx_regs [OF 2] by (simp_all add: same_leases_def regs_of_def rows_of_def)
  have "s' = s2 \<or> s' = ?s3" using run 1 2 3
    by (cases c; cases r) (auto simp: forward_expanded_def split: prod.splits)
  moreover have "regs_of (cleanup s') = regs_of s'" "rows_of (cleanup s') = rows_of s'"
    by (simp_all add: cleanup_def regs_of_def rows_of_def)
  ultimately show ?thesis using clean_cleanup [OF f2 assms(3)] clean_cleanup [OF f3 assms(3)] l
    by (auto simp: undone_def same_leases_def)
qed

lemma undone_request:
  assumes "renderer_ok E" and "rm_faults (os_of s) = []" and "wk_temporary s = []"
    and run: "handleInference E L settings (NewDispatcher E (NewInTreeRegistry E) config) W endpoint request s = (s', fw)"
  shows "undone (work_dir settings) s s'"
proof -
  note paths = undone_same [OF assms(3)] undone_body_failure [OF _ assms(2,3)] undone_forwardOriginal [OF _ assms(2,3)]
    undone_expanded [OF assms(1,2,3)]
  show ?thesis using run paths
    by (auto simp: handleInference_def split: sum.splits option.splits json.splits if_splits prod.splits)
qed

text \<open>C32. A request leaves nothing behind. However a request to the model ends (a bad key, a body that is
  too large, an unusable file reference, a failing download, conversion or read, a client that goes
  away at any poll of the context, or the answer of the model server), when removals work: no request
  directory is left, every lease that was taken on an uploaded file has been given back, no row of the
  store is changed, and outside the ancestors of the work directory every path is as it was or was
  part of a request directory and is gone.\<close>

theorem inference_leaves_nothing:
  assumes "renderer_ok E" and "lease_ok (svc_regs (wk_svc s))" and "rm_faults (svc_os (wk_svc s)) = []" and "wk_temporary s = []"
    and "handleInference E L settings (NewDispatcher E (NewInTreeRegistry E) config) W endpoint request s = (s', fw)"
  shows "wk_temporary s' = [] \<and> svc_rows (wk_svc s') = svc_rows (wk_svc s)
    \<and> lease_ok (svc_regs (wk_svc s')) \<and> lease_count (svc_regs (wk_svc s')) = lease_count (svc_regs (wk_svc s))
    \<and> (\<forall>p. \<not> below p (work_dir settings) \<longrightarrow> node_at (svc_os (wk_svc s')) p = node_at (svc_os (wk_svc s)) p
        \<or> request_path (work_dir settings) p \<and> node_at (svc_os (wk_svc s')) p = None)"
proof -
  have "undone (work_dir settings) s s'"
    by (rule undone_request [OF assms(1) _ assms(4,5)]) (simp add: os_of_def assms(3))
  then show ?thesis using assms(2) by (simp add: undone_def clean_def same_leases_def os_of_def regs_of_def)
qed

end
