(* ===== verification/Gateway_Correct.thy ===== *)
theory Gateway_Correct
  imports Gateway Inference_Resources
begin

text \<open>
  What holds for every request to the gateway, whatever its route: without the key nothing happens, with
  it only the rows of the client's own tenant change, and nothing under \<open>/v1/files\<close> is forwarded.
\<close>

section \<open>Rows\<close>

definition others :: "string \<Rightarrow> table \<Rightarrow> table" where
  "others tenant rows = filter (\<lambda>f. TenantID f \<noteq> tenant) rows"

lemma affect_others: "others t rows' = others t rows \<Longrightarrow> others t (fst (affect m n flt rows hit rows')) = others t rows"
  by (simp add: affect_def split: db_fault.split)

lemma store_Add_others: "TenantID f = t \<Longrightarrow> others t (fst (store_Add flt rows f)) = others t rows"
  by (simp add: store_Add_def others_def split: db_fault.split)

lemma store_MarkDeleted_others: "others t (fst (store_MarkDeleted flt now rows i t)) = others t rows"
  unfolding store_MarkDeleted_def Let_def
  by (rule affect_others, induction rows) (auto simp: others_def set_deleted_def)

lemma store_Delete_others: "others t (fst (store_Delete flt rows i t)) = others t rows"
  unfolding store_Delete_def Let_def
  by (rule affect_others, induction rows) (auto simp: others_def)

lemma Create_others: "Create E settings dispatcher flt now rnd filename source purpose t ttl v = (v', r) \<Longrightarrow>
    others t (svc_rows v') = others t (svc_rows v)"
proof -
  have a: "others t rows' = others t rows"
    if "store_Add flt rows (new_file E c now i filename purpose t ttl content) = (rows', x)" for c i content rows rows' x
    using store_Add_others [of "new_file E c now i filename purpose t ttl content" t flt rows] that by (simp add: new_file_def)
  assume "Create E settings dispatcher flt now rnd filename source purpose t ttl v = (v', r)"
  then show ?thesis by (auto simp: Create_def Let_def split: sum.splits prod.splits dest: a)
qed

lemma Delete_others: "Delete settings flt1 flt2 flt3 now i t v = (v', r) \<Longrightarrow> others t (svc_rows v') = others t (svc_rows v)"
proof -
  assume run: "Delete settings flt1 flt2 flt3 now i t v = (v', r)"
  obtain rows2 r2 where 2: "store_MarkDeleted flt2 now (svc_rows v) i t = (rows2, r2)" by fastforce
  obtain rows3 r3 where 3: "store_Delete flt3 rows2 i t = (rows3, r3)" by fastforce
  have o: "others t rows2 = others t (svc_rows v)" "others t rows3 = others t (svc_rows v)"
    using store_MarkDeleted_others [of t flt2 now "svc_rows v" i] store_Delete_others [of t flt3 rows2 i] 2 3 by simp_all
  show ?thesis using run 2 3 o
    by (auto simp: Delete_def Let_def split: sum.splits option.splits prod.splits if_splits)
qed

lemma OpenSource_rows: "OpenSource E settings flt now i t v = (v', r) \<Longrightarrow> svc_rows v' = svc_rows v"
  by (auto simp: OpenSource_def Let_def split: sum.splits option.splits prod.splits if_splits)

lemma check_ctx_rows: "check_ctx s = (s', r) \<Longrightarrow> rows_of s' = rows_of s"
  using check_ctx_regs by blast

lemma forward_expanded_rows:
  assumes "forward_expanded E L settings dispatcher W endpoint request tenant payload s = (s', fw)"
  shows "rows_of s' = rows_of s"
proof -
  obtain s1 r where 1: "expand_payload E settings dispatcher W endpoint tenant payload s = (s1, r)" by fastforce
  obtain s2 c where 2: "check_ctx s1 = (s2, c)" by fastforce
  obtain o1 ctx where 3: "ctx_Err (svc_os (wk_svc s2)) = (o1, ctx)" by fastforce
  have "rows_of s1 = rows_of s" using balancedD [OF balanced_expand_payload 1] by (simp add: same_leases_def)
  then have "rows_of s2 = rows_of s" using check_ctx_rows [OF 2] by simp
  then show ?thesis using assms 1 2 3
    by (cases c; cases r) (auto simp: forward_expanded_def rows_of_def split: prod.splits)
qed

lemma handleInference_rows:
  assumes "handleInference E L settings dispatcher W endpoint request s = (s', fw)"
  shows "rows_of s' = rows_of s"
proof -
  have f: "rows_of s1 = rows_of s" if "body_failure e s = (s1, fw')" for e s1 fw'
    using that by (auto simp: body_failure_def rows_of_def split: prod.splits sum.splits if_splits
        dest: check_ctx_rows [unfolded rows_of_def])
  have g: "rows_of s1 = rows_of s" if "forwardOriginal E L settings endpoint request body stream s = (s1, fw')" for body stream s1 fw'
    using that by (auto simp: forwardOriginal_def split: prod.splits sum.splits dest: check_ctx_rows)
  have h: "rows_of (cleanup s1) = rows_of s"
    if "forward_expanded E L settings dispatcher W endpoint request tenant payload s = (s1, fw')" for tenant payload s1 fw'
    using forward_expanded_rows [OF that] by (simp add: cleanup_def rows_of_def)
  show ?thesis using assms
    by (auto simp: handleInference_def dest: f g h split: sum.splits option.splits json.splits if_splits prod.splits)
qed

section \<open>A request\<close>

lemma passthrough_sent:
  "fw_Sent (passthrough E L settings request) \<noteq> None \<Longrightarrow>
     req_PathValue request ''path'' \<noteq> ''files'' \<and> \<not> has_prefix (req_PathValue request ''path'') ''files/''"
  by (auto simp: passthrough_def Let_def refuse_def split: sum.splits if_splits)

lemma handle_sent:
  assumes "fw_Sent (snd (handle E L settings dispatcher W c request to s)) \<noteq> None"
  shows "(\<exists>k. to = Inference k) \<or> (\<exists>p. to = Passthrough p \<and> p \<noteq> ''files'' \<and> \<not> has_prefix p ''files/'')"
proof (cases to)
  case (Passthrough p)
  then show ?thesis using assms passthrough_sent [of E L settings "path_value ''path'' p request"]
    by (simp add: handle_def path_value_def)
qed (use assms in \<open>auto simp: handle_def on_service_def replied_def split: prod.splits\<close>)

lemma handle_rows:
  assumes "tenantID E settings request = Inr tenant" and "handle E L settings dispatcher W c request to s = (s', fw)"
  shows "others tenant (rows_of s') = others tenant (rows_of s)"
proof -
  have t: "tenantID E settings (path_value k v request) = Inr tenant" for k v
    using assms(1) by (simp add: tenantID_def path_value_def)
  have u: "upl_Tenant u = tenant" if "parse_upload E settings request form = Inr u" for form u
    using that assms(1) by (auto simp: parse_upload_def Let_def split: sum.splits prod.splits if_splits)
  have "others tenant (svc_rows v') = others tenant (svc_rows v)"
    if "createFile E settings dispatcher flt now rnd ctx request form v = (v', resp)" for flt now rnd ctx form v v' resp
    using that u by (auto simp: createFile_def split: sum.splits prod.splits) (metis Create_others)+
  then show ?thesis using assms t
    by (cases to) (auto simp: handle_def on_service_def rows_of_def deleteFile_def retrieveContent_def Let_def
      dest: Create_others Delete_others OpenSource_rows handleInference_rows [unfolded rows_of_def]
      split: prod.splits sum.splits if_splits)
qed

lemma handle_refused:
  assumes "tenantID E settings request = Inl e" and "to \<noteq> Health" and "to \<noteq> ByMux"
  shows "handle E L settings dispatcher W c request to s = (s, refuse e)"
proof -
  have t: "tenantID E settings (path_value k v request) = Inl e" for k v
    using assms(1) by (simp add: tenantID_def path_value_def)
  show ?thesis using assms t
    by (cases to) (simp_all add: handle_def on_service_def createFile_def parse_upload_def listFiles_def retrieveFile_def ownedFile_def
      retrieveContent_def deleteFile_def handleInference_def passthrough_def refuse_def replied_def)
qed

text \<open>C30. What any request can do, whatever its method, path, headers and body. Without the exact
  \<open>Authorization\<close> header that the settings ask for, nothing is stored, read or forwarded, and every
  handler but the health check answers 401 (or 429 when the gateway is busy). With it, all requests act
  for the one tenant of the key: the rows of other tenants are untouched. Only the inference routes and
  the passthrough send anything to the model server, and no request under \<open>/v1/files\<close> does.\<close>

theorem gateway_gate:
  assumes "serve E L settings dispatcher W c r l request s = (s', fw)"
  shows "(\<not> authorized settings request \<longrightarrow> s' = s \<and> fw_Sent fw = None \<and>
      (route (req_Method request) (req_Path request) \<notin> {Health, ByMux} \<longrightarrow>
        (\<exists>response. fw_Response fw = Some response \<and> resp_Status response \<in> {401, 429}))) \<and>
    filter (\<lambda>f. TenantID f \<noteq> tenant_of E settings) (svc_rows (wk_svc s')) =
      filter (\<lambda>f. TenantID f \<noteq> tenant_of E settings) (svc_rows (wk_svc s)) \<and>
    (fw_Sent fw \<noteq> None \<longrightarrow> (\<exists>k. route (req_Method request) (req_Path request) = Inference k) \<or>
      (\<exists>p. route (req_Method request) (req_Path request) = Passthrough p \<and> p \<noteq> ''files'' \<and> \<not> has_prefix p ''files/''))"
proof -
  let ?to = "route (req_Method request) (req_Path request)"
  let ?h = "handle E L settings dispatcher W c request ?to s"
  consider "?h = (s', fw)" | "s' = s" "fw = replied (Some busy_error)" "?to \<noteq> Health" "?to \<noteq> ByMux"
    using assms by (auto simp: serve_def Let_def withConcurrencyLimit_def admit_def split: if_splits option.splits)
  then show ?thesis
  proof cases
    case 1
    have "others (tenant_of E settings) (rows_of s') = others (tenant_of E settings) (rows_of s)" if "authorized settings request"
      using handle_rows [OF _ 1] tenantID_cases [of settings request E] that by simp
    moreover have "s' = s \<and> fw_Sent fw = None \<and> (?to \<notin> {Health, ByMux} \<longrightarrow>
        (\<exists>response. fw_Response fw = Some response \<and> resp_Status response \<in> {401, 429}))" if no_key: "\<not> authorized settings request"
    proof (cases "?to = Health \<or> ?to = ByMux")
      case True
      then show ?thesis using 1 by (auto simp: handle_def replied_def)
    next
      case False
      obtain e where e: "tenantID E settings request = Inl e" "err_Status e = 401"
        using tenantID_cases [of settings request E] no_key by auto
      then show ?thesis using handle_refused [OF e(1)] False 1
        by (auto simp: refuse_def writeError_def writeJSON_def)
    qed
    moreover have "(\<exists>k. ?to = Inference k) \<or> (\<exists>p. ?to = Passthrough p \<and> p \<noteq> ''files'' \<and> \<not> has_prefix p ''files/'')"
      if "fw_Sent fw \<noteq> None"
      by (rule handle_sent [of E L settings dispatcher W c request _ s]) (use 1 that in simp)
    ultimately show ?thesis by (cases "authorized settings request") (auto simp: others_def rows_of_def)
  next
    case 2
    then show ?thesis by (simp add: replied_def busy_error_def writeError_def writeJSON_def api_New_def)
  qed
qed

end
