(* ===== verification/Server_Files_Correct.thy ===== *)
theory Server_Files_Correct
  imports Server_Files
begin

text \<open>
  What a client of the Files API can rely on: following the cursors of the listing yields every file
  once and in order; an upload is stored under the limits that the request and the settings give.
\<close>

section \<open>Pages\<close>

text \<open>What a client reads of a page: the files, the last id, whether there are more.\<close>

definition read_page :: "response option \<Rightarrow> (json list \<times> string \<times> bool) option" where
  "read_page r = (case r of
     Some response \<Rightarrow> (case resp_Body response of
       JsonBody (JObj page) \<Rightarrow>
         (case (as_array (field page ''data''), field page ''has_more'') of
            (Some data, Some (JBool has_more)) \<Rightarrow> Some (data, str_field page ''last_id'', has_more) | _ \<Rightarrow> None)
     | _ \<Rightarrow> None)
   | None \<Rightarrow> None)"

text \<open>A client that asks for the next page as long as there is one; \<open>n\<close> bounds the number of requests.\<close>

fun follow_pages :: "nat \<Rightarrow> (string \<Rightarrow> response option) \<Rightarrow> string \<Rightarrow> json list option" where
  "follow_pages 0 fetch after = None"
| "follow_pages (Suc n) fetch after = (case read_page (fetch after) of
     None \<Rightarrow> None
   | Some (data, last_id, has_more) \<Rightarrow> if \<not> has_more then Some data else map_option ((@) data) (follow_pages n fetch last_id))"

definition with_after :: "request \<Rightarrow> string \<Rightarrow> request" where
  "with_after request after = request\<lparr>req_Query := (req_Query request)(''after'' := after)\<rparr>"

lemma read_list_page:
  "0 < limit \<Longrightarrow> read_page (Some (writeJSON 200 (list_page limit records))) =
     Some (map openAIFile (take (nat limit) records),
       if records = [] then [] else ID (last (take (nat limit) records)), int (length records) > limit)"
  by (auto simp: read_page_def writeJSON_def list_page_def Let_def field_def str_field_def)

text \<open>The order of the listing.\<close>

definition listed_before :: "string \<Rightarrow> File \<Rightarrow> File \<Rightarrow> bool" where
  "listed_before order f g \<longleftrightarrow> (if order = ''asc'' then list_key f < list_key g else list_key g < list_key f)"

lemma past_cursor_before: "past_cursor order (Some c) f \<longleftrightarrow> listed_before order c f"
  by (auto simp: past_cursor_def listed_before_def list_key_def)

lemma order_rows_filter: "order_rows order (filter P xs) = filter P (order_rows order xs)"
  by (simp add: order_rows_def filter_sort [symmetric] rev_filter)

lemma set_order_rows [simp]: "set (order_rows order xs) = set xs"
  by (simp add: order_rows_def)

lemma order_rows_sorted:
  assumes "distinct (map ID xs)"
  shows "sorted_wrt (listed_before order) (order_rows order xs)"
proof -
  have "distinct (map ID (sort_key list_key xs))" using assms by (simp add: distinct_map)
  moreover have "map ID (sort_key list_key xs) = map snd (map list_key (sort_key list_key xs))" by (simp add: list_key_def)
  ultimately have "distinct (map list_key (sort_key list_key xs))" by (metis distinct_map)
  then have "sorted_wrt (<) (map list_key (sort_key list_key xs))" by (simp add: strict_sorted_iff)
  then have "sorted_wrt (\<lambda>f g. list_key f < list_key g) (sort_key list_key xs)" by (simp add: sorted_wrt_map)
  then show ?thesis by (simp add: order_rows_def listed_before_def [abs_def] sorted_wrt_rev)
qed

lemma listed_before_asym: "listed_before order f g \<Longrightarrow> \<not> listed_before order g f" "\<not> listed_before order f f"
  by (auto simp: listed_before_def)

lemma filter_after:
  assumes "sorted_wrt (listed_before order) (pre @ ys)" and "pre \<noteq> []"
  shows "filter (past_cursor order (Some (last pre))) (pre @ ys) = ys"
proof -
  obtain zs c where pre: "pre = zs @ [c]" using assms(2) by (cases pre rule: rev_cases) auto
  have "\<forall>f \<in> set zs. listed_before order f c" "\<forall>f \<in> set ys. listed_before order c f"
    using assms(1) by (auto simp: pre sorted_wrt_append)
  then have "filter (past_cursor order (Some c)) zs = []" "filter (past_cursor order (Some c)) ys = ys"
    using listed_before_asym by (auto simp: filter_empty_conv filter_id_conv past_cursor_before)
  then show ?thesis using listed_before_asym by (simp add: pre past_cursor_before)
qed

section \<open>The listing\<close>

definition listing :: "int \<Rightarrow> string \<Rightarrow> list_query \<Rightarrow> table \<Rightarrow> File list" where
  "listing now tenant q rows = order_rows (lq_order q) (filter (listable now tenant (lq_purpose q)) rows)"

lemma parse_list_after:
  "parse_list request = Inr q \<Longrightarrow> parse_list (with_after request after) = Inr (q\<lparr>lq_after := after\<rparr>)"
  by (auto simp: parse_list_def with_after_def Let_def split: option.splits if_splits)

lemma tenant_after: "tenantID E settings (with_after request after) = tenantID E settings request"
  by (simp add: tenantID_def with_after_def)

lemma parse_list_limit: "parse_list request = Inr q \<Longrightarrow> 1 \<le> lq_limit q \<and> lq_limit q \<le> 10000"
  by (auto simp: parse_list_def Let_def split: option.splits if_splits)

lemma list_after:
  assumes db: "db_inv rows" and pre: "listing now tenant q rows = pre @ ys"
    and after: "if pre = [] then after = [] else after = ID (last pre) \<and> after \<noteq> []"
  shows "store_List NoFault NoFault now rows tenant (lq_purpose q) limit (lq_order q) after = Inr (limit_rows limit ys)"
proof (cases "pre = []")
  case True
  then show ?thesis using pre after by (simp add: store_List_def listing_def past_cursor_def)
next
  case False
  have c: "last pre \<in> set rows" "TenantID (last pre) = tenant"
    using last_in_set [OF False] arg_cong [OF pre, of set] by (auto simp: listing_def listable_def)
  have "find (\<lambda>f. ID f = after \<and> TenantID f = tenant) rows = Some (last pre)"
    using db c after False by (intro find_distinct [where key = ID]) (auto simp: db_inv_def)
  moreover have "order_rows (lq_order q)
      (filter (\<lambda>f. listable now tenant (lq_purpose q) f \<and> past_cursor (lq_order q) (Some (last pre)) f) rows) = ys"
  proof -
    have "order_rows (lq_order q) (filter (\<lambda>f. listable now tenant (lq_purpose q) f \<and> past_cursor (lq_order q) (Some (last pre)) f) rows)
      = filter (past_cursor (lq_order q) (Some (last pre))) (listing now tenant q rows)"
      by (simp add: listing_def order_rows_filter conj_commute)
    moreover have "sorted_wrt (listed_before (lq_order q)) (pre @ ys)"
      unfolding pre [symmetric] listing_def using db by (intro order_rows_sorted distinct_map_filter) (simp add: db_inv_def)
    ultimately show ?thesis using filter_after [OF _ False] pre by simp
  qed
  ultimately show ?thesis using after False by (auto simp: store_List_def query_row_def)
qed

text \<open>C36. Following the cursors lists every file once. A client that asks for pages of any allowed size, in either
  order and for any purpose, and continues after the last id of each page as long as there are more,
  gets exactly the files of its tenant that are neither deleted nor expired (and of that purpose), each
  once, sorted by the time of creation and the id, in at most one request per file and one more; the
  table may also hold files with equal times and the rows of other tenants.\<close>

theorem pagination_complete:
  assumes "db_inv rows" and "\<forall>f \<in> set rows. ID f \<noteq> []"
    and "tenantID E settings request = Inr tenant" and "parse_list request = Inr q"
  shows "follow_pages (Suc (length rows)) (\<lambda>after. listFiles E settings NoFault NoFault now ctx (with_after request after) rows) [] =
     Some (map openAIFile (order_rows (lq_order q) (filter (listable now tenant (lq_purpose q)) rows)))"
proof -
  let ?fetch = "\<lambda>after. listFiles E settings NoFault NoFault now ctx (with_after request after) rows"
  have limit: "1 \<le> lq_limit q" using parse_list_limit [OF assms(4)] by simp
  have "follow_pages n ?fetch after = Some (map openAIFile ys)"
    if "listing now tenant q rows = pre @ ys" "length ys < n"
      "if pre = [] then after = [] else after = ID (last pre) \<and> after \<noteq> []" for n pre ys after
    using that
  proof (induction n arbitrary: pre ys after)
    case (Suc n)
    have "?fetch after = Some (writeJSON 200 (list_page (lq_limit q) (limit_rows (lq_limit q + 1) ys)))"
      using list_after [OF assms(1) Suc(2) Suc(4)] assms(3) parse_list_after [OF assms(4)]
      by (simp add: listFiles_def tenant_after)
    then have page: "read_page (?fetch after) = Some (map openAIFile (take (nat (lq_limit q)) ys),
        if ys = [] then [] else ID (last (take (nat (lq_limit q)) ys)), int (length ys) > lq_limit q)"
      using limit by (auto simp: read_list_page limit_rows_def min_def)
    show ?case
    proof (cases "int (length ys) > lq_limit q")
      case True
      define p where "p = take (nat (lq_limit q)) ys"
      have p: "p \<noteq> []" "ys = p @ drop (nat (lq_limit q)) ys" using True limit by (auto simp: p_def)
      have "set p \<subseteq> set rows"
        using arg_cong [OF Suc(2), of set] by (auto simp: p_def listing_def dest: in_set_takeD)
      then have "ID (last p) \<noteq> []" using assms(2) p(1) last_in_set by blast
      then have "follow_pages n ?fetch (ID (last p)) = Some (map openAIFile (drop (nat (lq_limit q)) ys))"
        using Suc(2,3) p True limit by (intro Suc(1) [of "pre @ p"]) auto
      then show ?thesis using page True p(1) by (simp add: p_def flip: map_append)
    next
      case False
      then show ?thesis using page by simp
    qed
  qed simp
  moreover have "length (listing now tenant q rows) < Suc (length rows)"
    by (simp add: listing_def order_rows_def le_imp_less_Suc)
  ultimately show ?thesis unfolding listing_def [symmetric] by (metis append_Nil)
qed

end
