(* ===== verification/Streaming.thy ===== *)
theory Streaming
  imports Proxy
begin

text \<open>
  The copy of a reply to the client and the log of an upstream error (\<open>internal/server/proxy.go\<close>):
  \<open>io.Copy\<close> over the chunks in which the body arrives, into the buffered \<open>http.ResponseWriter\<close> or into
  the \<open>flushWriter\<close> around it, and \<open>logUpstreamErrorResponse\<close> with the attributes that it logs.
\<close>

section \<open>The connection to the client\<close>

text \<open>What the client has, what waits in the buffer of the response, and what the connection does at each of
  the next writes and flushes: \<open>Fine n\<close> sends \<open>n\<close> bytes of the buffer early, \<open>Broken n e\<close> fails with
  \<open>e\<close> after \<open>n\<close> bytes.\<close>

datatype conn_event = Fine nat | Broken nat go_error

record client_conn =
  cl_received :: string
  cl_buffer :: string
  cl_events :: "conn_event list"

definition next_event :: "client_conn \<Rightarrow> conn_event" where
  "next_event c = (case cl_events c of [] \<Rightarrow> Fine 0 | v # _ \<Rightarrow> v)"

text \<open>\<open>n\<close> bytes of the buffer go to the client.\<close>

definition spill :: "nat \<Rightarrow> string \<Rightarrow> client_conn \<Rightarrow> client_conn" where
  "spill n buffer c = c\<lparr>cl_received := cl_received c @ take n buffer, cl_buffer := drop n buffer, cl_events := tl (cl_events c)\<rparr>"

type_synonym writer = "string \<Rightarrow> client_conn \<Rightarrow> client_conn \<times> int \<times> go_error option"

definition response_Write :: writer where
  "response_Write content c = (case next_event c of
     Fine n \<Rightarrow> (spill n (cl_buffer c @ content) c, int (length content), None)
   | Broken n e \<Rightarrow> (spill n (cl_buffer c @ content) c, int (min n (length content)), Some e))"

definition controller_Flush :: "client_conn \<Rightarrow> client_conn \<times> go_error option" where
  "controller_Flush c = (case next_event c of
     Fine _ \<Rightarrow> (spill (length (cl_buffer c)) (cl_buffer c) c, None)
   | Broken n e \<Rightarrow> (spill n (cl_buffer c) c, Some e))"

definition flushWriter_Write :: writer where
  "flushWriter_Write content c = (case response_Write content c of
     (c1, written, Some e) \<Rightarrow> (c1, written, Some e)
   | (c1, written, None) \<Rightarrow> (case controller_Flush c1 of
       (c2, Some e) \<Rightarrow> (c2, written, Some e)
     | (c2, None) \<Rightarrow> (c2, written, None)))"

text \<open>\<open>io.Copy\<close>: the chunks that the reads return, then the end of the body or the error \<open>err\<close>.\<close>

fun io_Copy :: "writer \<Rightarrow> string list \<Rightarrow> go_error option \<Rightarrow> int \<Rightarrow> client_conn \<Rightarrow> client_conn \<times> int \<times> go_error option" where
  "io_Copy dst [] err written c = (c, written, err)"
| "io_Copy dst (chunk # chunks) err written c = (case dst chunk c of
     (c1, nw, Some e) \<Rightarrow> (c1, written + nw, Some e)
   | (c1, nw, None) \<Rightarrow> if nw \<noteq> int (length chunk) then (c1, written + nw, Some (Opaque ''short write''))
       else io_Copy dst chunks err (written + nw) c1)"

text \<open>The end of \<open>forwardRequest\<close> and of \<open>forwardJSON\<close>.\<close>

definition copy_reply :: "forwarded \<Rightarrow> string list \<Rightarrow> go_error option \<Rightarrow> client_conn \<Rightarrow> client_conn \<times> int \<times> go_error option" where
  "copy_reply fw chunks err c = io_Copy (if fw_Flushed fw then flushWriter_Write else response_Write) chunks err 0 c"

section \<open>No byte lost, none out of order\<close>

text \<open>What the client has and will have.\<close>

definition on_way :: "client_conn \<Rightarrow> string" where
  "on_way c = cl_received c @ cl_buffer c"

lemma spill_simps [simp]:
  "cl_received (spill n b c) = cl_received c @ take n b" "cl_buffer (spill n b c) = drop n b"
  "on_way (spill n b c) = cl_received c @ b"
  by (simp_all add: spill_def on_way_def)

definition keeps_order :: "writer \<Rightarrow> bool" where
  "keeps_order dst \<longleftrightarrow> (\<forall>s c c1 n r. dst s c = (c1, n, r) \<longrightarrow>
     on_way c1 = on_way c @ s \<and> (r = None \<longrightarrow> n = int (length s)))"

lemma keeps_orderD:
  "keeps_order dst \<Longrightarrow> dst s c = (c1, n, r) \<Longrightarrow> on_way c1 = on_way c @ s \<and> (r = None \<longrightarrow> n = int (length s))"
  unfolding keeps_order_def by blast

lemma response_Write_order: "keeps_order response_Write"
  by (auto simp: keeps_order_def response_Write_def on_way_def [of c for c] simp del: take_append drop_append
      split: conn_event.splits)

lemma Flush_on_way: "controller_Flush c = (c1, r) \<Longrightarrow> on_way c1 = on_way c \<and> (r = None \<longrightarrow> cl_buffer c1 = [])"
  by (auto simp: controller_Flush_def on_way_def split: conn_event.splits)

lemma flushWriter_result:
  assumes "flushWriter_Write s c = (c1, n, r)"
  shows "on_way c1 = on_way c @ s \<and> (r = None \<longrightarrow> n = int (length s) \<and> cl_buffer c1 = [])"
proof -
  obtain c2 m r2 where w: "response_Write s c = (c2, m, r2)" by (metis prod_cases3)
  note k = keeps_orderD [OF response_Write_order w]
  show ?thesis
  proof (cases r2)
    case None
    obtain c3 r3 where f: "controller_Flush c2 = (c3, r3)" by fastforce
    show ?thesis using assms k Flush_on_way [OF f] None f w by (cases r3) (auto simp: flushWriter_Write_def)
  next
    case (Some e)
    then show ?thesis using assms k w by (auto simp: flushWriter_Write_def)
  qed
qed

lemma flushWriter_order: "keeps_order flushWriter_Write"
  using flushWriter_result unfolding keeps_order_def by blast

lemma io_Copy_order:
  assumes "keeps_order dst" and "io_Copy dst chunks err w c = (c1, n, r)"
  shows "\<exists>j. on_way c1 = on_way c @ concat (take j chunks) \<and>
    (r = err \<and> j = length chunks \<and> n = w + int (length (concat chunks)) \<or> r \<noteq> None)"
  using assms(2)
proof (induction chunks arbitrary: w c)
  case Nil
  then show ?case by auto
next
  case (Cons chunk chunks)
  obtain c2 m r2 where d: "dst chunk c = (c2, m, r2)" by (metis prod_cases3)
  note k = keeps_orderD [OF assms(1) d]
  show ?case
  proof (cases r2)
    case None
    then have "io_Copy dst chunks err (w + int (length chunk)) c2 = (c1, n, r)" using Cons.prems d k by simp
    then obtain j where "on_way c1 = on_way c2 @ concat (take j chunks) \<and>
        (r = err \<and> j = length chunks \<and> n = w + int (length chunk) + int (length (concat chunks)) \<or> r \<noteq> None)"
      using Cons.IH by blast
    then show ?thesis using k by (intro exI [of _ "Suc j"]) auto
  next
    case (Some e)
    then show ?thesis using Cons.prems d k by (intro exI [of _ 1]) auto
  qed
qed

lemma io_Copy_append:
  "io_Copy dst (xs @ ys) err w c = (case io_Copy dst xs None w c of
     (c1, n, None) \<Rightarrow> io_Copy dst ys err n c1 | (c1, n, Some e) \<Rightarrow> (c1, n, Some e))"
  by (induction xs arbitrary: w c) (auto split: prod.splits option.splits)

lemma io_Copy_flushed:
  "io_Copy flushWriter_Write chunks None w c = (c1, n, None) \<Longrightarrow> cl_buffer c = [] \<Longrightarrow> cl_buffer c1 = []"
proof (induction chunks arbitrary: w c)
  case (Cons chunk chunks)
  obtain c2 m r2 where d: "flushWriter_Write chunk c = (c2, m, r2)" by (metis prod_cases3)
  then have "r2 = None" using Cons.prems(1) by (cases r2) auto
  moreover have "cl_buffer c2 = []" using flushWriter_result [OF d] \<open>r2 = None\<close> by simp
  moreover have "m = int (length chunk)" using flushWriter_result [OF d] \<open>r2 = None\<close> by simp
  ultimately show ?case using Cons.IH [of "w + m" c2] Cons.prems(1) d by simp
qed simp

section \<open>The log of an upstream error\<close>

text \<open>An attribute of a log line; a nil \<open>any\<close> is \<open>LogJson None\<close>.\<close>

datatype log_value = LogStr string | LogInt int | LogErr go_error | LogJson "json option"

text \<open>The \<open>error\<close> object of the reply.\<close>

record upstream_problem =
  pr_Message :: string
  pr_Type :: string
  pr_Param :: "json option"
  pr_Code :: "json option"

definition no_problem :: upstream_problem where
  "no_problem = \<lparr>pr_Message = [], pr_Type = [], pr_Param = None, pr_Code = None\<rparr>"

text \<open>\<open>json.Unmarshal\<close> into an \<open>any\<close>: a number has to fit \<open>float64\<close>, which \<open>float_ok\<close> says.\<close>

fun any_ok :: "(string \<Rightarrow> bool) \<Rightarrow> json \<Rightarrow> bool" where
  "any_ok float_ok (JNum n) = float_ok n"
| "any_ok float_ok (JArr vs) = list_all (any_ok float_ok) vs"
| "any_ok float_ok (JObj kvs) = list_all (\<lambda>kv. any_ok float_ok (snd kv)) kvs"
| "any_ok float_ok v = True"

fun string_value :: "json \<Rightarrow> string \<Rightarrow> string option" where
  "string_value (JStr s) old = Some s"
| "string_value JNull old = Some old"
| "string_value v old = None"

definition any_value :: "(string \<Rightarrow> bool) \<Rightarrow> json \<Rightarrow> json option option" where
  "any_value float_ok v = (if v = JNull then Some None else if any_ok float_ok v then Some (Some v) else None)"

text \<open>The keys of the object in their order: a key names a field up to case, a key that is repeated sets
  its field again, and a value of another type makes the whole decoding fail.\<close>

fun read_problem :: "(string \<Rightarrow> bool) \<Rightarrow> (string \<times> json) list \<Rightarrow> upstream_problem \<Rightarrow> upstream_problem option" where
  "read_problem float_ok [] p = Some p"
| "read_problem float_ok ((k, v) # kvs) p =
     Option.bind (if fold_case k = ''message'' then map_option (\<lambda>s. p\<lparr>pr_Message := s\<rparr>) (string_value v (pr_Message p))
        else if fold_case k = ''type'' then map_option (\<lambda>s. p\<lparr>pr_Type := s\<rparr>) (string_value v (pr_Type p))
        else if fold_case k = ''param'' then map_option (\<lambda>x. p\<lparr>pr_Param := x\<rparr>) (any_value float_ok v)
        else if fold_case k = ''code'' then map_option (\<lambda>x. p\<lparr>pr_Code := x\<rparr>) (any_value float_ok v)
        else Some p) (read_problem float_ok kvs)"

fun problem_field :: "(string \<Rightarrow> bool) \<Rightarrow> json \<Rightarrow> upstream_problem \<Rightarrow> upstream_problem option" where
  "problem_field float_ok (JObj kvs) p = read_problem float_ok kvs p"
| "problem_field float_ok JNull p = Some p"
| "problem_field float_ok v p = None"

fun read_result :: "(string \<Rightarrow> bool) \<Rightarrow> (string \<times> json) list \<Rightarrow> upstream_problem \<Rightarrow> upstream_problem option" where
  "read_result float_ok [] p = Some p"
| "read_result float_ok ((k, v) # kvs) p =
     Option.bind (if fold_case k = ''error'' then problem_field float_ok v p else Some p) (read_result float_ok kvs)"

fun problem_of_json :: "(string \<Rightarrow> bool) \<Rightarrow> json \<Rightarrow> upstream_problem option" where
  "problem_of_json float_ok (JObj kvs) = read_result float_ok kvs no_problem"
| "problem_of_json float_ok JNull = Some no_problem"
| "problem_of_json float_ok v = None"

definition problem_attributes :: "upstream_problem \<Rightarrow> (string \<times> log_value) list" where
  "problem_attributes p = [(''error_type'', LogStr (pr_Type p)), (''error_code'', LogJson (pr_Code p)),
     (''error_param'', LogJson (pr_Param p)), (''error_message'', LogStr (pr_Message p))]"

text \<open>The line that \<open>logUpstreamErrorResponse\<close> logs, None for a reply that is not an error.\<close>

definition upstream_error_log ::
  "env \<Rightarrow> (string \<Rightarrow> bool) \<Rightarrow> string \<Rightarrow> (string \<times> log_value) list \<Rightarrow> upstream_reply \<Rightarrow> (string \<times> (string \<times> log_value) list) option" where
  "upstream_error_log E float_ok message attributes upstream = (if upr_Status upstream < 400 then None
     else (case copy_from (Some (upstreamErrorPreviewBytes + 1)) (upr_Body upstream) of (preview, err) \<Rightarrow>
       let attributes = attributes @ [(''status'', LogInt (upr_Status upstream))] in
       Some (message, case err of
           Some e \<Rightarrow> attributes @ [(''error'', LogErr e)]
         | None \<Rightarrow> if int (length preview) > upstreamErrorPreviewBytes then attributes
             else (case Option.bind (json_parse E preview) (problem_of_json float_ok) of
               None \<Rightarrow> attributes | Some p \<Rightarrow> attributes @ problem_attributes p))))"

text \<open>The message and the attributes of \<open>forwardRequest\<close>; those of \<open>forwardJSON\<close> are the inference ones.\<close>

definition forward_log_line :: "request \<Rightarrow> string \<Rightarrow> bool \<Rightarrow> string \<times> (string \<times> log_value) list" where
  "forward_log_line request path inference =
     (if inference then (''upstream inference returned error'', [(''endpoint'', LogStr path)])
      else (''upstream returned error'', [(''method'', LogStr (req_Method request)), (''path'', LogStr (req_Path request))]))"

text \<open>Nothing of a body that is not a well-formed error object of at most 64 KiB is logged.\<close>

lemma logged_of_body:
  assumes "upstream_error_log E float_ok message attributes upstream = Some (m, logged)"
  shows "\<exists>extra. logged = attributes @ [(''status'', LogInt (upr_Status upstream))] @ extra \<and>
    (extra = [] \<or> (\<exists>e. extra = [(''error'', LogErr e)] \<and> rd_err (upr_Body upstream) = Some e) \<or>
     (\<exists>v p. int (length (rd_data (upr_Body upstream))) \<le> upstreamErrorPreviewBytes \<and> json_parse E (rd_data (upr_Body upstream)) = Some v
        \<and> problem_of_json float_ok v = Some p \<and> extra = problem_attributes p))"
  using assms
  by (auto simp: upstream_error_log_def copy_from_def upstreamErrorPreviewBytes_def Let_def bind_eq_Some_conv
      split: if_splits option.splits)

section \<open>Streaming\<close>

lemma copy_reply_in_order:
  assumes "copy_reply fw chunks err c = (c1, n, r)"
  shows "\<exists>j. on_way c1 = on_way c @ concat (take j chunks) \<and>
    (r = err \<and> j = length chunks \<and> n = int (length (concat chunks)) \<or> r \<noteq> None)"
  using io_Copy_order [of "if fw_Flushed fw then flushWriter_Write else response_Write" chunks err 0 c c1 n r]
    assms flushWriter_order response_Write_order unfolding copy_reply_def by (cases "fw_Flushed fw") auto

lemma copy_reply_flushed:
  assumes "fw_Flushed fw" and "copy_reply fw chunks None c = (c1, n, None)" and "cl_buffer c = []"
  shows "cl_received c1 = cl_received c @ concat chunks"
  using copy_reply_in_order [OF assms(2)] io_Copy_flushed [of chunks 0 c c1 n] assms
  by (auto simp: copy_reply_def on_way_def)

lemma copy_reply_append:
  "copy_reply fw (xs @ ys) err c = (case copy_reply fw xs None c of
     (c1, n, None) \<Rightarrow> io_Copy (if fw_Flushed fw then flushWriter_Write else response_Write) ys err n c1
   | (c1, n, Some e) \<Rightarrow> (c1, n, Some e))"
  unfolding copy_reply_def by (rule io_Copy_append)

text \<open>C40. A streamed reply reaches the client as it arrives. Whenever a request that asks for a stream, or a
  forwarded one that is answered with an event stream, gets a reply from the model server, and the reply
  arrives in whatever chunks: once the chunks \<open>xs\<close> have been copied, the client has received all of them,
  before the next one is waited for; if a write or a flush fails, nothing more is read from the model
  server. In every case, streamed or not, what the client has and what waits for it in the buffer are the
  first chunks of the reply in order, all of them unless the copy reports an error.\<close>

theorem streaming_prompt:
  assumes "fw = forwardRequest E L settings request path stream \<and> flushing = (stream \<or> event_stream (upr_Header reply)) \<or>
      fw = forwardJSON E L settings ctx request endpoint payload \<and> flushing = (field payload ''stream'' = Some (JBool True))"
    and "fw_Sent fw = Some u" and "vllm L u = Inr reply" and "ctx_at_start L = None"
    and "concat (xs @ ys) = rd_data (upr_Body reply)" and "err = rd_err (upr_Body reply)" and "cl_buffer c = []"
  shows "map_option resp_Body (fw_Response fw) = Some (CopiedBody (concat (xs @ ys)) err)
    \<and> (flushing \<longrightarrow> (case copy_reply fw xs None c of
         (c1, n, None) \<Rightarrow> cl_received c1 = cl_received c @ concat xs \<and>
           copy_reply fw (xs @ ys) err c = io_Copy flushWriter_Write ys err n c1
       | (c1, n, Some e) \<Rightarrow> copy_reply fw (xs @ ys) err c = (c1, n, Some e)))
    \<and> (case copy_reply fw (xs @ ys) err c of (c1, n, r) \<Rightarrow>
         (\<exists>j. cl_received c1 @ cl_buffer c1 = cl_received c @ concat (take j (xs @ ys))
           \<and> (r = None \<longrightarrow> err = None \<and> concat (take j (xs @ ys)) = rd_data (upr_Body reply))))"
proof (intro conjI impI)
  have x: "\<exists>flush. fw = exchange_with E L flush u \<and> flush reply = flushing"
    using assms(1,2) by (auto simp: forwardRequest_def forwardJSON_def Let_def refuse_def exchange_with_def split: if_splits option.splits)
  then show "map_option resp_Body (fw_Response fw) = Some (CopiedBody (concat (xs @ ys)) err)"
    using assms(3-6) by (auto simp: exchange_with_def copy_response_def)
  assume flushing
  then have f: "fw_Flushed fw" using x assms(3,4) by (auto simp: exchange_with_def)
  obtain c1 n r where run: "copy_reply fw xs None c = (c1, n, r)" by (metis prod_cases3)
  show "case copy_reply fw xs None c of
         (c1, n, None) \<Rightarrow> cl_received c1 = cl_received c @ concat xs \<and>
           copy_reply fw (xs @ ys) err c = io_Copy flushWriter_Write ys err n c1
       | (c1, n, Some e) \<Rightarrow> copy_reply fw (xs @ ys) err c = (c1, n, Some e)"
  proof (cases r)
    case None
    then show ?thesis using copy_reply_flushed [OF f _ assms(7), of xs c1 n] f run by (simp add: copy_reply_append)
  next
    case (Some e)
    then show ?thesis using run by (simp add: copy_reply_append)
  qed
next
  obtain c1 n r where run: "copy_reply fw (xs @ ys) err c = (c1, n, r)" by (metis prod_cases3)
  obtain j where "on_way c1 = on_way c @ concat (take j (xs @ ys))"
    "r = err \<and> j = length (xs @ ys) \<or> r \<noteq> None" using copy_reply_in_order [OF run] by blast
  then show "case copy_reply fw (xs @ ys) err c of (c1, n, r) \<Rightarrow>
         (\<exists>j. cl_received c1 @ cl_buffer c1 = cl_received c @ concat (take j (xs @ ys))
           \<and> (r = None \<longrightarrow> err = None \<and> concat (take j (xs @ ys)) = rd_data (upr_Body reply)))"
    using assms(5,7) unfolding run by (intro case_prodI exI [of _ j]) (auto simp: on_way_def)
qed

end
