(* ===== verification/Server_Demo.thy ===== *)
theory Server_Demo
  imports Gateway_Correct Server_Files_Correct Streaming
begin

text \<open>
  Concrete requests to the gateway of \<open>demo_settings\<close>: the theorems about the handlers applied to them.
\<close>

definition demo_reader :: "string \<Rightarrow> reader" where
  "demo_reader s = \<lparr>rd_data = s, rd_err = None, rd_joined = False\<rparr>"

definition demo_request :: "string \<Rightarrow> string \<Rightarrow> string \<Rightarrow> request" where
  "demo_request method path body = \<lparr>req_Method = method, req_Path = path, req_RawQuery = [],
     req_Query = (\<lambda>k. if k = ''limit'' then ''1'' else []), req_PathValue = (\<lambda>_. ''models''),
     req_Header = [(''Authorization'', [''Bearer secret'']), (''Connection'', [''X-Hop'']), (''X-Hop'', [''1'']), (''X-Trace'', [''7'', ''8''])],
     req_Body = demo_reader body\<rparr>"

definition demo_link :: link where
  "demo_link = \<lparr>base_text = (\<lambda>_. ''http://vllm/v1''), request_invalid = (\<lambda>_ _. False),
     vllm = (\<lambda>_. Inr \<lparr>upr_Status = 200, upr_Header = [(''X-Id'', [''1''])], upr_Body = demo_reader ''ok''\<rparr>),
     ctx_at_failure = None, ctx_at_start = None\<rparr>"

section \<open>The proxy\<close>

lemma demo_tenant: "\<exists>t. tenantID E demo_settings (demo_request m p b) = Inr t"
proof -
  have "header_Get (req_Header (demo_request m p b)) ''Authorization'' = ''Bearer secret''"
    by (simp add: demo_request_def header_Get_def header_Values_def)
  then have "authorized demo_settings (demo_request m p b)"
    by (simp add: authorized_def demo_settings_def)
  then show ?thesis using tenantID_cases [of demo_settings "demo_request m p b" E] by simp
qed

lemma demo_headers: "header_ok (req_Header (demo_request m p b))"
  unfolding demo_request_def by code_simp

lemma demo_reply_headers: "vllm demo_link u = Inr reply \<Longrightarrow> header_ok (upr_Header reply)"
proof -
  have "header_ok [(''X-Id'', [''1''])]" by code_simp
  then show "vllm demo_link u = Inr reply \<Longrightarrow> header_ok (upr_Header reply)" by (auto simp: demo_link_def)
qed

lemma demo_kept: "\<not> dropped demo_env (req_Header (demo_request m p b)) ''X-Trace''" "dropped demo_env (req_Header (demo_request m p b)) ''X-Hop''"
  unfolding demo_request_def by code_simp+

lemma demo_keys: "CanonicalHeaderKey ''X-Trace'' = ''X-Trace''" "CanonicalHeaderKey ''X-Hop'' = ''X-Hop''"
  by code_simp+


section \<open>A streamed reply\<close>

definition demo_client :: client_conn where
  "demo_client = \<lparr>cl_received = [], cl_buffer = [], cl_events = [Fine 0, Fine 0, Broken 0 Canceled]\<rparr>"

abbreviation demo_stream :: forwarded where
  "demo_stream \<equiv> forwardRequest demo_env demo_link demo_settings (demo_request ''POST'' ''/v1/completions'' ''b'') ''completions'' True"

theorem streaming_prompt_witness:
  "\<exists>c1 n. copy_reply demo_stream [''o''] None demo_client = (c1, n, None) \<and> cl_received c1 = ''o''
     \<and> map_option resp_Body (fw_Response demo_stream) = Some (CopiedBody ''ok'' None)
     \<and> copy_reply demo_stream [''o'', ''k''] None demo_client = io_Copy flushWriter_Write [''k''] None n c1"
proof -
  have s: "\<exists>u. fw_Sent demo_stream = Some u" and f: "fw_Flushed demo_stream"
    by (simp_all add: forwardRequest_def demo_link_def exchange_with_def)
  then obtain u where u: "fw_Sent demo_stream = Some u" by blast
  have c: "\<exists>c1 n. copy_reply demo_stream [''o''] None demo_client = (c1, n, None)"
    by (simp add: f copy_reply_def flushWriter_Write_def response_Write_def controller_Flush_def demo_client_def next_event_def spill_def)
  have v: "vllm demo_link u = Inr \<lparr>upr_Status = 200, upr_Header = [(''X-Id'', [''1''])], upr_Body = demo_reader ''ok''\<rparr>"
    "ctx_at_start demo_link = None" by (simp_all add: demo_link_def)
  have d: "concat ([''o''] @ [''k'']) = rd_data (upr_Body \<lparr>upr_Status = 200, upr_Header = [(''X-Id'', [''1''])], upr_Body = demo_reader ''ok''\<rparr>)"
    "cl_buffer demo_client = []" by (simp_all add: demo_reader_def demo_client_def)
  have r: "rd_err (demo_reader s) = None" "cl_received demo_client = []" for s by (simp_all add: demo_reader_def demo_client_def)
  obtain c1 n where c1: "copy_reply demo_stream [''o''] None demo_client = (c1, n, None)" using c by blast
  show ?thesis
    using streaming_prompt [OF disjI1 [OF conjI [OF HOL.refl HOL.refl]] u v d(1) HOL.refl d(2)]
    by (intro exI [of _ c1] exI [of _ n]) (simp add: c1 r del: io_Copy.simps)
qed

section \<open>Slots\<close>

theorem slots_exact_witness:
  "snd (admit 1 (fst (admit 0 (new_limiter (demo_settings\<lparr>MaxConcurrentRequests := 1\<rparr>))))) = Some busy_error"
proof -
  let ?s = "demo_settings\<lparr>MaxConcurrentRequests := 1\<rparr>"
  let ?l = "fst (admit 0 (new_limiter ?s))"
  have l: "?l = \<lparr>slots = Some 1, tokens = 1, handlers = (\<lambda>_. None)(0 := Some \<lparr>released = False, wroteHeader = False, final_status = None\<rparr>)\<rparr>"
    by (simp add: admit_def new_limiter_def Let_def)
  have r: "slot_reach (new_limiter ?s) ?l"
    by (rule slot_reach.more [OF slot_reach.here slot_step.arrive]) (simp add: new_limiter_def)
  have "int (tokens ?l) = int (card (occupying ?l)) \<and> (handlers ?l 1 = None \<longrightarrow>
       (snd (admit 1 ?l) = Some busy_error \<longleftrightarrow> int (card (occupying ?l)) = MaxConcurrentRequests ?s))"
    using slots_exact [OF r] by simp
  then show ?thesis unfolding l by simp
qed

section \<open>Pages\<close>

definition open_settings :: Config where
  "open_settings = demo_settings\<lparr>GatewayAuthRequired := False\<rparr>"

definition two_rows :: table where
  "two_rows = [sample_file, sample_file\<lparr>ID := ''file_b''\<rparr>]"

theorem pagination_complete_witness:
  "\<exists>fs. follow_pages 3 (\<lambda>after. listFiles demo_env open_settings NoFault NoFault 150 None
      (with_after (demo_request ''GET'' ''/v1/files'' []) after) two_rows) [] = Some (map openAIFile fs) \<and> map ID fs = [''file_b'', ''file_a'']"
proof -
  let ?r = "demo_request ''GET'' ''/v1/files'' []"
  let ?q = "\<lparr>lq_limit = 1, lq_order = ''desc'', lq_purpose = [], lq_after = []\<rparr>"
  have "ParseInt ''1'' = Some 1" by code_simp
  then have p: "parse_list ?r = Inr ?q" by (simp add: parse_list_def demo_request_def Let_def)
  have t: "tenantID demo_env open_settings ?r = Inr SharedTenantID"
    by (simp add: tenantID_def open_settings_def)
  have db: "db_inv two_rows" "\<forall>f \<in> set two_rows. ID f \<noteq> []" by (simp_all add: two_rows_def db_inv_def sample_file_def)
  have "map ID (order_rows ''desc'' (filter (listable 150 SharedTenantID []) two_rows)) = [''file_b'', ''file_a'']"
    by code_simp
  moreover have "Suc (length two_rows) = 3" by (simp add: two_rows_def)
  ultimately show ?thesis using pagination_complete [OF db t p, of 150 None]
    by (intro exI [of _ "order_rows ''desc'' (filter (listable 150 SharedTenantID []) two_rows)"]) simp
qed

section \<open>Inference\<close>

definition file_json :: json where
  "file_json = JObj [(''type'', JStr ''input_file''), (''filename'', JStr ''a.txt''), (''file_data'', JStr ''aGk='')]"

definition text_json :: json where
  "text_json = JObj [(''type'', JStr ''input_text''), (''text'', JStr ''q'')]"

definition demo_payload :: "(string \<times> json) list" where
  "demo_payload = [(''model'', JStr ''m''), (''input'', JArr [JObj [(''role'', JStr ''user''), (''content'', JArr [file_json, text_json])]])]"

definition json_env :: env where
  "json_env = demo_env\<lparr>json_parse := (\<lambda>_. Some (JObj demo_payload)), json_text := (\<lambda>_. ''json'')\<rparr>"

definition json_dispatcher :: Dispatcher where
  "json_dispatcher = NewDispatcher json_env (NewInTreeRegistry json_env) DefaultConverterConfig"

definition demo_work :: work where
  "demo_work = \<lparr>wk_svc = demo_start\<lparr>svc_os := \<lparr>nodes = [([''data''], Dir), ([''data'', ''work''], Dir)], faults = [], rm_faults = [], ctx_polls = None\<rparr>\<rparr>,
     wk_net = demo_net, wk_temporary = [], wk_polls = [], wk_names = [''1'']\<rparr>"

lemma demo_decodes: "DecodeString ''aGk='' = Some ''hi''"
proof -
  have "char_of (104 :: nat) = CHR ''h''" "char_of (105 :: nat) = CHR ''i''" by code_simp+
  then show ?thesis
    by (simp add: DecodeString_def line_break_def b64_last_def b64_value_def b64_digit_def b64_bytes_def)
qed

lemma demo_prepared:
  "prepareDocument json_env demo_settings json_dispatcher W (case file_json of JObj kvs \<Rightarrow> kvs | _ \<Rightarrow> []) t p demo_work =
     convert_inline json_env demo_settings json_dispatcher p (''hi'', ''a.txt'') demo_work"
  by (simp add: prepareDocument_def file_json_def given_def str_field_def field_def inline_content_def
     demo_decodes has_prefix_def and_then_def returns_def check_ctx_def on_os_def unless_cancelled_def ctx_Err_def demo_work_def)

definition demo_document :: "work \<times> json list result" where
  "demo_document = and_then (convert_inline json_env demo_settings json_dispatcher ''input[0].content[0]'' (''hi'', ''a.txt''))
     (expand_document json_env demo_settings Responses ''input[0].content[0]'') demo_work"

lemma demo_document_ok: "case demo_document of (s, r) \<Rightarrow> \<not> isl r \<and> ctx_polls (svc_os (wk_svc s)) = None"
  by code_simp

lemma demo_param: "part_param Responses 0 0 = ''input[0].content[0]''"
  by code_simp

lemma demo_part: "\<exists>s1 parts. expand_part json_env demo_settings json_dispatcher W Responses t (part_param Responses 0 0) file_json demo_work = (s1, Inr parts)
    \<and> ctx_polls (svc_os (wk_svc s1)) = None"
proof -
  have f: "file_part Responses file_json" by (simp add: file_part_def file_json_def field_def)
  obtain s1 r where 1: "demo_document = (s1, r)" by fastforce
  have "expand_part json_env demo_settings json_dispatcher W Responses t (part_param Responses 0 0) file_json demo_work = demo_document"
    by (simp add: expand_part_def f reference_of_def and_then_def demo_prepared demo_document_def demo_param)
  moreover obtain parts where "r = Inr parts" using demo_document_ok [unfolded 1 prod.case] by (cases r) simp_all
  ultimately show ?thesis using demo_document_ok [unfolded 1 prod.case] 1
    by (intro exI [of _ s1] exI [of _ parts]) simp
qed

lemma demo_expanded: "\<exists>s1 payload. expand_payload json_env demo_settings json_dispatcher W Responses t demo_payload demo_work = (s1, Inr (payload, True))
    \<and> ctx_polls (svc_os (wk_svc s1)) = None"
proof -
  obtain s1 parts where 1: "expand_part json_env demo_settings json_dispatcher W Responses t (part_param Responses 0 0) file_json demo_work = (s1, Inr parts)"
    and 2: "ctx_polls (svc_os (wk_svc s1)) = None" using demo_part by blast
  have f: "file_part Responses file_json" "\<not> file_part Responses text_json"
    by (simp_all add: file_part_def file_json_def text_json_def field_def)
  have "expand_part json_env demo_settings json_dispatcher W Responses t p text_json s = (s, Inr [text_json])" for p s
    using f(2) by (simp add: expand_part_def returns_def)
  then show ?thesis using 1 2 f
    by (simp add: expand_payload_def demo_payload_def field_def items_key_def content_parts_def and_then_def returns_def split_def)
qed

abbreviation demo_run :: "work \<times> forwarded" where
  "demo_run \<equiv> handleInference json_env demo_link demo_settings json_dispatcher (demo_web []) Responses (demo_request ''POST'' ''/v1/responses'' ''{}'') demo_work"

lemma demo_forwarded: "\<exists>s' fw u. demo_run = (s', fw) \<and> fw_Sent fw = Some u"
proof -
  let ?r = "demo_request ''POST'' ''/v1/responses'' ''{}''"
  obtain t where t: "tenantID json_env demo_settings ?r = Inr t" using demo_tenant by blast
  obtain s1 payload where 1: "expand_payload json_env demo_settings json_dispatcher (demo_web []) Responses t demo_payload demo_work = (s1, Inr (payload, True))"
    and 2: "ctx_polls (svc_os (wk_svc s1)) = None" using demo_expanded by blast
  have b: "read_request_body demo_settings (req_Body ?r) = Inr ''{}''"
    by (simp add: read_request_body_def demo_settings_def demo_request_def demo_reader_def)
  have j: "json_parse json_env ''{}'' = Some (JObj demo_payload)" by (simp add: json_env_def)
  have h: "hasFileReference Responses demo_payload"
    by (simp add: hasFileReference_def demo_payload_def field_def items_key_def content_parts_def file_part_def file_json_def)
  have m: "field demo_payload ''model'' = Some (JStr (VLLMModel demo_settings))"
    by (simp add: demo_payload_def field_def demo_settings_def)
  show ?thesis using 2
    by (simp add: handleInference_def t b j h m forward_expanded_def 1 check_ctx_def on_os_def unless_cancelled_def
      returns_def ctx_Err_def forwardJSON_def exchange_with_def demo_link_def Let_def split_def)
qed


theorem inference_leaves_nothing_witness:
  "\<exists>s' fw u. demo_run = (s', fw) \<and> fw_Sent fw = Some u \<and> wk_temporary s' = [] \<and>
     node_at (svc_os (wk_svc s')) [''data'', ''work'', ''gateway-request-1''] = None"
proof -
  obtain s' fw u where 1: "demo_run = (s', fw)" "fw_Sent fw = Some u" using demo_forwarded by blast
  have ok: "renderer_ok json_env" using demo_env_ok by (simp add: renderer_ok_def json_env_def)
  have w: "lease_ok (svc_regs (wk_svc demo_work))" "rm_faults (svc_os (wk_svc demo_work)) = []" "wk_temporary demo_work = []"
    "node_at (svc_os (wk_svc demo_work)) [''data'', ''work'', ''gateway-request-1''] = None"
    by (simp_all add: demo_work_def demo_start_def registers_init_def lease_ok_def node_at_def)
  have d: "\<not> below [''data'', ''work'', ''gateway-request-1''] (work_dir demo_settings)"
    by code_simp
  show ?thesis
    using inference_leaves_nothing [OF ok w(1,2,3) 1(1) [unfolded json_dispatcher_def]] 1 d w(4) by metis
qed

section \<open>The gateway\<close>

definition demo_call :: call where
  "demo_call = \<lparr>call_flt1 = NoFault, call_flt2 = NoFault, call_flt3 = NoFault, call_now = 150, call_random = Inr demo_rnd, call_ctx = None,
     call_form = \<lparr>FormFile = (\<lambda>_. Inl (Opaque ''no form'')), FormValue = (\<lambda>_. []), json_struct = (\<lambda>_. None), json_fold = (\<lambda>s. s)\<rparr>,
     call_mux = writeError no_such_file\<rparr>"

theorem gateway_gate_witness:
  "\<exists>fw response. serve demo_env demo_link demo_settings demo_dispatcher (demo_web []) demo_call 0 (new_limiter demo_settings)
     (demo_request ''GET'' ''/v1/models'' []\<lparr>req_Header := []\<rparr>) demo_work = (demo_work, fw) \<and>
     fw_Sent fw = None \<and> fw_Response fw = Some response \<and> resp_Status response \<in> {401, 429}"
proof -
  let ?r = "demo_request ''GET'' ''/v1/models'' []\<lparr>req_Header := []\<rparr>"
  obtain s' fw where 1: "serve demo_env demo_link demo_settings demo_dispatcher (demo_web []) demo_call 0 (new_limiter demo_settings) ?r demo_work = (s', fw)"
    by fastforce
  have a: "\<not> authorized demo_settings ?r"
    by (simp add: authorized_def demo_settings_def header_Get_def header_Values_def)
  have "route ''GET'' ''/v1/models'' = Passthrough ''models''" by code_simp
  then have "route (req_Method ?r) (req_Path ?r) \<notin> {Health, ByMux}" by (simp add: demo_request_def)
  then show ?thesis using gateway_gate [OF 1] a 1 by blast
qed

end
