(* ===== verification/Response_Context.thy ===== *)
theory Response_Context
  imports Proxy Upload_To_Inference
begin

text \<open>
  \<open>withRequestTimeout\<close> in \<open>internal/server/server.go\<close> and \<open>responseContext\<close> in \<open>internal/server/proxy.go\<close>:
  the contexts of a request that is forwarded, and how long each of them lives. The part of package
  \<open>context\<close> that they use is modelled: the tree of contexts, timers, the propagation of a cancellation
  from parent to child and the goroutine of \<open>AfterFunc\<close>, each as a step of its own, so that they
  interleave with the handler. What follows the handler, the deferred \<open>cancel\<close> of the timeout, is left
  out. Times are nanoseconds.
\<close>

section \<open>Contexts\<close>

text \<open>\<open>cx_timer\<close>: the context has a timer of its own; otherwise its deadline is that of the parent.\<close>

record go_context =
  cx_parent :: "nat option"
  cx_Deadline :: "int option"
  cx_timer :: bool
  cx_Err :: "go_error option"

type_synonym contexts = "nat \<Rightarrow> go_context option"

text \<open>The states of an \<open>AfterFunc\<close>: registered, stopped, its goroutine started, its function called.\<close>

datatype after_func = Armed | Halted | Launched | Called

definition WithTimeout :: "nat \<Rightarrow> go_context \<Rightarrow> int \<Rightarrow> int \<Rightarrow> go_context" where
  "WithTimeout p c now timeout =
     (if holds (\<lambda>d. d < now + timeout) (cx_Deadline c)
      then \<lparr>cx_parent = Some p, cx_Deadline = cx_Deadline c, cx_timer = False, cx_Err = None\<rparr>
      else \<lparr>cx_parent = Some p, cx_Deadline = Some (now + timeout), cx_timer = True, cx_Err = None\<rparr>)"

definition WithCancel :: "nat \<Rightarrow> go_context \<Rightarrow> go_context" where
  "WithCancel p c = \<lparr>cx_parent = Some p, cx_Deadline = cx_Deadline c, cx_timer = False, cx_Err = None\<rparr>"

text \<open>A context keeps its first error.\<close>

definition cancel_with :: "nat \<Rightarrow> go_error \<Rightarrow> contexts \<Rightarrow> contexts" where
  "cancel_with i e cs = cs(i := map_option (\<lambda>c. c\<lparr>cx_Err := (case cx_Err c of None \<Rightarrow> Some e | Some x \<Rightarrow> Some x)\<rparr>) (cs i))"

definition context_Err :: "contexts \<Rightarrow> nat \<Rightarrow> go_error option" where
  "context_Err cs i = Option.bind (cs i) cx_Err"

definition context_Deadline :: "contexts \<Rightarrow> nat \<Rightarrow> int option" where
  "context_Deadline cs i = Option.bind (cs i) cx_Deadline"

section \<open>The handler\<close>

text \<open>The points at which the handler of a forwarded request can be: it sends the request and reads the
  start of the reply, it is inside \<open>startResponse\<close>, it copies the reply, or it has returned.\<close>

datatype phase = Asking | Checking | Granted | Refused go_error | Copying | Over

text \<open>Context 0 is that of the client, which the HTTP server cancels when the client is gone.\<close>

record exchange =
  ex_now :: int
  ex_contexts :: contexts
  request_context :: nat
  client_value :: "nat option"
  client_context :: nat
  upstream_context :: nat
  ex_after :: after_func
  read_deadline :: "int option"
  write_deadline :: "int option"
  ex_phase :: phase

definition accepted :: "int \<Rightarrow> go_context \<Rightarrow> exchange" where
  "accepted now c = \<lparr>ex_now = now, ex_contexts = [0 \<mapsto> c], request_context = 0, client_value = None, client_context = 0,
     upstream_context = 0, ex_after = Halted, read_deadline = None, write_deadline = None, ex_phase = Asking\<rparr>"

definition withRequestTimeout :: "Config \<Rightarrow> exchange \<Rightarrow> exchange" where
  "withRequestTimeout settings s =
     (let s1 = s\<lparr>client_value := Some (request_context s)\<rparr>;
          s2 = (if RequestTimeout settings > 0 then (case ex_contexts s1 (request_context s1) of
                  None \<Rightarrow> s1
                | Some c \<Rightarrow> s1\<lparr>ex_contexts := (ex_contexts s1)(1 \<mapsto> WithTimeout (request_context s1) c (ex_now s1) (RequestTimeout settings)),
                    request_context := 1\<rparr>) else s1)
      in case context_Deadline (ex_contexts s2) (request_context s2) of
           None \<Rightarrow> s2 | Some d \<Rightarrow> s2\<lparr>read_deadline := Some d\<rparr>)"

definition responseContext :: "exchange \<Rightarrow> exchange" where
  "responseContext s =
     (let client = (case client_value s of None \<Rightarrow> request_context s | Some c \<Rightarrow> c) in
      case ex_contexts s client of
        None \<Rightarrow> s
      | Some c \<Rightarrow> s\<lparr>client_context := client, ex_contexts := (ex_contexts s)(2 \<mapsto> WithCancel client c),
          upstream_context := 2, ex_after := Armed, ex_phase := Asking\<rparr>)"

definition stopTimeout :: "exchange \<Rightarrow> exchange" where
  "stopTimeout s = (if ex_after s = Armed then s\<lparr>ex_after := Halted\<rparr> else s)"

text \<open>\<open>startResponse\<close> in three steps.\<close>

definition start_stop :: "exchange \<Rightarrow> exchange" where
  "start_stop s = (stopTimeout s)\<lparr>ex_phase := Checking\<rparr>"

definition start_check :: "exchange \<Rightarrow> exchange" where
  "start_check s = s\<lparr>ex_phase := (case context_Err (ex_contexts s) (request_context s) of Some e \<Rightarrow> Refused e | None \<Rightarrow> Granted)\<rparr>"

definition start_deadlines :: "exchange \<Rightarrow> exchange" where
  "start_deadlines s = (let deadline = context_Deadline (ex_contexts s) (client_context s)
     in s\<lparr>read_deadline := deadline, write_deadline := deadline, ex_phase := Copying\<rparr>)"

text \<open>The deferred function that \<open>responseContext\<close> returns last.\<close>

definition response_cleanup :: "exchange \<Rightarrow> exchange" where
  "response_cleanup s = (stopTimeout s)\<lparr>ex_contexts := cancel_with (upstream_context s) Canceled (ex_contexts s), ex_phase := Over\<rparr>"

section \<open>Steps\<close>

inductive exchange_step :: "exchange \<Rightarrow> exchange \<Rightarrow> bool" where
  time: "0 \<le> d \<Longrightarrow> exchange_step s (s\<lparr>ex_now := ex_now s + d\<rparr>)"
| disconnect: "exchange_step s (s\<lparr>ex_contexts := cancel_with 0 Canceled (ex_contexts s)\<rparr>)"
| expire: "ex_contexts s i = Some c \<Longrightarrow> cx_timer c \<Longrightarrow> cx_Deadline c = Some d \<Longrightarrow> d \<le> ex_now s \<Longrightarrow>
    exchange_step s (s\<lparr>ex_contexts := cancel_with i DeadlineExceeded (ex_contexts s)\<rparr>)"
| inherit: "ex_contexts s i = Some c \<Longrightarrow> cx_parent c = Some p \<Longrightarrow> context_Err (ex_contexts s) p = Some e \<Longrightarrow>
    exchange_step s (s\<lparr>ex_contexts := cancel_with i e (ex_contexts s)\<rparr>)"
| launch: "ex_after s = Armed \<Longrightarrow> context_Err (ex_contexts s) (request_context s) \<noteq> None \<Longrightarrow>
    exchange_step s (s\<lparr>ex_after := Launched\<rparr>)"
| call: "ex_after s = Launched \<Longrightarrow>
    exchange_step s (s\<lparr>ex_contexts := cancel_with (upstream_context s) Canceled (ex_contexts s), ex_after := Called\<rparr>)"
| stop: "ex_phase s = Asking \<Longrightarrow> exchange_step s (start_stop s)"
| check: "ex_phase s = Checking \<Longrightarrow> exchange_step s (start_check s)"
| grant: "ex_phase s = Granted \<Longrightarrow> exchange_step s (start_deadlines s)"
| over: "ex_phase s = Asking \<or> ex_phase s = Copying \<or> ex_phase s = Refused e \<Longrightarrow> exchange_step s (response_cleanup s)"

inductive_cases exchange_stepE: "exchange_step s s'"

inductive exchange_reach :: "exchange \<Rightarrow> exchange \<Rightarrow> bool" where
  here: "exchange_reach s s"
| more: "exchange_reach s s' \<Longrightarrow> exchange_step s' s'' \<Longrightarrow> exchange_reach s s''"

lemmas exchange_ops = stopTimeout_def start_stop_def start_check_def start_deadlines_def response_cleanup_def

section \<open>The invariant\<close>

lemma cancel_with_at: "cancel_with i e cs j = (if j = i then map_option (\<lambda>c. c\<lparr>cx_Err := (case cx_Err c of None \<Rightarrow> Some e | Some x \<Rightarrow> Some x)\<rparr>) (cs i) else cs j)"
  by (simp add: cancel_with_def)

lemma context_Err_cancel: "context_Err (cancel_with i e cs) j =
    (if j = i \<and> cs i \<noteq> None \<and> context_Err cs i = None then Some e else context_Err cs j)"
  by (cases "cs i") (auto simp: context_Err_def cancel_with_at split: option.splits)

lemma context_Deadline_cancel [simp]: "context_Deadline (cancel_with i e cs) j = context_Deadline cs j"
  by (cases "cs i") (auto simp: context_Deadline_def cancel_with_at)

text \<open>What never changes: the shape of the tree.\<close>

definition shape :: "contexts \<Rightarrow> nat \<Rightarrow> (nat option \<times> int option \<times> bool) option" where
  "shape cs i = map_option (\<lambda>c. (cx_parent c, cx_Deadline c, cx_timer c)) (cs i)"

lemma shape_cancel [simp]: "shape (cancel_with i e cs) = shape cs"
  by (rule ext) (auto simp: shape_def cancel_with_at option.map_comp comp_def)

lemma shape_at: "cs i = Some (c :: go_context) \<Longrightarrow> shape cs i = Some (cx_parent c, cx_Deadline c, cx_timer c)"
  by (simp add: shape_def)

lemma shape_Some: "shape cs i = Some (p, d, t) \<Longrightarrow> \<exists>c. cs i = Some c \<and> cx_parent c = p \<and> cx_Deadline c = d \<and> cx_timer c = t"
  by (auto simp: shape_def)

lemma shape_Deadline: "shape cs i = Some (p, d, t) \<Longrightarrow> context_Deadline cs i = d"
  by (auto simp: shape_def context_Deadline_def)

text \<open>The context of a connection, and the handler when it sends its request.\<close>

definition root_context :: "go_context \<Rightarrow> bool" where
  "root_context c \<longleftrightarrow> cx_parent c = None \<and> cx_Err c = None \<and> (cx_timer c \<longleftrightarrow> cx_Deadline c \<noteq> None)"

definition begun :: "int \<Rightarrow> go_context \<Rightarrow> Config \<Rightarrow> exchange" where
  "begun now c settings = responseContext (withRequestTimeout settings (accepted now c))"

definition timed_out :: "int \<Rightarrow> Config \<Rightarrow> exchange \<Rightarrow> bool" where
  "timed_out now settings s \<longleftrightarrow> 0 < RequestTimeout settings \<and> now + RequestTimeout settings \<le> ex_now s"

definition tree :: "int \<Rightarrow> go_context \<Rightarrow> Config \<Rightarrow> exchange \<Rightarrow> bool" where
  "tree now c settings s \<longleftrightarrow> client_context s = 0 \<and> upstream_context s = 2 \<and>
     request_context s = (if 0 < RequestTimeout settings then 1 else 0) \<and>
     shape (ex_contexts s) = (\<lambda>i. if i = 0 then Some (None, cx_Deadline c, cx_timer c)
       else if i = 1 \<and> 0 < RequestTimeout settings then
         (if holds (\<lambda>d. d < now + RequestTimeout settings) (cx_Deadline c) then Some (Some 0, cx_Deadline c, False)
          else Some (Some 0, Some (now + RequestTimeout settings), True))
       else if i = 2 then Some (Some 0, cx_Deadline c, False) else None)"

definition errors_ok :: "contexts \<Rightarrow> bool" where
  "errors_ok cs \<longleftrightarrow> (\<forall>i e. context_Err cs i = Some e \<longrightarrow> e = Canceled \<or> e = DeadlineExceeded)"

lemma errors_ok_cancel: "errors_ok cs \<Longrightarrow> e = Canceled \<or> e = DeadlineExceeded \<Longrightarrow> errors_ok (cancel_with i e cs)"
  unfolding errors_ok_def context_Err_cancel by (auto split: if_splits)

lemma errors_okD: "errors_ok cs \<Longrightarrow> context_Err cs i = Some e \<Longrightarrow> e = Canceled \<or> e = DeadlineExceeded"
  unfolding errors_ok_def by blast

abbreviation err_at :: "exchange \<Rightarrow> nat \<Rightarrow> go_error option" where
  "err_at s i \<equiv> context_Err (ex_contexts s) i"

text \<open>The heart of the invariant, over what it is about: whether the client is gone and the call to the
  model server is cancelled, the error of the request's context, whether the timeout has passed.\<close>

definition agreement :: "bool \<Rightarrow> bool \<Rightarrow> go_error option \<Rightarrow> bool \<Rightarrow> after_func \<Rightarrow> phase \<Rightarrow> bool" where
  "agreement left ended err late a ph \<longleftrightarrow>
     (err \<noteq> None \<longrightarrow> left \<or> late) \<and> (ended \<longrightarrow> left \<or> a = Called \<or> ph = Over) \<and>
     (a = Launched \<or> a = Called \<longrightarrow> err \<noteq> None) \<and> (a = Called \<longrightarrow> ended) \<and>
     (a = Armed \<longrightarrow> ph = Asking) \<and> (ph = Asking \<longrightarrow> a \<noteq> Halted) \<and>
     (ph = Granted \<or> ph = Copying \<longrightarrow> a = Halted) \<and> (\<forall>e. ph = Refused e \<longrightarrow> err = Some e)"

lemma agreement_mono:
  "agreement left ended err late a ph \<Longrightarrow> left \<longrightarrow> left' \<Longrightarrow> late \<longrightarrow> late' \<Longrightarrow> ended \<longrightarrow> ended' \<Longrightarrow> (ended' \<longrightarrow> ended \<or> left') \<Longrightarrow>
     (err \<noteq> None \<longrightarrow> err' = err) \<Longrightarrow> (err' \<noteq> None \<longrightarrow> err \<noteq> None \<or> left' \<or> late') \<Longrightarrow> agreement left' ended' err' late' a ph"
  unfolding agreement_def by (cases err; cases a; cases ph) auto

lemma agreementD:
  assumes "agreement left ended err late a ph"
  shows "err \<noteq> None \<Longrightarrow> left \<or> late" and "ph = Granted \<or> ph = Copying \<Longrightarrow> ended \<Longrightarrow> left"
    and "ph = Refused e \<Longrightarrow> err = Some e"
proof -
  show "err \<noteq> None \<Longrightarrow> left \<or> late" "ph = Refused e \<Longrightarrow> err = Some e" using assms unfolding agreement_def by blast+
  show left if p: "ph = Granted \<or> ph = Copying" and ended
  proof -
    have "left \<or> a = Called \<or> ph = Over" "a = Halted" using assms p \<open>ended\<close> unfolding agreement_def by blast+
    then show ?thesis using p by auto
  qed
qed

lemma agreement_after:
  "agreement left ended err late Armed ph \<Longrightarrow> err \<noteq> None \<Longrightarrow> agreement left ended err late Launched ph"
  "agreement left ended err late Launched ph \<Longrightarrow> agreement left True err late Called ph"
  "agreement left ended err late a Asking \<Longrightarrow> (a = Armed \<longrightarrow> agreement left ended err late Halted Checking) \<and> (a \<noteq> Armed \<longrightarrow> agreement left ended err late a Checking)"
  "agreement left ended err late a Checking \<Longrightarrow> agreement left ended err late a (case err of Some e \<Rightarrow> Refused e | None \<Rightarrow> Granted)"
  "agreement left ended err late a Granted \<Longrightarrow> agreement left ended err late a Copying"
  "agreement left ended err late a ph \<Longrightarrow> (a = Armed \<longrightarrow> agreement left True err late Halted Over) \<and> (a \<noteq> Armed \<longrightarrow> agreement left True err late a Over)"
  by (cases err; cases a; auto simp: agreement_def)+

definition exchange_inv :: "int \<Rightarrow> go_context \<Rightarrow> Config \<Rightarrow> exchange \<Rightarrow> bool" where
  "exchange_inv now c settings s \<longleftrightarrow>
     agreement (err_at s 0 \<noteq> None) (err_at s 2 \<noteq> None) (err_at s (request_context s)) (timed_out now settings s) (ex_after s) (ex_phase s) \<and>
     (ex_phase s = Copying \<longrightarrow> read_deadline s = cx_Deadline c \<and> write_deadline s = cx_Deadline c)"

lemma begun_eq:
  assumes "root_context c"
  shows "\<exists>cs rd. begun now c settings = \<lparr>ex_now = now, ex_contexts = cs, request_context = (if 0 < RequestTimeout settings then 1 else 0),
      client_value = Some 0, client_context = 0, upstream_context = 2, ex_after = Armed, read_deadline = rd, write_deadline = None, ex_phase = Asking\<rparr> \<and>
    cs = (if 0 < RequestTimeout settings then [0 \<mapsto> c, 1 \<mapsto> WithTimeout 0 c now (RequestTimeout settings), 2 \<mapsto> WithCancel 0 c]
       else [0 \<mapsto> c, 2 \<mapsto> WithCancel 0 c])"
proof (cases "0 < RequestTimeout settings")
  case True
  then show ?thesis
    by (cases "cx_Deadline (WithTimeout 0 c now (RequestTimeout settings))")
      (simp_all add: begun_def responseContext_def withRequestTimeout_def accepted_def context_Deadline_def)
next
  case False
  then show ?thesis
    by (cases "cx_Deadline c") (simp_all add: begun_def responseContext_def withRequestTimeout_def accepted_def context_Deadline_def)
qed

lemma begun_inv:
  assumes "root_context c"
  shows "tree now c settings (begun now c settings) \<and> errors_ok (ex_contexts (begun now c settings)) \<and>
    exchange_inv now c settings (begun now c settings)"
proof -
  obtain cs rd where b: "begun now c settings = \<lparr>ex_now = now, ex_contexts = cs, request_context = (if 0 < RequestTimeout settings then 1 else 0),
      client_value = Some 0, client_context = 0, upstream_context = 2, ex_after = Armed, read_deadline = rd, write_deadline = None, ex_phase = Asking\<rparr>"
    and cs: "cs = (if 0 < RequestTimeout settings then [0 \<mapsto> c, 1 \<mapsto> WithTimeout 0 c now (RequestTimeout settings), 2 \<mapsto> WithCancel 0 c]
       else [0 \<mapsto> c, 2 \<mapsto> WithCancel 0 c])"
    using begun_eq [OF assms] by blast
  have e: "context_Err cs i = None" for i
    using assms by (simp add: cs context_Err_def WithTimeout_def WithCancel_def root_context_def)
  have "shape cs = (\<lambda>i. if i = 0 then Some (None, cx_Deadline c, cx_timer c)
       else if i = 1 \<and> 0 < RequestTimeout settings then
         (if holds (\<lambda>d. d < now + RequestTimeout settings) (cx_Deadline c) then Some (Some 0, cx_Deadline c, False)
          else Some (Some 0, Some (now + RequestTimeout settings), True))
       else if i = 2 then Some (Some 0, cx_Deadline c, False) else None)"
    using assms by (intro ext) (simp add: cs shape_def WithTimeout_def WithCancel_def root_context_def)
  then show ?thesis by (simp add: b e tree_def errors_ok_def exchange_inv_def agreement_def)
qed

text \<open>The tree and the errors of its contexts.\<close>

lemma tree_cong:
  "tree now c settings s \<Longrightarrow> shape (ex_contexts s') = shape (ex_contexts s) \<Longrightarrow> client_context s' = client_context s \<Longrightarrow>
     upstream_context s' = upstream_context s \<Longrightarrow> request_context s' = request_context s \<Longrightarrow> tree now c settings s'"
  by (simp add: tree_def)

lemma exchange_step_tree:
  "exchange_step s s' \<Longrightarrow> tree now c settings s \<Longrightarrow> tree now c settings s'"
  by (erule exchange_step.cases) (auto elim!: tree_cong simp: exchange_ops Let_def)

lemma exchange_step_errors:
  "exchange_step s s' \<Longrightarrow> errors_ok (ex_contexts s) \<Longrightarrow> errors_ok (ex_contexts s')"
  by (erule exchange_step.cases) (auto simp: exchange_ops Let_def intro!: errors_ok_cancel dest: errors_okD)

lemma treeD:
  assumes "tree now c settings s"
  shows "client_context s = 0" "upstream_context s = 2" "request_context s = (if 0 < RequestTimeout settings then 1 else 0)"
    and "\<exists>x. ex_contexts s 2 = Some x \<and> cx_parent x = Some 0 \<and> cx_Deadline x = cx_Deadline c \<and> \<not> cx_timer x"
    and "\<exists>x. ex_contexts s 0 = Some x \<and> cx_parent x = None \<and> cx_Deadline x = cx_Deadline c \<and> cx_timer x = cx_timer c"
    and "0 < RequestTimeout settings \<Longrightarrow> \<exists>x. ex_contexts s 1 = Some x \<and> cx_parent x = Some 0 \<and>
      (if holds (\<lambda>d. d < now + RequestTimeout settings) (cx_Deadline c) then cx_Deadline x = cx_Deadline c \<and> \<not> cx_timer x
       else cx_Deadline x = Some (now + RequestTimeout settings) \<and> cx_timer x)"
    and "context_Deadline (ex_contexts s) 0 = cx_Deadline c"
proof -
  note t = assms [unfolded tree_def]
  show "client_context s = 0" "upstream_context s = 2" "request_context s = (if 0 < RequestTimeout settings then 1 else 0)" using t by auto
  have sh: "shape (ex_contexts s) i = (if i = 0 then Some (None, cx_Deadline c, cx_timer c)
       else if i = 1 \<and> 0 < RequestTimeout settings then
         (if holds (\<lambda>d. d < now + RequestTimeout settings) (cx_Deadline c) then Some (Some 0, cx_Deadline c, False)
          else Some (Some 0, Some (now + RequestTimeout settings), True))
       else if i = 2 then Some (Some 0, cx_Deadline c, False) else None)" for i using t by simp
  show "\<exists>x. ex_contexts s 2 = Some x \<and> cx_parent x = Some 0 \<and> cx_Deadline x = cx_Deadline c \<and> \<not> cx_timer x"
    using sh [of 2] by (auto dest!: shape_Some)
  show "\<exists>x. ex_contexts s 0 = Some x \<and> cx_parent x = None \<and> cx_Deadline x = cx_Deadline c \<and> cx_timer x = cx_timer c"
    using sh [of 0] by (auto dest!: shape_Some)
  show "\<exists>x. ex_contexts s 1 = Some x \<and> cx_parent x = Some 0 \<and>
      (if holds (\<lambda>d. d < now + RequestTimeout settings) (cx_Deadline c) then cx_Deadline x = cx_Deadline c \<and> \<not> cx_timer x
       else cx_Deadline x = Some (now + RequestTimeout settings) \<and> cx_timer x)" if "0 < RequestTimeout settings"
    using sh [of 1] that by (cases "holds (\<lambda>d. d < now + RequestTimeout settings) (cx_Deadline c)") (auto dest!: shape_Some)
  show "context_Deadline (ex_contexts s) 0 = cx_Deadline c" using sh [of 0] shape_Deadline by fastforce
qed

lemma inherits_from_client:
  assumes "tree now c settings s" and "ex_contexts s i = Some x" and "cx_parent x = Some p"
  shows "p = 0"
  using assms(1) shape_at [where cs = "ex_contexts s" and i = i and c = x, OF assms(2)] assms(3) by (auto simp: tree_def split: if_splits)

lemma expires:
  assumes "tree now c settings s" and "ex_contexts s i = Some x" and "cx_timer x" and "cx_Deadline x = Some d" and "d \<le> ex_now s"
  shows "i = 0 \<or> i = 1 \<and> timed_out now settings s"
  using assms(1) shape_at [where cs = "ex_contexts s" and i = i and c = x, OF assms(2)] assms(3,4,5) by (auto simp: tree_def timed_out_def split: if_splits)

lemma exchange_step_inv:
  assumes "exchange_step s s'" and t: "tree now c settings s" and i: "exchange_inv now c settings s"
  shows "exchange_inv now c settings s'"
  using assms(1)
proof (cases rule: exchange_step.cases)
  case (time d)
  then show ?thesis using i by (auto simp: exchange_inv_def timed_out_def elim!: agreement_mono)
next
  case disconnect
  have "ex_contexts s 0 \<noteq> None" using treeD(5) [OF t] by auto
  then show ?thesis using i unfolding disconnect
    by (auto simp: exchange_inv_def timed_out_def context_Err_cancel elim!: agreement_mono)
next
  case (expire j x d)
  then show ?thesis using i expires [OF t expire(2-5)] treeD(3) [OF t]
    by (auto simp: exchange_inv_def timed_out_def context_Err_cancel elim!: agreement_mono)
next
  case (inherit j x p e)
  then show ?thesis using i inherits_from_client [OF t inherit(2,3)]
    by (auto simp: exchange_inv_def timed_out_def context_Err_cancel elim!: agreement_mono)
next
  case launch
  then show ?thesis using i agreement_after(1) by (simp add: exchange_inv_def timed_out_def)
next
  case call
  then show ?thesis using i treeD(2-4) [OF t] agreement_after(2) by (auto simp: exchange_inv_def timed_out_def context_Err_cancel)
next
  case stop
  then show ?thesis using i agreement_after(3) by (simp add: exchange_inv_def timed_out_def exchange_ops)
next
  case check
  then show ?thesis using i agreement_after(4) by (simp add: exchange_inv_def timed_out_def exchange_ops split: option.splits)
next
  case grant
  then show ?thesis using i treeD(1,7) [OF t] agreement_after(5) by (simp add: exchange_inv_def timed_out_def exchange_ops Let_def)
next
  case (over e)
  then show ?thesis using i treeD(2-4) [OF t] agreement_after(6) by (auto simp: exchange_inv_def timed_out_def exchange_ops context_Err_cancel)
qed

lemma reached:
  assumes "exchange_reach (begun now c settings) s" and "root_context c"
  shows "tree now c settings s \<and> errors_ok (ex_contexts s) \<and> exchange_inv now c settings s"
  using assms(1)
proof (induction "begun now c settings" s rule: exchange_reach.induct)
  case here
  then show ?case by (rule begun_inv [OF assms(2)])
next
  case (more s' s'')
  then show ?case using exchange_step_tree exchange_step_errors exchange_step_inv by blast
qed

section \<open>The timeout of a request\<close>

lemma reach_cancelled:
  assumes "exchange_reach s0 s" and "ex_after s = Armed" and "err_at s (request_context s) \<noteq> None" and "ex_contexts s (upstream_context s) \<noteq> None"
  shows "\<exists>s'. exchange_reach s0 s' \<and> ex_phase s' = ex_phase s \<and> ex_now s' = ex_now s \<and> err_at s' (upstream_context s') \<noteq> None"
proof -
  have "exchange_reach s0 (s\<lparr>ex_after := Launched\<rparr>)" by (rule more [OF assms(1) launch [OF assms(2,3)]])
  from more [OF this call] have 1: "exchange_reach s0 (s\<lparr>ex_contexts := cancel_with (upstream_context s) Canceled (ex_contexts s), ex_after := Called\<rparr>)" by simp
  show ?thesis by (rule exI, rule conjI, rule 1) (use assms(4) in \<open>auto simp: context_Err_cancel\<close>)
qed

text \<open>Until the reply starts, a timeout that has passed reaches the call to the model server by steps that
  need no time; so does a client that has gone away, until the handler is over.\<close>

lemma timeout_cancels:
  assumes r: "exchange_reach (begun now c settings) s" and c: "root_context c"
    and a: "ex_phase s = Asking" and late: "timed_out now settings s"
  shows "\<exists>s'. exchange_reach (begun now c settings) s' \<and> ex_phase s' = Asking \<and> ex_now s' = ex_now s \<and> err_at s' (upstream_context s') \<noteq> None"
proof -
  note inv = reached [OF r c]
  then have t: "tree now c settings s" and g: "exchange_inv now c settings s" by auto
  have rc: "request_context s = 1" and pos: "0 < RequestTimeout settings" using treeD(3) [OF t] late by (auto simp: timed_out_def)
  have up: "ex_contexts s (upstream_context s) \<noteq> None" using treeD(2,4) [OF t] by auto
  have "ex_after s = Armed \<or> ex_after s = Launched \<or> ex_after s = Called \<and> err_at s 2 \<noteq> None" using g a
    unfolding exchange_inv_def agreement_def by (cases "ex_after s") auto
  then consider "err_at s 2 \<noteq> None" | "ex_after s = Launched" | "ex_after s = Armed" "err_at s 1 \<noteq> None" | "ex_after s = Armed" "err_at s 1 = None"
    by blast
  then show ?thesis
  proof cases
    case 1
    then show ?thesis using r a treeD(2) [OF t] by auto
  next
    case 2
    show ?thesis by (rule exI, rule conjI, rule more [OF r call [OF 2]]) (use up a in \<open>auto simp: context_Err_cancel\<close>)
  next
    case 3
    then show ?thesis using reach_cancelled [OF r _ _ up] a rc by simp
  next
    case 4
    obtain x where x: "ex_contexts s 1 = Some x" "cx_parent x = Some 0"
      "if holds (\<lambda>d. d < now + RequestTimeout settings) (cx_Deadline c) then cx_Deadline x = cx_Deadline c \<and> \<not> cx_timer x
       else cx_Deadline x = Some (now + RequestTimeout settings) \<and> cx_timer x" using treeD(6) [OF t pos] by blast
    show ?thesis
    proof (cases "holds (\<lambda>d. d < now + RequestTimeout settings) (cx_Deadline c)")
      case False
      then have "exchange_step s (s\<lparr>ex_contexts := cancel_with 1 DeadlineExceeded (ex_contexts s)\<rparr>)"
        using x late by (intro expire [of s 1 x "now + RequestTimeout settings"]) (auto simp: timed_out_def)
      from reach_cancelled [OF more [OF r this]] show ?thesis using 4 rc up a x(1) treeD(2,4) [OF t] by (auto simp: context_Err_cancel cancel_with_at)
    next
      case True
      then obtain d where d: "cx_Deadline c = Some d" "d < now + RequestTimeout settings" by (auto simp: holds_iff)
      obtain y where y: "ex_contexts s 0 = Some y" "cx_Deadline y = Some d" "cx_timer y"
        using treeD(5) [OF t] d c by (auto simp: root_context_def)
      let ?s = "s\<lparr>ex_contexts := cancel_with 0 DeadlineExceeded (ex_contexts s)\<rparr>"
      have 1: "exchange_step s ?s" using y d late by (intro expire [of s 0 y d]) (auto simp: timed_out_def)
      obtain z where z: "ex_contexts s 2 = Some z" "cx_parent z = Some 0" using treeD(4) [OF t] by auto
      have "err_at ?s 0 \<noteq> None" using y(1) by (auto simp: context_Err_cancel)
      then obtain e where e: "err_at ?s 0 = Some e" by blast
      have 2: "exchange_step ?s (?s\<lparr>ex_contexts := cancel_with 2 e (ex_contexts ?s)\<rparr>)"
        using z e by (intro inherit [of ?s 2 z 0 e]) (auto simp: cancel_with_at)
      show ?thesis by (rule exI, rule conjI, rule more [OF more [OF r 1] 2])
        (use z a treeD(2) [OF t] in \<open>auto simp: context_Err_cancel cancel_with_at\<close>)
    qed
  qed
qed

lemma departure_cancels:
  assumes r: "exchange_reach (begun now c settings) s" and c: "root_context c" and e: "err_at s (client_context s) = Some e"
  shows "\<exists>s'. exchange_step s s' \<and> ex_phase s' = ex_phase s \<and> ex_now s' = ex_now s \<and> err_at s' (upstream_context s') \<noteq> None"
proof -
  have t: "tree now c settings s" using reached [OF r c] by simp
  obtain z where z: "ex_contexts s 2 = Some z" "cx_parent z = Some 0" using treeD(4) [OF t] by auto
  have 1: "exchange_step s (s\<lparr>ex_contexts := cancel_with 2 e (ex_contexts s)\<rparr>)"
    using z e treeD(1) [OF t] by (intro inherit [of s 2 z 0 e]) auto
  show ?thesis by (rule exI, rule conjI, rule 1) (use z treeD(2) [OF t] in \<open>auto simp: context_Err_cancel\<close>)
qed


section \<open>A reply that outlasts the timeout\<close>

text \<open>A request with a timeout of ten seconds: the reply starts after five and is still being copied, with
  the call alive, when an hour has passed.\<close>

definition connection :: go_context where
  "connection = \<lparr>cx_parent = None, cx_Deadline = None, cx_timer = False, cx_Err = None\<rparr>"

definition ten_seconds :: Config where
  "ten_seconds = demo_settings\<lparr>RequestTimeout := 10 * 10 ^ 9\<rparr>"

definition replying :: exchange where
  "replying = (let s = start_deadlines (start_check (start_stop ((begun 0 connection ten_seconds)\<lparr>ex_now := 0 + 5 * 10 ^ 9\<rparr>)))
     in s\<lparr>ex_now := ex_now s + 3600 * 10 ^ 9\<rparr>)"

lemma replying_reached: "exchange_reach (begun 0 connection ten_seconds) replying"
proof -
  let ?b = "begun 0 connection ten_seconds"
  have b: "ex_now ?b = 0 \<and> ex_phase ?b = Asking \<and> context_Err (ex_contexts ?b) (request_context ?b) = None"
    by (simp add: begun_def responseContext_def withRequestTimeout_def accepted_def connection_def ten_seconds_def WithTimeout_def
        context_Deadline_def context_Err_def WithCancel_def)
  have 1: "exchange_reach ?b (?b\<lparr>ex_now := 0 + 5 * 10 ^ 9\<rparr>)"
    using more [OF here time [of "5 * 10 ^ 9" ?b]] b by simp
  have 2: "exchange_reach ?b (start_stop (?b\<lparr>ex_now := 0 + 5 * 10 ^ 9\<rparr>))" by (rule more [OF 1 stop]) (simp add: b)
  have 3: "exchange_reach ?b (start_check (start_stop (?b\<lparr>ex_now := 0 + 5 * 10 ^ 9\<rparr>)))"
    by (rule more [OF 2 check]) (simp add: start_stop_def)
  have 4: "exchange_reach ?b (start_deadlines (start_check (start_stop (?b\<lparr>ex_now := 0 + 5 * 10 ^ 9\<rparr>))))"
    by (rule more [OF 3 grant]) (simp add: start_stop_def start_check_def stopTimeout_def b)
  show ?thesis unfolding replying_def Let_def by (rule more [OF 4 time]) simp
qed


end
