(* ===== verification/Startup.thy ===== *)
theory Startup
  imports File_Service
begin

text \<open>
  The process in \<open>cmd/llm-file-gateway/main.go\<close>: its startup, in the order of \<open>run\<close> with every early
  return, up to the moment it serves requests, and its end; with the opening of the database in
  \<open>internal/store/store.go\<close> and \<open>New\<close>, \<open>Run\<close> and \<open>Stop\<close> of the file service. The database driver is a
  script of its failures; the rows a database file holds survive the process.
\<close>

section \<open>The database\<close>

record database =
  stored :: table
  is_open :: bool

text \<open>The failures of \<open>sql.Open\<close>, of the pragmas, of the schema, and of the later statements.\<close>

record driver =
  sql_Open :: "go_error option"
  sql_Pragmas :: "go_error option"
  sql_Schema :: "go_error option"
  flt_consolidate :: db_fault
  flt_paths :: db_fault
  flt_pending :: db_fault

record machine =
  mc_os :: os
  mc_database :: "path \<Rightarrow> database"

definition set_database :: "path \<Rightarrow> (database \<Rightarrow> database) \<Rightarrow> machine \<Rightarrow> machine" where
  "set_database p f m = m\<lparr>mc_database := (mc_database m)(p := f (mc_database m p))\<rparr>"

definition database_Close :: "path \<Rightarrow> machine \<Rightarrow> machine" where
  "database_Close p = set_database p (\<lambda>d. d\<lparr>is_open := False\<rparr>)"

definition database_Migrate :: "driver \<Rightarrow> machine \<Rightarrow> machine \<times> unit result" where
  "database_Migrate D m = (m, case sql_Schema D of Some e \<Rightarrow> Inl (Wrapped ''create database schema: '' e) | None \<Rightarrow> Inr ())"

definition database_Open :: "driver \<Rightarrow> path \<Rightarrow> machine \<Rightarrow> machine \<times> unit result" where
  "database_Open D p m = (case sql_Open D of
     Some e \<Rightarrow> (m, Inl (Wrapped ''open sqlite database: '' e))
   | None \<Rightarrow> (let m1 = set_database p (\<lambda>d. d\<lparr>is_open := True\<rparr>) m in
      case sql_Pragmas D of
        Some e \<Rightarrow> (database_Close p m1, Inl (Wrapped ''configure sqlite database: '' e))
      | None \<Rightarrow> (case database_Migrate D m1 of
          (m2, Inl e) \<Rightarrow> (database_Close p m2, Inl e) | (m2, Inr _) \<Rightarrow> (m2, Inr ()))))"

definition database_file :: "Config \<Rightarrow> path" where
  "database_file settings = data_dir settings @ [''gateway.db'']"

definition OpenDataDir :: "driver \<Rightarrow> Config \<Rightarrow> machine \<Rightarrow> machine \<times> unit result" where
  "OpenDataDir D settings = database_Open D (database_file settings)"

section \<open>The file service\<close>

text \<open>The directories of files that the lifecycle model sees on the disk.\<close>

definition directories :: "Config \<Rightarrow> os \<Rightarrow> path set" where
  "directories settings s = set (filter (\<lambda>d. node_at s (data_dir settings @ d) = Some Dir)
     (map (\<lambda>x. drop (length (data_dir settings)) (fst x)) (nodes s)))"

definition New :: "Config \<Rightarrow> int \<Rightarrow> machine \<Rightarrow> sys" where
  "New settings now m = (let rows = stored (mc_database m (database_file settings)) in
     \<lparr>db = rows, disk = directories settings (mc_os m), regs = registers_init, jobs = new_queue (ConversionQueueCapacity settings),
      timers = [], retryCount = (\<lambda>_. 0), clock = now, stopping = False, used = ID ` set rows, procs = (\<lambda>_. Idle)\<rparr>)"

text \<open>The workers and the janitor are the idle goroutines of the lifecycle model; goroutine 0 goes on with the
  pending files.\<close>

definition Run :: "db_fault \<Rightarrow> sys \<Rightarrow> sys result" where
  "Run flt s = (case store_Pending flt (clock s) (db s) of
     Inl e \<Rightarrow> Inl e | Inr ids \<Rightarrow> Inr (s\<lparr>procs := (procs s)(0 := Starter ids)\<rparr>))"

definition Stop :: "sys \<Rightarrow> sys" where
  "Stop s = s\<lparr>stopping := True\<rparr>"

section \<open>The process\<close>

definition on_disk :: "(os \<Rightarrow> os \<times> 'a result) \<Rightarrow> machine \<Rightarrow> machine \<times> 'a result" where
  "on_disk m s = (case m (mc_os s) of (o1, r) \<Rightarrow> (s\<lparr>mc_os := o1\<rparr>, r))"

definition consolidate :: "driver \<Rightarrow> Config \<Rightarrow> machine \<Rightarrow> machine \<times> unit result" where
  "consolidate D settings m =
     (if GatewayAuthRequired settings then (m, Inr ())
      else case store_ConsolidateTenants (flt_consolidate D) (stored (mc_database m (database_file settings))) of
        (rows, r) \<Rightarrow> (set_database (database_file settings) (\<lambda>d. d\<lparr>stored := rows\<rparr>) m, r))"

definition start_service :: "env \<Rightarrow> driver \<Rightarrow> Config \<Rightarrow> int \<Rightarrow> machine \<Rightarrow> machine \<times> sys result" where
  "start_service E D settings now =
     and_then (consolidate D settings) (\<lambda>_.
     and_then (\<lambda>m. on_disk (ReconcileStorage E settings (flt_paths D) (stored (mc_database m (database_file settings)))) m) (\<lambda>_ m.
     (m, Run (flt_pending D) (New settings now m))))"

text \<open>The deferred \<open>Close\<close> of the database when \<open>run\<close> returns early.\<close>

definition closing :: "path \<Rightarrow> (machine \<Rightarrow> machine \<times> 'a result) \<Rightarrow> machine \<Rightarrow> machine \<times> 'a result" where
  "closing p k m = (case k m of (m', Inl e) \<Rightarrow> (database_Close p m', Inl e) | (m', Inr x) \<Rightarrow> (m', Inr x))"

record gateway =
  gw_settings :: Config
  gw_dispatcher :: Dispatcher
  gw_service :: sys

definition startup :: "'f platform \<Rightarrow> env \<Rightarrow> driver \<Rightarrow> int \<Rightarrow> machine \<Rightarrow> machine \<times> gateway result" where
  "startup P E D now m = (case Load P of
     Inl e \<Rightarrow> (m, Inl e)
   | Inr settings \<Rightarrow> (let workDir = data_dir settings @ [''work''] in
       and_then (on_disk (mkdir_all workDir)) (\<lambda>_.
       and_then (on_disk (cleanupStaleRequestDirectories E workDir)) (\<lambda>_.
       and_then (OpenDataDir D settings) (\<lambda>_.
       closing (database_file settings) (and_then (start_service E D settings now) (\<lambda>s.
       returns \<lparr>gw_settings = settings, gw_dispatcher = NewDispatcher E (NewInTreeRegistry E) (converterConfig settings),
         gw_service = s\<rparr>))))) m))"

text \<open>What ends a gateway that serves: the listener returns an error, or a signal comes and \<open>Shutdown\<close>
  returns. Then the service is stopped and the database closed. \<open>serving\<close> stands for all that happens in between.\<close>

definition ErrServerClosed :: go_error where
  "ErrServerClosed = Opaque ''http: Server closed''"

datatype ending = Listener go_error | Signalled "go_error option"

fun serving_result :: "ending \<Rightarrow> go_error option" where
  "serving_result (Listener e) = (if err_is e ErrServerClosed then None else Some e)"
| "serving_result (Signalled e) = e"

definition run :: "'f platform \<Rightarrow> env \<Rightarrow> driver \<Rightarrow> int \<Rightarrow> (gateway \<Rightarrow> machine \<Rightarrow> machine \<times> sys \<times> ending) \<Rightarrow> machine
    \<Rightarrow> machine \<times> sys option \<times> go_error option" where
  "run P E D now serving m = (case startup P E D now m of
     (m1, Inl e) \<Rightarrow> (m1, None, Some e)
   | (m1, Inr g) \<Rightarrow> (case serving g m1 of
       (m2, s, how) \<Rightarrow> (database_Close (database_file (gw_settings g)) m2, Some (Stop s), serving_result how)))"

definition main_exit :: "go_error option \<Rightarrow> nat" where
  "main_exit r = (case r of None \<Rightarrow> 0 | Some e \<Rightarrow> 1)"

end
