(* ===== verification/Startup_Correct.thy ===== *)
theory Startup_Correct
  imports Startup Upload_To_Inference Lifecycle_Theorems Config_Correct
begin

text \<open>
  What a start of the gateway establishes, also after a crash: the state from which the theorems about
  the lifecycle hold, with every file of the table on the disk, no leftovers of requests and uploads,
  and every unfinished conversion queued again.
\<close>

section \<open>A crash\<close>

text \<open>The table and the disk of a running gateway are at any moment those of a possible start.\<close>

lemma reach_start_ok: "reach cap now rows dirs s \<Longrightarrow> start_ok (db s) (disk s)"
proof -
  assume r: "reach cap now rows dirs s"
  note i = invD(8,13) [OF reach_inv [OF r]]
  have "file_wf f \<and> (DeletedAt f = None \<longrightarrow> file_dir f \<in> disk s)" if "f \<in> set (db s)" for f
  proof -
    have "row (db s) (ID f) = Some f" using row_SomeI [OF i(2) that] .
    then show ?thesis using i(1) reach_inv_disk [OF r] unfolding inv_rows_def inv_disk_def by blast
  qed
  then show ?thesis using i(2) by (simp add: start_ok_def list_all_iff)
qed

lemma directories_iff: "d \<in> directories settings s \<longleftrightarrow> node_at s (data_dir settings @ d) = Some Dir"
proof -
  have "\<exists>x \<in> set (nodes s). d = drop (length (data_dir settings)) (fst x)" if "node_at s (data_dir settings @ d) = Some Dir"
    using map_of_SomeD [OF that [unfolded node_at_def]] by (intro bexI) auto
  then show ?thesis by (auto simp: directories_def)
qed

lemma Run_boot:
  "Run flt (New settings now m) = Inr s \<Longrightarrow> s = boot (ConversionQueueCapacity settings) now
     (stored (mc_database m (database_file settings))) (directories settings (mc_os m))"
  by (auto simp: Run_def New_def Let_def boot_def store_Pending_def split: db_fault.splits)

section \<open>The rows\<close>

definition same_files :: "table \<Rightarrow> table \<Rightarrow> bool" where
  "same_files rows rows' \<longleftrightarrow> (\<exists>t. rows' = map (\<lambda>f. f\<lparr>TenantID := t f\<rparr>) rows)"

lemma same_files_refl: "same_files rows rows"
  unfolding same_files_def by (rule exI [of _ TenantID]) (simp add: map_idI)

lemma consolidate_same:
  "store_ConsolidateTenants flt rows = (rows', r) \<Longrightarrow> same_files rows rows'"
proof -
  have "same_files rows (map (\<lambda>f. if TenantID f \<noteq> SharedTenantID then f\<lparr>TenantID := SharedTenantID\<rparr> else f) rows)"
    unfolding same_files_def by (rule exI [of _ "\<lambda>_. SharedTenantID"]) auto
  then show "store_ConsolidateTenants flt rows = (rows', r) \<Longrightarrow> same_files rows rows'"
    by (auto simp: store_ConsolidateTenants_def same_files_refl split: db_fault.splits)
qed

lemma start_ok_same:
  assumes "start_ok rows dirs" and "same_files rows rows'" and "\<And>f. f \<in> set rows \<Longrightarrow> file_dir f \<in> dirs \<Longrightarrow> file_dir f \<in> dirs'"
  shows "start_ok rows' dirs'"
proof -
  obtain t where t: "rows' = map (\<lambda>f. f\<lparr>TenantID := t f\<rparr>) rows" using assms(2) unfolding same_files_def by blast
  have "map ID rows' = map ID rows" by (simp add: t comp_def)
  then have "db_inv rows'" using assms(1) by (simp add: start_ok_def db_inv_def)
  moreover have "file_wf (f\<lparr>TenantID := x\<rparr>) = file_wf f" "file_dir (f\<lparr>TenantID := x\<rparr>) = file_dir f" for f x
    by (simp_all add: file_wf_def file_dir_def)
  ultimately show ?thesis using assms(1,3) by (auto simp: start_ok_def list_all_iff t)
qed

section \<open>The steps of a start\<close>

lemma database_Open_Inr: "database_Open D p m = (m', Inr u) \<Longrightarrow>
    mc_os m' = mc_os m \<and> stored (mc_database m' q) = stored (mc_database m q)"
  by (auto simp: database_Open_def database_Migrate_def set_database_def Let_def split: option.splits)

lemma consolidate_Inr:
  assumes "consolidate D settings m = (m', Inr u)"
  shows "mc_os m' = mc_os m \<and> same_files (stored (mc_database m (database_file settings))) (stored (mc_database m' (database_file settings)))
    \<and> (if GatewayAuthRequired settings then stored (mc_database m' (database_file settings)) = stored (mc_database m (database_file settings))
       else \<forall>f \<in> set (stored (mc_database m' (database_file settings))). TenantID f = SharedTenantID)"
proof (cases "GatewayAuthRequired settings")
  case True
  then show ?thesis using assms by (simp add: consolidate_def same_files_refl)
next
  case False
  obtain rows r where c: "store_ConsolidateTenants (flt_consolidate D) (stored (mc_database m (database_file settings))) = (rows, r)"
    by fastforce
  then have "r = Inr u" using assms False by (simp add: consolidate_def)
  then show ?thesis using assms False c consolidate_same [OF c]
    by (auto simp: consolidate_def set_database_def store_ConsolidateTenants_def split: db_fault.splits)
qed

lemma startup_Inr:
  assumes "startup P E D now m = (m', Inr g)"
  obtains o1 o2 rows where "Load P = Inr (gw_settings g)"
    "gw_dispatcher g = NewDispatcher E (NewInTreeRegistry E) (converterConfig (gw_settings g))"
    "mkdir_all (data_dir (gw_settings g) @ [''work'']) (mc_os m) = (o1, Inr ())"
    "cleanupStaleRequestDirectories E (data_dir (gw_settings g) @ [''work'']) o1 = (o2, Inr ())"
    "same_files (stored (mc_database m (database_file (gw_settings g)))) rows"
    "if GatewayAuthRequired (gw_settings g) then rows = stored (mc_database m (database_file (gw_settings g)))
       else \<forall>f \<in> set rows. TenantID f = SharedTenantID"
    "ReconcileStorage E (gw_settings g) (flt_paths D) rows o2 = (mc_os m', Inr ())"
    "stored (mc_database m' (database_file (gw_settings g))) = rows"
    "Run (flt_pending D) (New (gw_settings g) now m') = Inr (gw_service g)"
proof -
  obtain settings where l: "Load P = Inr settings" using assms by (auto simp: startup_def split: sum.splits)
  let ?w = "data_dir settings @ [''work'']" and ?db = "database_file settings"
  obtain m1 m2 m3 where 1: "on_disk (mkdir_all ?w) m = (m1, Inr ())" and 2: "on_disk (cleanupStaleRequestDirectories E ?w) m1 = (m2, Inr ())"
    and 3: "OpenDataDir D settings m2 = (m3, Inr ())"
    and 4: "closing ?db (and_then (start_service E D settings now) (\<lambda>s.
       returns \<lparr>gw_settings = settings, gw_dispatcher = NewDispatcher E (NewInTreeRegistry E) (converterConfig settings), gw_service = s\<rparr>)) m3 = (m', Inr g)"
    using assms l unfolding startup_def Let_def by (auto simp: and_then_Inr)
  obtain s where 5: "start_service E D settings now m3 = (m', Inr s)"
    and g: "g = \<lparr>gw_settings = settings, gw_dispatcher = NewDispatcher E (NewInTreeRegistry E) (converterConfig settings), gw_service = s\<rparr>"
    using 4 by (auto simp: closing_def and_then_def returns_def split: prod.splits sum.splits)
  obtain m4 where 6: "consolidate D settings m3 = (m4, Inr ())"
    and 7: "on_disk (ReconcileStorage E settings (flt_paths D) (stored (mc_database m4 ?db))) m4 = (m', Inr ())"
    and 8: "Run (flt_pending D) (New settings now m') = Inr s"
    using 5 unfolding start_service_def by (auto simp: and_then_Inr)
  have disk: "mc_os m3 = mc_os m2" "stored (mc_database m3 ?db) = stored (mc_database m ?db)"
    "mc_os m4 = mc_os m3" "stored (mc_database m' ?db) = stored (mc_database m4 ?db)"
    using database_Open_Inr [OF 3 [unfolded OpenDataDir_def], of ?db] consolidate_Inr [OF 6] 1 2 7
    by (auto simp: on_disk_def split: prod.splits)
  show thesis
  proof (rule that [of "mc_os m1" "mc_os m2" "stored (mc_database m4 ?db)"])
    show "ReconcileStorage E (gw_settings g) (flt_paths D) (stored (mc_database m4 ?db)) (mc_os m2) = (mc_os m', Inr ())"
      using 7 disk by (auto simp: on_disk_def g split: prod.splits)
    show "if GatewayAuthRequired (gw_settings g) then stored (mc_database m4 ?db) = stored (mc_database m (database_file (gw_settings g)))
       else \<forall>f \<in> set (stored (mc_database m4 ?db)). TenantID f = SharedTenantID"
      using consolidate_Inr [OF 6] disk by (simp add: g split: if_splits)
  qed (use 1 2 8 l disk consolidate_Inr [OF 6] in \<open>auto simp: on_disk_def g split: prod.splits\<close>)
qed

section \<open>What a start keeps and what it removes\<close>

text \<open>The source of a file as uploads store it: under \<open>files\<close>, in the directory of the file.\<close>

definition managed_source :: "File \<Rightarrow> bool" where
  "managed_source f \<longleftrightarrow> clean_dir (SourcePath f) = file_dir f \<and> hd (file_dir f) = ''files''"

lemma below_append_same: "below (r @ a) (r @ b) = below a b"
  by (simp add: below_def)

lemma files_not_work: "length d = 3 \<Longrightarrow> hd d = ''files'' \<Longrightarrow> below (root_dir @ d) p \<Longrightarrow>
    \<not> below p (root_dir @ [''work'']) \<and> \<not> below ((root_dir @ [''work'']) @ n) p"
proof -
  assume d: "length d = 3" "hd d = ''files''" and b: "below (root_dir @ d) p"
  obtain a x where a: "d = ''files'' # a" "p = root_dir @ ''files'' # x"
    using d b by (cases d) (auto simp: below_iff)
  then show ?thesis by (simp add: below_def min_def)
qed

lemma keeps_files:
  assumes "mkdir_all (data_dir settings @ [''work'']) s = (o1, r1)"
    and "cleanupStaleRequestDirectories E (data_dir settings @ [''work'']) o1 = (o2, r2)"
    and "ReconcileStorage E settings flt rows o2 = (o3, Inr u)"
    and f: "f \<in> set rows" "file_wf f" "managed_source f" and b: "below (data_dir settings @ file_dir f) p"
  shows "node_at o3 p = node_at s p"
proof -
  have d: "length (file_dir f) = 3" "hd (file_dir f) = ''files''" using f by (simp_all add: file_wf_def managed_source_def)
  note n = files_not_work [OF d b]
  have paths: "store_SourcePaths flt rows = Inr (map SourcePath rows)"
    using assms(3) by (auto simp: ReconcileStorage_def store_SourcePaths_def split: db_fault.splits)
  have "file_dir f \<in> set (map clean_dir (map SourcePath rows))" using f by (force simp: managed_source_def)
  then have "\<not> orphan (data_dir settings @ [''files'']) (map clean_dir (map SourcePath rows)) p"
    by (rule own_directory [OF d(1) _ b d(2)])
  then have 3: "node_at o3 p = node_at o2 p" using prunesD(1) [OF reconcile_prunes [OF paths] assms(3)] by blast
  have 2: "node_at o2 p = node_at o1 p" using stale_requests_removed [OF assms(2)] n by blast
  show ?thesis using 2 3 mkdir_all_frame [OF assms(1)] n by simp
qed

lemma orphans_removed:
  assumes "mkdir_all (data_dir settings @ [''work'']) s = (o1, r1)"
    and "cleanupStaleRequestDirectories E (data_dir settings @ [''work'']) o1 = (o2, r2)"
    and "ReconcileStorage E settings flt rows o2 = (o3, Inr ())"
    and "\<forall>d \<in> {[''files''], [''files'', tenant], [''files'', tenant, name]}. node_at s (data_dir settings @ d) = Some Dir"
    and "managedFileID name" and "\<forall>f \<in> set rows. clean_dir (SourcePath f) \<noteq> relative_dir tenant name"
  shows "node_at o3 (data_dir settings @ [''files'', tenant, name]) = None"
proof -
  have same: "node_at o2 (data_dir settings @ ''files'' # d) = node_at s (data_dir settings @ ''files'' # d)" for d
  proof -
    let ?p = "data_dir settings @ ''files'' # d"
    have n: "\<not> below ((data_dir settings @ [''work'']) @ x) ?p" "\<not> below ?p (data_dir settings @ [''work''])" for x
      by (simp_all add: below_def min_def)
    have "node_at o2 ?p = node_at o1 ?p" using stale_requests_removed [OF assms(2)] n(1) by blast
    then show ?thesis using mkdir_all_frame [OF assms(1) n(2)] by simp
  qed
  show ?thesis
    using reconcile_removes [OF assms(3) HOL.refl, of tenant name] assms(4,5,6) same [of "[]"] same [of "[tenant]"] same [of "[tenant, name]"]
    by simp
qed

lemma requests_removed:
  assumes "mkdir_all workDir s = (o1, r1)" and "cleanupStaleRequestDirectories E workDir o1 = (o2, Inr ())"
    and "ReconcileStorage E settings flt rows o2 = (o3, Inr ())"
    and "node_at s (workDir @ [''gateway-request-'' @ n]) = Some Dir"
  shows "node_at o3 (workDir @ [''gateway-request-'' @ n]) = None"
proof -
  have "node_at o1 (workDir @ [''gateway-request-'' @ n]) = Some Dir" by (rule mkdir_all_keep [OF assms(1,4)])
  then have "node_at o2 (workDir @ [''gateway-request-'' @ n]) = None"
    using stale_requests_removed [OF assms(2)] has_prefix_append by blast
  moreover have "store_SourcePaths flt rows = Inr (map SourcePath rows)"
    using assms(3) by (auto simp: ReconcileStorage_def store_SourcePaths_def split: db_fault.splits)
  ultimately show ?thesis using prunesD(2) [OF reconcile_prunes assms(3)] by metis
qed

text \<open>C2. A gateway that is killed at any moment comes up again in order. Take any reachable state of the file
  service and a disk and a database that hold what that state holds, plus whatever half-done uploads and
  requests had left. If the next start succeeds, the service is in a start state of the lifecycle, so
  that every theorem about its reachable states holds again; no row is lost or changed, except that
  without authentication all belong to the shared tenant; the unfinished files are queued again, in the
  order of the table; the directories of all rows are untouched; and the request directories and the
  directories of uploads that never got their row are gone.\<close>

theorem crash_recovery:
  assumes crash: "reach cap before rows dirs s"
    and start: "startup P E D now m = (m', Inr g)"
    and rows: "stored (mc_database m (database_file (gw_settings g))) = db s"
    and disk: "\<forall>d \<in> disk s. node_at (mc_os m) (data_dir (gw_settings g) @ d) = Some Dir"
    and sources: "\<forall>f \<in> set (db s). managed_source f"
  shows "\<exists>rows'. same_files (db s) rows' \<and> stored (mc_database m' (database_file (gw_settings g))) = rows' \<and>
    (if GatewayAuthRequired (gw_settings g) then rows' = db s else \<forall>f \<in> set rows'. TenantID f = SharedTenantID) \<and>
    reach (ConversionQueueCapacity (gw_settings g)) now rows' (directories (gw_settings g) (mc_os m')) (gw_service g) \<and>
    procs (gw_service g) 0 = Starter (map ID (filter (pending now) rows')) \<and>
    (\<forall>f \<in> set (db s). \<forall>p. below (data_dir (gw_settings g) @ file_dir f) p \<longrightarrow> node_at (mc_os m') p = node_at (mc_os m) p) \<and>
    (\<forall>n. node_at (mc_os m) (data_dir (gw_settings g) @ [''work'', ''gateway-request-'' @ n]) = Some Dir \<longrightarrow>
       node_at (mc_os m') (data_dir (gw_settings g) @ [''work'', ''gateway-request-'' @ n]) = None) \<and>
    (\<forall>tenant name. (\<forall>d \<in> {[''files''], [''files'', tenant], [''files'', tenant, name]}. node_at (mc_os m) (data_dir (gw_settings g) @ d) = Some Dir) \<longrightarrow>
       managedFileID name \<longrightarrow> (\<forall>f \<in> set (db s). file_dir f \<noteq> relative_dir tenant name) \<longrightarrow>
       node_at (mc_os m') (data_dir (gw_settings g) @ [''files'', tenant, name]) = None)"
proof -
  obtain o1 o2 rows' where m: "mkdir_all (data_dir (gw_settings g) @ [''work'']) (mc_os m) = (o1, Inr ())"
    and c: "cleanupStaleRequestDirectories E (data_dir (gw_settings g) @ [''work'']) o1 = (o2, Inr ())"
    and same: "same_files (db s) rows'"
    and auth: "if GatewayAuthRequired (gw_settings g) then rows' = db s else \<forall>f \<in> set rows'. TenantID f = SharedTenantID"
    and r: "ReconcileStorage E (gw_settings g) (flt_paths D) rows' o2 = (mc_os m', Inr ())"
    and st: "stored (mc_database m' (database_file (gw_settings g))) = rows'"
    and run: "Run (flt_pending D) (New (gw_settings g) now m') = Inr (gw_service g)"
    using startup_Inr [OF start] rows by metis
  have sys: "gw_service g = boot (ConversionQueueCapacity (gw_settings g)) now rows' (directories (gw_settings g) (mc_os m'))"
    using Run_boot [OF run] st by simp
  have ok: "start_ok (db s) (disk s)" by (rule reach_start_ok [OF crash])
  have other: "\<exists>h \<in> set rows'. file_dir h = file_dir f \<and> SourcePath h = SourcePath f \<and> ID h = ID f" if "f \<in> set (db s)" for f
    using same that by (force simp: same_files_def file_dir_def)
  have keep: "node_at (mc_os m') p = node_at (mc_os m) p" if f: "f \<in> set (db s)" and b: "below (data_dir (gw_settings g) @ file_dir f) p" for f p
  proof -
    obtain h where h: "h \<in> set rows'" "file_dir h = file_dir f" "SourcePath h = SourcePath f" "ID h = ID f" using other f by blast
    have "file_wf h" "managed_source h" using ok sources f h by (auto simp: start_ok_def list_all_iff file_wf_def managed_source_def)
    then show ?thesis using keeps_files [OF m c r h(1)] b h(2) by simp
  qed
  have "file_dir f \<in> directories (gw_settings g) (mc_os m')" if "f \<in> set (db s)" "file_dir f \<in> disk s" for f
    unfolding directories_iff using keep [OF that(1) below_refl] disk that(2) by simp
  then have "start_ok rows' (directories (gw_settings g) (mc_os m'))" by (rule start_ok_same [OF ok same])
  then have "reach (ConversionQueueCapacity (gw_settings g)) now rows' (directories (gw_settings g) (mc_os m')) (gw_service g)"
    unfolding sys by (rule reach.boot)
  moreover have "procs (gw_service g) 0 = Starter (map ID (filter (pending now) rows'))" by (simp add: sys boot_def)
  moreover have "\<forall>h \<in> set rows'. clean_dir (SourcePath h) \<noteq> relative_dir tenant name"
    if "\<forall>f \<in> set (db s). file_dir f \<noteq> relative_dir tenant name" for tenant name
    using same that sources by (auto simp: same_files_def managed_source_def)
  ultimately show ?thesis
    using same st auth keep orphans_removed [OF m c r] requests_removed [OF m c r]
    by (intro exI [of _ rows']) simp
qed

text \<open>However \<open>run\<close> ends, the database is closed.\<close>

lemma startup_fails:
  "startup P E D now m = (m', Inl e) \<Longrightarrow> Load P = Inr settings \<Longrightarrow> \<not> is_open (mc_database m (database_file settings)) \<Longrightarrow>
     \<not> is_open (mc_database m' (database_file settings))"
  by (auto simp: startup_def Let_def and_then_def on_disk_def OpenDataDir_def database_Open_def database_Migrate_def closing_def
      database_Close_def set_database_def split: prod.splits sum.splits option.splits)

lemma run_closes:
  assumes "run P E D now serving m = (m', s, r)" and "Load P = Inr settings" and "\<not> is_open (mc_database m (database_file settings))"
  shows "\<not> is_open (mc_database m' (database_file settings))"
proof -
  obtain m1 x where 1: "startup P E D now m = (m1, x)" by fastforce
  show ?thesis
  proof (cases x)
    case (Inl e)
    have "m' = m1" using assms(1) 1 Inl by (simp add: run_def)
    then show ?thesis using startup_fails [OF 1 [unfolded Inl] assms(2,3)] by simp
  next
    case (Inr g)
    have "gw_settings g = settings" using startup_Inr [OF 1 [unfolded Inr]] assms(2) by auto
    then show ?thesis using assms(1) 1 Inr by (auto simp: run_def database_Close_def set_database_def split: prod.splits)
  qed
qed

section \<open>A concrete crash\<close>

lemma load_data_dir:
  assumes "Load P = Inr c"
  shows "DataDir c = envString P ''GATEWAY_DATA_DIR'' ''gateway-data'' \<and> envBool P ''GATEWAY_AUTH_REQUIRED'' False = Inr (GatewayAuthRequired c)"
  using assms unfolding Load_def Let_def expect_Inr attempt_Inr by (clarsimp split: if_split_asm)

definition crash_os :: os where
  "crash_os = \<lparr>nodes = [([''gateway-data''], Dir), ([''gateway-data'', ''work''], Dir), ([''gateway-data'', ''work'', ''gateway-request-1''], Dir),
     ([''gateway-data'', ''files''], Dir), ([''gateway-data'', ''files'', ''shared''], Dir),
     ([''gateway-data'', ''files'', ''shared'', ''file_a''], Dir)], faults = [], rm_faults = [], ctx_polls = None\<rparr>"

definition good_driver :: driver where
  "good_driver = \<lparr>sql_Open = None, sql_Pragmas = None, sql_Schema = None, flt_consolidate = NoFault, flt_paths = NoFault, flt_pending = NoFault\<rparr>"

definition crash_machine :: machine where
  "crash_machine = \<lparr>mc_os = crash_os, mc_database = (\<lambda>_. \<lparr>stored = [sample_file], is_open = False\<rparr>)\<rparr>"

lemma crash_disk:
  "case mkdir_all [''gateway-data'', ''work''] crash_os of (o1, r1) \<Rightarrow>
     (case cleanupStaleRequestDirectories demo_env [''gateway-data'', ''work''] o1 of (o2, r2) \<Rightarrow>
     (case ReconcileStorage demo_env (demo_settings\<lparr>DataDir := ''gateway-data''\<rparr>) NoFault [sample_file] o2 of (o3, r3) \<Rightarrow>
       \<not> isl r1 \<and> \<not> isl r2 \<and> \<not> isl r3))"
  by code_simp

lemma not_isl_unit: "\<not> isl (r :: unit result) \<longleftrightarrow> r = Inr ()"
  by (cases r) auto

lemma crash_starts: "\<exists>m' g. startup (demo_platform demo_vars) demo_env good_driver 200 crash_machine = (m', Inr g) \<and> DataDir (gw_settings g) = ''gateway-data''"
proof -
  obtain c where c: "Load (demo_platform demo_vars) = Inr c" using demo_loads by blast
  have "DataDir c = ''gateway-data''" and a: "\<not> GatewayAuthRequired c"
    using load_data_dir [OF c] by (simp_all add: envString_def envBool_def env_parse_def demo_platform_def demo_vars_def)
  moreover have "path_of ''gateway-data'' = [''gateway-data'']" by code_simp
  ultimately have d: "data_dir c = [''gateway-data'']" "data_dir (demo_settings\<lparr>DataDir := ''gateway-data''\<rparr>) = [''gateway-data'']"
    by (simp_all add: data_dir_def)
  have rec: "ReconcileStorage demo_env c = ReconcileStorage demo_env (demo_settings\<lparr>DataDir := ''gateway-data''\<rparr>)"
    unfolding ReconcileStorage_def d ..
  obtain o1 o2 o3 where o: "mkdir_all [''gateway-data'', ''work''] crash_os = (o1, Inr ())"
    "cleanupStaleRequestDirectories demo_env [''gateway-data'', ''work''] o1 = (o2, Inr ())"
    "ReconcileStorage demo_env c NoFault [sample_file] o2 = (o3, Inr ())"
    using crash_disk by (auto simp: not_isl_unit rec split: prod.splits)
  show ?thesis
    by (simp add: startup_def c d Let_def and_then_def on_disk_def o crash_machine_def OpenDataDir_def database_Open_def
      database_Migrate_def good_driver_def set_database_def closing_def start_service_def consolidate_def a
      store_ConsolidateTenants_def SharedTenantID_def Run_def store_Pending_def returns_def New_def \<open>DataDir c = _\<close>)
qed

theorem crash_recovery_witness:
  "\<exists>m' g. startup (demo_platform demo_vars) demo_env good_driver 200 crash_machine = (m', Inr g) \<and>
     procs (gw_service g) 0 = Starter [''file_a''] \<and> node_at (mc_os m') [''gateway-data'', ''work'', ''gateway-request-1''] = None"
proof -
  obtain m' g where 1: "startup (demo_platform demo_vars) demo_env good_driver 200 crash_machine = (m', Inr g)"
    and "DataDir (gw_settings g) = ''gateway-data''" using crash_starts by blast
  moreover have "path_of ''gateway-data'' = [''gateway-data'']" by code_simp
  ultimately have d: "data_dir (gw_settings g) = [''gateway-data'']" by (simp add: data_dir_def)
  have rows: "stored (mc_database crash_machine (database_file (gw_settings g))) =
      db (demo [sample_file] {demo_dir} registers_init (new_queue 1) (three (Starter [''file_a'']) Idle Idle))"
    by (simp add: crash_machine_def)
  have disk: "\<forall>d \<in> disk (demo [sample_file] {demo_dir} registers_init (new_queue 1) (three (Starter [''file_a'']) Idle Idle)).
      node_at (mc_os crash_machine) (data_dir (gw_settings g) @ d) = Some Dir"
    by (simp add: d demo_dir_def crash_machine_def crash_os_def node_at_def)
  have "clean_dir ''files/shared/file_a/source.txt'' = demo_dir" by code_simp
  then have src: "\<forall>f \<in> set (db (demo [sample_file] {demo_dir} registers_init (new_queue 1) (three (Starter [''file_a'']) Idle Idle))). managed_source f"
    by (simp add: managed_source_def demo_dir_def)
  obtain rows' where r: "same_files [sample_file] rows'" "procs (gw_service g) 0 = Starter (map ID (filter (pending 200) rows'))"
    and gone: "\<forall>n. node_at (mc_os crash_machine) (data_dir (gw_settings g) @ [''work'', ''gateway-request-'' @ n]) = Some Dir \<longrightarrow>
       node_at (mc_os m') (data_dir (gw_settings g) @ [''work'', ''gateway-request-'' @ n]) = None"
    using crash_recovery [OF demo_boot 1 rows disk src] by auto
  have "map ID (filter (pending 200) rows') = [''file_a'']"
    using r(1) by (auto simp: same_files_def pending_def live_def)
  moreover have "node_at (mc_os m') [''gateway-data'', ''work'', ''gateway-request-1''] = None"
    using spec [OF gone, of "''1''"] by (simp add: d crash_machine_def crash_os_def node_at_def)
  ultimately show ?thesis using 1 r(2) by auto
qed

end
