(* ===== verification/Service_Refinement.thy ===== *)
theory Service_Refinement
  imports Server_Files_Correct Startup_Correct
begin

text \<open>
  The two views of the file service fit together. \<open>File_Service\<close> and \<open>Server_Files\<close> describe each operation
  as its caller sees it, over the file system and the table; \<open>Lifecycle\<close> describes goroutines that
  interleave, over the same table and registers and the set of the files' directories. Here every run of an
  operation is shown to be a sequence of steps of one goroutine of the lifecycle, from and to states
  that agree.
\<close>

section \<open>Agreement\<close>

definition same_dirs :: "Config \<Rightarrow> os \<Rightarrow> path set \<Rightarrow> bool" where
  "same_dirs settings fs dirs \<longleftrightarrow> (\<forall>d. length d = 3 \<longrightarrow> (d \<in> dirs \<longleftrightarrow> node_at fs (data_dir settings @ d) = Some Dir))"

definition view :: "Config \<Rightarrow> service \<Rightarrow> sys \<Rightarrow> bool" where
  "view settings v s \<longleftrightarrow> svc_rows v = db s \<and> svc_regs v = regs s \<and> same_dirs settings (svc_os v) (disk s)"

text \<open>The state \<open>s\<close> with goroutine \<open>t\<close> at \<open>p\<close>, and what the goroutine can change.\<close>

definition moved :: "sys \<Rightarrow> nat \<Rightarrow> table \<Rightarrow> path set \<Rightarrow> registers \<Rightarrow> string set \<Rightarrow> proc \<Rightarrow> sys" where
  "moved s t d k r u p = s\<lparr>db := d, disk := k, regs := r, used := u, procs := (procs s)(t := p)\<rparr>"

text \<open>Steps of the lifecycle lead from \<open>s\<close> to a state that agrees with \<open>v\<close>, in which goroutine \<open>t\<close> is at \<open>p\<close>
  and nothing else has happened.\<close>

definition runs_to :: "Config \<Rightarrow> nat \<Rightarrow> proc \<Rightarrow> service \<Rightarrow> sys \<Rightarrow> bool" where
  "runs_to settings t p v s \<longleftrightarrow> (\<exists>s'. rtranclp step s s' \<and> view settings v s' \<and> procs s' = (procs s)(t := p) \<and>
     jobs s' = jobs s \<and> timers s' = timers s \<and> retryCount s' = retryCount s \<and> clock s' = clock s \<and> stopping s' = stopping s)"

lemma moved_simps [simp]:
  "procs (moved s t d k r u p) t = p" "db (moved s t d k r u p) = d" "disk (moved s t d k r u p) = k"
  "regs (moved s t d k r u p) = r" "used (moved s t d k r u p) = u" "clock (moved s t d k r u p) = clock s"
  "goto t q (moved s t d k r u p) = moved s t d k r u q"
  "goto t q ((moved s t d k r u p)\<lparr>db := d'\<rparr>) = moved s t d' k r u q"
  "goto t q ((moved s t d k r u p)\<lparr>disk := k'\<rparr>) = moved s t d k' r u q"
  "goto t q ((moved s t d k r u p)\<lparr>regs := r'\<rparr>) = moved s t d k r' u q"
  "goto t q ((moved s t d k r u p)\<lparr>disk := k', used := u'\<rparr>) = moved s t d k' r u' q"
  "goto t q ((moved s t d k r u p)\<lparr>used := u'\<rparr>) = moved s t d k r u' q"
  "(moved s t d k r u p)\<lparr>disk := k'\<rparr> = moved s t d k' r u p"
  by (simp_all add: moved_def goto_def)

lemma moved_start: "procs s t = p \<Longrightarrow> moved s t (db s) (disk s) (regs s) (used s) p = s"
  by (auto simp: moved_def)

lemma runs_moved:
  "rtranclp step s (moved s t (svc_rows v) k (svc_regs v) u p) \<Longrightarrow> same_dirs settings (svc_os v) k \<Longrightarrow> runs_to settings t p v s"
  unfolding runs_to_def by (rule exI [of _ "moved s t (svc_rows v) k (svc_regs v) u p"]) (simp add: view_def moved_def)

lemma runs_start:
  assumes "view settings v s" and "procs s t = p"
  shows "runs_to settings t p v s"
  using assms moved_start [OF assms(2)] by (intro runs_moved [where k = "disk s" and u = "used s"]) (simp_all add: view_def)

text \<open>One more step: \<open>go\<close> from one position to the next.\<close>

definition go :: "sys \<Rightarrow> nat \<Rightarrow> table \<times> path set \<times> registers \<times> string set \<times> proc \<Rightarrow> table \<times> path set \<times> registers \<times> string set \<times> proc \<Rightarrow> bool" where
  "go s t x y \<longleftrightarrow> rtranclp step (case x of (d, k, r, u, p) \<Rightarrow> moved s t d k r u p) (case y of (d, k, r, u, p) \<Rightarrow> moved s t d k r u p)"

lemma go_trans: "go s t x y \<Longrightarrow> go s t y z \<Longrightarrow> go s t x z"
  unfolding go_def by (rule rtranclp_trans)

lemma go_refl: "go s t x x"
  by (simp add: go_def)

lemma go1: "step (moved s t d k r u p) x \<Longrightarrow> x = moved s t d' k' r' u' p' \<Longrightarrow> go s t (d, k, r, u, p) (d', k', r', u', p')"
  by (simp add: go_def r_into_rtranclp)

lemma runs_go:
  assumes "view settings v s" and "procs s t = p" and "go s t (svc_rows v, disk s, svc_regs v, used s, p) (svc_rows v', k, svc_regs v', u, q)"
    and "same_dirs settings (svc_os v') k"
  shows "runs_to settings t q v' s"
  using assms moved_start [OF assms(2)] by (intro runs_moved [where k = k and u = u]) (simp_all add: go_def view_def)

section \<open>Directories\<close>

lemma same_dirs_cong:
  "same_dirs settings o1 k \<Longrightarrow> (\<And>d. length d = 3 \<Longrightarrow> node_at o2 (data_dir settings @ d) = Some Dir \<longleftrightarrow> node_at o1 (data_dir settings @ d) = Some Dir) \<Longrightarrow>
     same_dirs settings o2 k"
  by (simp add: same_dirs_def)

lemma below_root: "below (p @ d) (p @ e) \<longleftrightarrow> below d e"
  by (simp add: below_def)

lemma below_same_length: "length d = length e \<Longrightarrow> below d e \<longleftrightarrow> e = d"
  by (auto simp: below_def)

text \<open>A removal of the directory of a file, which may fail and then have removed it or not.\<close>

lemma same_dirs_remove:
  assumes "same_dirs settings o1 k" and "remove_all (data_dir settings @ d) o1 = (o2, r)" and "length d = 3" and "d \<in> k"
  shows "\<exists>k' \<in> {k, k - {d}}. same_dirs settings o2 k'" and "r = Inr () \<Longrightarrow> same_dirs settings o2 (k - {d})"
proof -
  have other: "node_at o2 (data_dir settings @ e) = node_at o1 (data_dir settings @ e)" if "length e = 3" "e \<noteq> d" for e
    using remove_all_frame [OF assms(2)] that assms(3) by (simp add: below_root below_same_length)
  have out: "same_dirs settings o2 (k - {d})" if "node_at o2 (data_dir settings @ d) \<noteq> Some Dir"
    using assms(1) other that unfolding same_dirs_def by (metis DiffD1 DiffD2 DiffI insertI1 singletonD)
  have "same_dirs settings o2 k" if "node_at o2 (data_dir settings @ d) = Some Dir"
    using assms(1,4) other that unfolding same_dirs_def by metis
  then show "\<exists>k' \<in> {k, k - {d}}. same_dirs settings o2 k'" using out by blast
  show "r = Inr () \<Longrightarrow> same_dirs settings o2 (k - {d})"
    using out remove_all_gone assms(2) below_refl by (metis option.distinct(1))
qed

section \<open>Delete\<close>

lemma go_clean_end: "go s t (d, k, r, u, Cleaning CEnd f ch None) (d, k, endDeletion r (ID f) ch, u, Idle)"
  by (rule go1, rule clean_end, rule moved_simps(1), simp)

lemma go_to_remove:
  assumes "conversions r (ID f) = None" and "leases r (ID f) = None"
  shows "go s t (d, k, r, u, Cleaning CConvLookup f ch rest) (d, k, r, u, Cleaning CRemove f ch rest)"
proof -
  have "go s t (d, k, r, u, Cleaning CConvLookup f ch rest) (d, k, r, u, Cleaning CLeaseLookup f ch rest)"
    by (rule go1, rule clean_conv_lookup, rule moved_simps(1)) (simp add: assms waitForConversion_lookup_def)
  moreover have "go s t (d, k, r, u, Cleaning CLeaseLookup f ch rest) (d, k, r, u, Cleaning CRemove f ch rest)"
    by (rule go1, rule clean_lease_lookup, rule moved_simps(1)) (simp add: assms waitForLease_lookup_def)
  ultimately show ?thesis by (rule go_trans)
qed

lemma go_claim:
  assumes "store_Get flt (clock s) d i tenant = Inr (Some f)" and "beginDeletion r (ID f) = (r', Some ch)"
  shows "go s t (d, k, r, u, Idle) (d, k, r', u, Cleaning CMark f ch None)"
proof -
  have "go s t (d, k, r, u, Idle) (d, k, r, u, DeleteBegin f None)"
    by (rule go1, rule delete_get [where flt = flt and i = i and tenant = tenant], rule moved_simps(1)) (simp_all add: assms)
  moreover have "go s t (d, k, r, u, DeleteBegin f None) (d, k, r', u, Cleaning CMark f ch None)"
    by (rule go1, rule delete_claim, rule moved_simps(1)) (simp_all add: assms)
  ultimately show ?thesis by (rule go_trans)
qed

lemma go_mark:
  assumes "store_MarkDeleted flt (clock s) d (ID f) (TenantID f) = (d', res)"
  shows "go s t (d, k, r, u, Cleaning CMark f ch rest) (d', k, r, u, Cleaning (if res = Inr True then CConvLookup else CEnd) f ch rest)"
  by (rule go1, rule clean_mark [where flt = flt and res = res], rule moved_simps(1)) (simp_all add: assms)

lemma go_remove:
  "go s t (d, k, r, u, Cleaning CRemove f ch rest) (d, k - {file_dir f}, r, u, Cleaning CDeleteRow f ch rest)"
  by (rule go1, rule clean_remove, rule moved_simps(1)) simp

lemma go_remove_fails:
  "k' \<in> {k, k - {file_dir f}} \<Longrightarrow> go s t (d, k, r, u, Cleaning CRemove f ch rest) (d, k', r, u, Cleaning CEnd f ch rest)"
  by (rule go1, rule clean_remove_fails [where d = k'], rule moved_simps(1)) simp_all

lemma go_delete_row:
  "store_Delete flt d (ID f) (TenantID f) = (d', res) \<Longrightarrow>
     go s t (d, k, r, u, Cleaning CDeleteRow f ch rest) (d', k, r, u, Cleaning CEnd f ch rest)"
  by (rule go1, rule clean_delete_row, rule moved_simps(1)) simp_all

lemma delete_runs:
  assumes v: "view settings v s" and idle: "procs s t = Idle"
    and wf: "\<forall>f \<in> set (db s). file_wf f \<and> (DeletedAt f = None \<longrightarrow> file_dir f \<in> disk s)"
    and free: "conversions (regs s) i = None" "leases (regs s) i = None"
    and run: "Delete settings flt1 flt2 flt3 (clock s) i tenant v = (v', res)"
  shows "runs_to settings t Idle v' s"
proof (cases "\<exists>f. store_Get flt1 (clock s) (svc_rows v) i tenant = Inr (Some f)")
  case False
  then have "v' = v" using run by (auto simp: Delete_def split: sum.splits option.splits)
  then show ?thesis using runs_start [OF v idle] by simp
next
  case True
  then obtain f where get: "store_Get flt1 (clock s) (svc_rows v) i tenant = Inr (Some f)" by blast
  have rows: "svc_rows v = db s" "svc_regs v = regs s" and dirs: "same_dirs settings (svc_os v) (disk s)" using v by (simp_all add: view_def)
  have f: "f \<in> set (db s)" "ID f = i" "TenantID f = tenant" "DeletedAt f = None"
    using store_Get_Some [OF get] rows by (auto simp: live_def)
  have d: "length (file_dir f) = 3" "file_dir f \<in> disk s" using wf f by (auto simp: file_wf_def)
  have src: "butlast (source_at settings f) = data_dir settings @ file_dir f" using d(1) by (auto simp: source_at_def file_dir_def butlast_append)
  show ?thesis
  proof (cases "deleting (regs s) i")
    case (Some x)
    then have b: "beginDeletion (regs s) i = (regs s, None)" by (simp add: beginDeletion_def)
    then have "v' = v" using run get rows by (simp add: Delete_def)
    then show ?thesis using runs_start [OF v idle] by simp
  next
    case None
    obtain r1 ch where b: "beginDeletion (regs s) i = (r1, Some ch)" and r1: "conversions r1 i = None" "leases r1 i = None"
      using None free by (auto simp: beginDeletion_def)
    obtain d1 res1 where m: "store_MarkDeleted flt2 (clock s) (db s) i tenant = (d1, res1)" by fastforce
    have claim: "go s t (db s, disk s, regs s, used s, Idle) (d1, disk s, r1, used s, Cleaning (if res1 = Inr True then CConvLookup else CEnd) f ch None)"
      by (rule go_trans [OF go_claim go_mark]) (use get b m f rows in auto)
    note ends = go_clean_end [of s t _ _ _ "used s" f ch]
    show ?thesis
    proof (cases "res1 = Inr True")
      case False
      have "v' = v\<lparr>svc_rows := d1, svc_regs := endDeletion r1 i ch\<rparr>"
        using run get rows b m False by (auto simp: Delete_def Let_def split: sum.splits)
      moreover have "go s t (db s, disk s, regs s, used s, Idle) (d1, disk s, endDeletion r1 i ch, used s, Idle)"
        using go_trans [OF claim [unfolded if_not_P [OF False]] ends] f(2) by simp
      ultimately show ?thesis using rows dirs by (intro runs_go [OF v idle, where k = "disk s" and u = "used s"]) simp_all
    next
      case True
      note path = go_trans [OF claim [unfolded True if_True, simplified] go_to_remove [OF r1 [folded f(2)]]]
      obtain o1 res2 where rm: "remove_all (data_dir settings @ file_dir f) (svc_os v) = (o1, res2)" by fastforce
      show ?thesis
      proof (cases res2)
        case (Inl e)
        have v': "v' = v\<lparr>svc_rows := d1, svc_os := o1, svc_regs := endDeletion r1 i ch\<rparr>"
          using run get rows b m True rm Inl by (auto simp: Delete_def Let_def src)
        obtain k' where k': "k' \<in> {disk s, disk s - {file_dir f}}" "same_dirs settings o1 k'"
          using same_dirs_remove(1) [OF dirs rm d] by blast
        have "go s t (db s, disk s, regs s, used s, Idle) (d1, k', endDeletion r1 i ch, used s, Idle)"
          using go_trans [OF go_trans [OF path go_remove_fails [OF k'(1)]] ends] f(2) by simp
        then show ?thesis using v' k'(2) rows by (intro runs_go [OF v idle, where k = k' and u = "used s"]) simp_all
      next
        case (Inr x)
        obtain d2 res3 where del: "store_Delete flt3 d1 i tenant = (d2, res3)" by fastforce
        have v': "v' = v\<lparr>svc_rows := d2, svc_os := o1, svc_regs := endDeletion r1 i ch\<rparr>"
          using run get rows b m True rm Inr del by (auto simp: Delete_def Let_def src)
        have "same_dirs settings o1 (disk s - {file_dir f})" using same_dirs_remove(2) [OF dirs rm d] Inr by simp
        moreover have "go s t (db s, disk s, regs s, used s, Idle) (d2, disk s - {file_dir f}, endDeletion r1 i ch, used s, Idle)"
          using go_trans [OF go_trans [OF go_trans [OF path go_remove] go_delete_row] ends, of flt3] f(2,3) del by simp
        ultimately show ?thesis using v' rows by (intro runs_go [OF v idle, where k = "disk s - {file_dir f}" and u = "used s"]) simp_all
      qed
    qed
  qed
qed

section \<open>Readers\<close>

lemma go_get:
  "store_Get flt (clock s) d i tenant = Inr (Some f) \<Longrightarrow> go s t (d, k, r, u, Idle) (d, k, r, u, ReadAcquire f)"
  by (rule go1, rule read_get [where flt = flt and i = i and tenant = tenant], rule moved_simps(1)) simp_all

lemma go_acquire:
  "acquireLease r (ID f) = (r', Inr h) \<Longrightarrow> go s t (d, k, r, u, ReadAcquire f) (d, k, r', u, Reading f h)"
  by (rule go1, rule read_acquire, rule moved_simps(1)) simp_all

lemma go_refused:
  "acquireLease r (ID f) = (r', Inl e) \<Longrightarrow> go s t (d, k, r, u, ReadAcquire f) (d, k, r', u, Idle)"
  by (rule go1, rule read_refused, rule moved_simps(1)) simp_all

lemma go_release: "go s t (d, k, r, u, Reading f h) (d, k, releaseLease r (ID f) h, u, Idle)"
  by (rule go1, rule read_release, rule moved_simps(1)) simp

text \<open>Where the goroutine is when a read has returned: it holds the lease if the read succeeded.\<close>

fun reader_at :: "(File \<times> 'a \<times> nat) result \<Rightarrow> proc" where
  "reader_at (Inl e) = Idle"
| "reader_at (Inr (f, x, h)) = Reading f h"

lemma same_dirs_unchanged: "same_dirs settings o1 k \<Longrightarrow> (\<And>p. node_at o2 p = node_at o1 p) \<Longrightarrow> same_dirs settings o2 k"
  by (simp add: same_dirs_def)

lemma read_bytes_frame: "read_bytes E p s = (s', r) \<Longrightarrow> node_at s' q = node_at s q"
  using quiet_read unfolding quiet_def by blast

text \<open>What both kinds of readers do once they have found the file: a lease that is refused, or one that is
  given back because the read fails, or one that is kept.\<close>

lemma reader_runs:
  assumes v: "view settings v s" and idle: "procs s t = Idle"
    and get: "store_Get flt (clock s) (db s) i tenant = Inr (Some f)" and lease: "acquireLease (regs s) i = (r1, x)"
    and o1: "\<And>q. node_at o1 q = node_at (svc_os v) q"
    and outcome: "case x of Inl e \<Rightarrow> v' = v\<lparr>svc_regs := r1\<rparr> \<and> p = Idle
      | Inr h \<Rightarrow> v' = v\<lparr>svc_os := o1, svc_regs := releaseLease r1 i h\<rparr> \<and> p = Idle \<or> v' = v\<lparr>svc_os := o1, svc_regs := r1\<rparr> \<and> p = Reading f h"
  shows "runs_to settings t p v' s"
proof -
  have rows: "svc_rows v = db s" "svc_regs v = regs s" and dirs: "same_dirs settings (svc_os v) (disk s)" using v by (simp_all add: view_def)
  have i: "ID f = i" using store_Get_Some [OF get] by simp
  note start = go_get [OF get, where t = t and k = "disk s" and r = "regs s" and u = "used s"]
  show ?thesis
  proof (cases x)
    case (Inl e)
    have "go s t (db s, disk s, regs s, used s, Idle) (db s, disk s, r1, used s, Idle)"
      using go_trans [OF start go_refused] lease Inl i by simp
    then show ?thesis using outcome Inl rows dirs by (intro runs_go [OF v idle, where k = "disk s" and u = "used s"]) simp_all
  next
    case (Inr h)
    have got: "go s t (db s, disk s, regs s, used s, Idle) (db s, disk s, r1, used s, Reading f h)"
      using go_trans [OF start go_acquire] lease Inr i by simp
    have cases: "v' = v\<lparr>svc_os := o1, svc_regs := releaseLease r1 i h\<rparr> \<and> p = Idle \<or> v' = v\<lparr>svc_os := o1, svc_regs := r1\<rparr> \<and> p = Reading f h"
      using outcome Inr by simp
    have "same_dirs settings o1 (disk s)" using dirs o1 by (rule same_dirs_unchanged)
    then show ?thesis using cases rows got go_trans [OF got go_release] i
      by (elim disjE) (intro runs_go [OF v idle, where k = "disk s" and u = "used s"], simp_all)+
  qed
qed

lemma open_runs:
  assumes v: "view settings v s" and idle: "procs s t = Idle"
    and run: "OpenSource E settings flt (clock s) i tenant v = (v', res)"
  shows "runs_to settings t (reader_at res) v' s"
proof (cases "\<exists>f. store_Get flt (clock s) (svc_rows v) i tenant = Inr (Some f)")
  case False
  then have "v' = v \<and> reader_at res = Idle" using run by (auto simp: OpenSource_def split: sum.splits option.splits)
  then show ?thesis using runs_start [OF v idle] by simp
next
  case True
  then obtain f where get: "store_Get flt (clock s) (db s) i tenant = Inr (Some f)" using v by (auto simp: view_def)
  obtain r1 x where a: "acquireLease (regs s) i = (r1, x)" by fastforce
  obtain o1 y where b: "read_bytes E (source_at settings f) (svc_os v) = (o1, y)" by fastforce
  show ?thesis
    by (rule reader_runs [OF v idle get a read_bytes_frame [OF b]])
      (use run get a b v in \<open>auto simp: OpenSource_def view_def split: sum.splits\<close>)
qed

text \<open>\<open>Resolve\<close> from its last lookup on.\<close>

lemma resolve_runs:
  assumes v: "view settings v s" and idle: "procs s t = Idle"
    and get: "store_Get flt (clock s) (db s) i tenant = Inr (Some f)"
    and run: "resolve_open E settings i param f v = (v', res)"
  shows "runs_to settings t (reader_at res) v' s"
proof -
  consider "v' = v \<and> reader_at res = Idle" | mp where "ManifestPath f = Some mp" "Status f \<noteq> ''failed''"
    using run by (auto simp: resolve_open_def split: option.splits if_splits)
  then show ?thesis
  proof cases
    case 1
    then show ?thesis using runs_start [OF v idle] by simp
  next
    case 2
    obtain r1 x where a: "acquireLease (regs s) i = (r1, x)" by fastforce
    obtain o1 y where b: "read_file (data_dir settings @ path_of mp) (svc_os v) = (o1, y)" by fastforce
    show ?thesis
      by (rule reader_runs [OF v idle get a read_file_frame [OF b]])
        (use run 2 a b v in \<open>auto simp: resolve_open_def view_def split: sum.splits option.splits\<close>)
  qed
qed

section \<open>Create\<close>

lemma same_dirs_make:
  assumes "same_dirs settings o1 k" and "mkdir_all (data_dir settings @ d) o1 = (o2, r)" and "length d = 3"
  shows "same_dirs settings o2 (if isl r then k else insert d k)"
proof -
  have other: "node_at o2 (data_dir settings @ e) = node_at o1 (data_dir settings @ e)" if "length e = 3" "e \<noteq> d" for e
    using mkdir_all_frame [OF assms(2)] that assms(3) by (simp add: below_root below_same_length)
  show ?thesis
  proof (cases r)
    case (Inl e)
    have "node_at o2 (data_dir settings @ d) = node_at o1 (data_dir settings @ d)" using mkdir_all_failed assms(2) Inl below_refl by blast
    then show ?thesis using assms(1) other Inl unfolding same_dirs_def by (metis sum.disc(1))
  next
    case (Inr x)
    have "data_dir settings @ d \<noteq> []" using assms(3) by auto
    then have "node_at o2 (data_dir settings @ d) = Some Dir" using mkdir_all_made assms(2) Inr by simp
    then have "same_dirs settings o2 (insert d k)" using assms(1) other unfolding same_dirs_def by (metis insert_iff)
    then show ?thesis using Inr by simp
  qed
qed

lemma go_create:
  "ID f \<notin> u \<Longrightarrow> new_record f \<Longrightarrow> go s t (d, k, r, u, Idle) (d, insert (file_dir f) k, r, insert (ID f) u, CreateAdd f)"
  by (rule go1, rule create_files, rule moved_simps(1)) simp_all

lemma go_reject: "go s t (d, k, r, u, CreateAdd f) (d, k, r, u, CreateCleanup f)"
  by (rule go1, rule create_reject, rule moved_simps(1)) simp

lemma go_add_fails:
  "store_Add flt d f = (d', Inl e) \<Longrightarrow> go s t (d, k, r, u, CreateAdd f) (d', k, r, u, CreateCleanup f)"
  by (rule go1, rule create_add_fails [where flt = flt and e = e], rule moved_simps(1)) simp_all

lemma go_add:
  "store_Add flt d f = (d', Inr ()) \<Longrightarrow>
     go s t (d, k, r, u, CreateAdd f) (d', k, r, u, CreateEnqueue \<lparr>job_id = ID f, has_converter = True\<rparr>)"
  by (rule go1, rule create_add [where flt = flt], rule moved_simps(1)) simp_all

lemma go_cleanup:
  "k' \<in> {k, k - {file_dir f}} \<Longrightarrow> go s t (d, k, r, u, CreateCleanup f) (d, k', r, u, Idle)"
  by (rule go1, rule create_cleanup [where d = k'], rule moved_simps(1)) simp_all

fun creating :: "File result \<Rightarrow> proc" where
  "creating (Inl e) = Idle"
| "creating (Inr f) = CreateEnqueue \<lparr>job_id = ID f, has_converter = True\<rparr>"

lemma create_runs:
  assumes v: "view settings v s" and idle: "procs s t = Idle"
    and env: "plain_lower E" "plain_component tenant" "dispatcher = NewDispatcher E (NewInTreeRegistry E) config"
    and new: "\<forall>i. newFileID rnd = Inr i \<longrightarrow> i \<notin> used s"
    and run: "Create E settings dispatcher flt now rnd filename source purpose tenant ttl v = (v', res)"
  shows "runs_to settings t (creating res) v' s"
proof (cases "\<exists>c i. ResolveConverter E dispatcher (path_base filename) = Inr c \<and> newFileID rnd = Inr i")
  case False
  then have "v' = v \<and> creating res = Idle" using run by (auto simp: Create_def split: sum.splits)
  then show ?thesis using runs_start [OF v idle] by simp
next
  case True
  then obtain c i where c: "ResolveConverter E dispatcher (path_base filename) = Inr c" and i: "newFileID rnd = Inr i" by blast
  have rows: "svc_rows v = db s" "svc_regs v = regs s" and dirs: "same_dirs settings (svc_os v) (disk s)" using v by (simp_all add: view_def)
  let ?d = "relative_dir tenant i" and ?n = "source_name E filename"
  let ?f = "new_file E c now i filename purpose tenant ttl"
  obtain o1 r1 where m: "mkdir_all (data_dir settings @ ?d) (svc_os v) = (o1, r1)" by fastforce
  have l: "length ?d = 3" by (simp add: relative_dir_def)
  note o1 = same_dirs_make [OF dirs m l]
  have fd: "file_dir (?f content) = ?d \<and> new_record (?f content) \<and> ID (?f content) = i" for content
    using created_paths(1) [OF env(1,2) i HOL.refl, of c now filename purpose ttl content]
    by (auto simp: new_record_def file_wf_def file_dir_def) (simp_all add: new_file_def relative_dir_def)
  have made: "go s t (db s, disk s, regs s, used s, Idle) (db s, insert ?d (disk s), regs s, insert i (used s), CreateAdd (?f content))" for content
    using go_create [of "?f content" "used s" s t "db s" "disk s" "regs s"] fd new i by simp
  show ?thesis
  proof (cases r1)
    case (Inl e)
    then have "v' = v\<lparr>svc_os := o1\<rparr> \<and> creating res = Idle" using run c i m by (auto simp: Create_def Let_def)
    then show ?thesis using o1 Inl rows go_refl by (intro runs_go [OF v idle, where k = "disk s" and u = "used s"]) simp_all
  next
    case ok: (Inr x)
    obtain o2 r2 where a: "accept_upload E settings c (data_dir settings @ ?d @ [?n]) source o1 = (o2, r2)" by fastforce
    have q: "quiet (Validate c (data_dir settings @ ?d @ [?n]))" using resolved_validate_quiet c env(3) by blast
    have o2: "same_dirs settings o2 (insert ?d (disk s))"
    proof (rule same_dirs_cong)
      show "same_dirs settings o1 (insert ?d (disk s))" using o1 ok by simp
      show "node_at o2 (data_dir settings @ e) = Some Dir \<longleftrightarrow> node_at o1 (data_dir settings @ e) = Some Dir" if "length e = 3" for e
      proof -
        have "\<not> below (data_dir settings @ ?d @ [?n]) (data_dir settings @ e)"
          using that by (auto simp: below_root relative_dir_def below_def)
        then show ?thesis using insideD(1) [OF accept_upload_inside [OF q below_refl] a] by simp
      qed
    qed
    obtain o3 r3 where rm: "remove_all (data_dir settings @ ?d) o2 = (o3, r3)" by fastforce
    obtain k where k: "k \<in> {insert ?d (disk s), insert ?d (disk s) - {?d}}" "same_dirs settings o3 k"
      using same_dirs_remove(1) [OF o2 rm l] by blast
    have k': "k \<in> {insert ?d (disk s), insert ?d (disk s) - {file_dir (?f content)}}" for content using k(1) fd by simp
    note sim = run [unfolded Create_def Let_def c i sum.case m ok prod.case append_assoc a]
    show ?thesis
    proof (cases r2)
      case (Inl e)
      have "v' = v\<lparr>svc_os := o3\<rparr> \<and> creating res = Idle" using sim Inl rm by auto
      moreover have "go s t (db s, disk s, regs s, used s, Idle) (db s, k, regs s, insert i (used s), Idle)"
        by (rule go_trans [OF go_trans [OF made [of "[]"] go_reject] go_cleanup [OF k']])
      ultimately show ?thesis using k rows by (intro runs_go [OF v idle, where k = k and u = "insert i (used s)"]) simp_all
    next
      case (Inr content)
      obtain d r4 where add: "store_Add flt (db s) (?f content) = (d, r4)" by fastforce
      show ?thesis
      proof (cases r4)
        case e: (Inl e)
        have "v' = v\<lparr>svc_os := o3, svc_rows := d\<rparr> \<and> creating res = Idle" using sim Inr rm add e rows by auto
        moreover have "go s t (db s, disk s, regs s, used s, Idle) (d, k, regs s, insert i (used s), Idle)"
          by (rule go_trans [OF go_trans [OF made go_add_fails [OF add [unfolded e]]] go_cleanup [OF k']])
        ultimately show ?thesis using k rows by (intro runs_go [OF v idle, where k = k and u = "insert i (used s)"]) simp_all
      next
        case u: (Inr u)
        have "svc_os v' = o2 \<and> svc_rows v' = d \<and> svc_regs v' = regs s \<and> res = Inr (?f content)" using sim Inr add u rows by auto
        moreover have "go s t (db s, disk s, regs s, used s, Idle)
            (d, insert ?d (disk s), regs s, insert i (used s), CreateEnqueue \<lparr>job_id = i, has_converter = True\<rparr>)"
          using go_trans [OF made go_add [of flt "db s" "?f content" d]] fd add u by simp
        ultimately show ?thesis using o2 rows fd
          by (intro runs_go [OF v idle, where k = "insert ?d (disk s)" and u = "insert i (used s)"]) simp_all
      qed
    qed
  qed
qed

section \<open>Conversions\<close>

lemma go_lookup_return:
  "convert_lookup (store_GetInternal flt d (job_id j)) = Inl res \<Longrightarrow> go s t (d, k, r, u, WorkLookup j h) (d, k, r, u, WorkUnregister j h res)"
  by (rule go1, rule work_lookup_return [where flt = flt], rule moved_simps(1)) simp_all

lemma go_lookup:
  "convert_lookup (store_GetInternal flt d (job_id j)) = Inr f \<Longrightarrow> go s t (d, k, r, u, WorkLookup j h) (d, k, r, u, Working WStart j h f)"
  by (rule go1, rule work_lookup [where flt = flt], rule moved_simps(1)) simp_all

lemma go_start_return:
  "store_UpdateStatus flt d (job_id j) ''processing'' [] [] = (d', x) \<Longrightarrow> convert_started x = Inl res \<Longrightarrow>
     go s t (d, k, r, u, Working WStart j h f) (d', k, r, u, WorkUnregister j h res)"
  by (rule go1, rule work_start_return [where flt = flt and r = x], rule moved_simps(1)) simp_all

lemma go_start:
  "store_UpdateStatus flt d (job_id j) ''processing'' [] [] = (d', x) \<Longrightarrow> convert_started x = Inr () \<Longrightarrow>
     go s t (d, k, r, u, Working WStart j h f) (d', k, r, u, Working (if has_converter j then WConvert else WResolve) j h f)"
  by (rule go1, rule work_start [where flt = flt and r = x], rule moved_simps(1)) simp_all

lemma go_resolve: "go s t (d, k, r, u, Working WResolve j h f) (d, k, r, u, Working WConvert j h f)"
  by (rule go1, rule work_resolve, rule moved_simps(1)) simp

lemma go_resolve_fails:
  "go s t (d, k, r, u, Working WResolve j h f) (markFailed flt d (job_id j) e, k, r, u, WorkUnregister j h None)"
  by (rule go1, rule work_resolve_fails [where flt = flt and e = e], rule moved_simps(1)) simp

lemma go_write: "go s t (d, k, r, u, Working WConvert j h f) (d, insert (file_dir f) k, r, u, Working WConvert j h f)"
  by (rule go1, rule work_write, rule moved_simps(1)) simp

lemma go_convert_fails:
  "go s t (d, k, r, u, Working WConvert j h f) (d, k, r, u, WorkUnregister j h (Some (Wrapped ''document conversion: '' e)))"
  by (rule go1, rule work_convert_fails [where e = e], rule moved_simps(1)) simp

lemma go_convert: "go s t (d, k, r, u, Working WConvert j h f) (d, k, r, u, Working WFinish j h f)"
  by (rule go1, rule work_convert, rule moved_simps(1)) simp

lemma go_finish:
  "store_UpdateStatus flt d (job_id j) ''processed'' (manifest_path f) [] = (d', x) \<Longrightarrow>
     go s t (d, k, r, u, Working WFinish j h f) (d', k, r, u, WorkUnregister j h (convert_finished x))"
  by (rule go1, rule work_finish [where flt = flt and r = x], rule moved_simps(1)) simp_all

text \<open>A conversion makes the directory of its file when it is missing, and changes no other.\<close>

lemma same_dirs_convert:
  assumes "same_dirs settings o1 k" and "document_converter (Convert c)" and "file_wf f"
    and run: "Convert c (source_at settings f) (butlast (source_at settings f) @ [''derived'']) options o1 = (o2, res)"
  shows "\<exists>k' \<in> {k, insert (file_dir f) k}. same_dirs settings o2 k'"
proof -
  have l: "length (file_dir f) = 3" using assms(3) by (simp add: file_wf_def)
  then have src: "butlast (source_at settings f) = data_dir settings @ file_dir f"
    by (auto simp: source_at_def file_dir_def butlast_append)
  let ?out = "(data_dir settings @ file_dir f) @ [''derived'']"
  have at: "manifest_at ?out = data_dir settings @ file_dir f @ [''manifest.json'']" by (simp add: manifest_at_def butlast_append)
  have spared: "spared ?out (data_dir settings @ e) (node_at o1 (data_dir settings @ e))"
    if e: "length e = 3" and n: "e \<noteq> file_dir f \<or> node_at o1 (data_dir settings @ e) = Some Dir" for e
  proof -
    have "\<not> below ?out (data_dir settings @ e)" using e l by (auto simp: below_root below_def)
    moreover have "data_dir settings @ e \<noteq> manifest_at ?out" unfolding at using e l by auto
    moreover have "below (data_dir settings @ e) ?out \<longrightarrow> e = file_dir f" using e l by (auto simp: below_root below_def)
    ultimately show ?thesis using n unfolding spared_def by blast
  qed
  have same: "node_at o2 (data_dir settings @ e) = node_at o1 (data_dir settings @ e)"
    if "length e = 3" "e \<noteq> file_dir f \<or> node_at o1 (data_dir settings @ e) = Some Dir" for e
    using document_converter.leaves_rest [OF assms(2) run [unfolded src] spared [OF that]] .
  show ?thesis
  proof (cases "node_at o2 (data_dir settings @ file_dir f) = Some Dir")
    case True
    then have "same_dirs settings o2 (insert (file_dir f) k)" using assms(1) same unfolding same_dirs_def by (metis insert_iff)
    then show ?thesis by blast
  next
    case False
    then have "same_dirs settings o2 k" using assms(1) same l unfolding same_dirs_def by metis
    then show ?thesis by blast
  qed
qed

text \<open>The part of the conversion that both ways to a converter share.\<close>

lemma run_converter_goes:
  assumes dirs: "same_dirs settings (svc_os v) k" and c: "document_converter (Convert c)" and wf: "file_wf f"
    and run: "run_converter settings flt (job_id j) f c v = (v', res)"
  shows "svc_regs v' = svc_regs v \<and> (\<exists>k'. same_dirs settings (svc_os v') k' \<and>
    go s t (svc_rows v, k, r, u, Working WConvert j h f) (svc_rows v', k', r, u, WorkUnregister j h res))"
proof -
  obtain o1 x where m: "Convert c (source_at settings f) (butlast (source_at settings f) @ [''derived'']) (conversion_options settings) (svc_os v) = (o1, x)"
    by fastforce
  obtain k' where k': "k' \<in> {k, insert (file_dir f) k}" "same_dirs settings o1 k'"
    using same_dirs_convert [OF dirs c wf m] by blast
  have written: "go s t (svc_rows v, k, r, u, Working WConvert j h f) (svc_rows v, k', r, u, Working WConvert j h f)"
    using k'(1) go_write go_refl by blast
  show ?thesis
  proof (cases x)
    case (Inl e)
    then have "v' = v\<lparr>svc_os := o1\<rparr>" "res = Some (Wrapped ''document conversion: '' e)" using run m by (auto simp: run_converter_def Let_def)
    then show ?thesis using k'(2) go_trans [OF written go_convert_fails] by auto
  next
    case (Inr y)
    obtain d z where u: "store_UpdateStatus flt (svc_rows v) (job_id j) ''processed'' (manifest_path f) [] = (d, z)" by fastforce
    then have "v' = v\<lparr>svc_os := o1, svc_rows := d\<rparr>" "res = convert_finished z" using run m Inr by (auto simp: run_converter_def Let_def)
    then show ?thesis using k'(2) go_trans [OF go_trans [OF written go_convert] go_finish [OF u]] by auto
  qed
qed

lemma store_GetInternal_Some: "store_GetInternal flt rows i = Inr (Some f) \<Longrightarrow> f \<in> set rows"
  by (auto simp: store_GetInternal_def query_row_def split: db_fault.splits dest: find_Some_iff2)

lemma convert_runs:
  assumes v: "view settings v s" and at: "procs s t = WorkLookup j h"
    and wf: "\<forall>f \<in> set (db s). file_wf f"
    and env: "renderer_ok E" "dispatcher = NewDispatcher E (NewInTreeRegistry E) config"
    and conv: "has_converter j \<longleftrightarrow> conv \<noteq> None" "\<forall>c. conv = Some c \<longrightarrow> document_converter (Convert c)"
    and run: "convert E settings dispatcher flt1 flt2 flt3 (job_id j) conv v = (v', res)"
  shows "runs_to settings t (WorkUnregister j h res) v' s"
proof -
  have rows: "svc_rows v = db s" "svc_regs v = regs s" and dirs: "same_dirs settings (svc_os v) (disk s)" using v by (simp_all add: view_def)
  note there = runs_go [OF v at]
  show ?thesis
  proof (cases "convert_lookup (store_GetInternal flt1 (db s) (job_id j))")
    case (Inl x)
    then have "v' = v" "res = x" using run rows by (auto simp: convert_def)
    then show ?thesis using go_lookup_return [OF Inl] rows dirs by (intro there [where k = "disk s" and u = "used s"]) simp_all
  next
    case (Inr f)
    have f: "file_wf f" using Inr wf store_GetInternal_Some by (auto simp: convert_lookup_def split: sum.splits option.splits if_splits)
    note found = go_lookup [OF Inr, where k = "disk s" and r = "regs s" and u = "used s" and h = h and s = s and t = t]
    obtain d x where start: "store_UpdateStatus flt2 (db s) (job_id j) ''processing'' [] [] = (d, x)" by fastforce
    show ?thesis
    proof (cases "convert_started x")
      case (Inl y)
      then have "v' = v\<lparr>svc_rows := d\<rparr>" "res = y" using run rows \<open>convert_lookup _ = Inr f\<close> start by (auto simp: convert_def Let_def)
      then show ?thesis using go_trans [OF found go_start_return [OF start Inl]] rows dirs
        by (intro there [where k = "disk s" and u = "used s"]) simp_all
    next
      case ok: (Inr y)
      let ?v = "v\<lparr>svc_rows := d\<rparr>"
      have started: "go s t (db s, disk s, regs s, used s, WorkLookup j h)
          (d, disk s, regs s, used s, Working (if has_converter j then WConvert else WResolve) j h f)"
        using go_trans [OF found go_start [OF start]] ok by simp
      note sim = run [unfolded convert_def Let_def rows Inr sum.case start prod.case ok]
      have finish: "runs_to settings t (WorkUnregister j h res) v' s"
        if c: "document_converter (Convert c)" and rc: "run_converter settings flt3 (job_id j) f c ?v = (v', res)"
          and to: "go s t (db s, disk s, regs s, used s, WorkLookup j h) (d, disk s, regs s, used s, Working WConvert j h f)" for c
      proof -
        obtain k' where "svc_regs v' = regs s" "same_dirs settings (svc_os v') k'"
          "go s t (d, disk s, regs s, used s, Working WConvert j h f) (svc_rows v', k', regs s, used s, WorkUnregister j h res)"
          using run_converter_goes [OF _ c f rc, of "disk s" s t "regs s" "used s" h] dirs rows by auto
        then show ?thesis using go_trans [OF to] rows by (intro there [where k = k' and u = "used s"]) simp_all
      qed
      show ?thesis
      proof (cases conv)
        case (Some c)
        then show ?thesis using finish [of c] sim started conv by simp
      next
        case None
        have to: "go s t (db s, disk s, regs s, used s, WorkLookup j h) (d, disk s, regs s, used s, Working WResolve j h f)"
          using started conv(1) None by simp
        show ?thesis
        proof (cases "ResolveConverter E dispatcher (slash_path (source_at settings f))")
          case (Inl e)
          then have "v' = v\<lparr>svc_rows := markFailed flt3 d (job_id j) e\<rparr>" "res = None" using sim None by auto
          then show ?thesis using go_trans [OF to go_resolve_fails] rows dirs by (intro there [where k = "disk s" and u = "used s"]) simp_all
        next
          case (Inr c)
          then have "document_converter (Convert c)" using resolve_contract env by blast
          then show ?thesis using finish [of c] sim None Inr go_trans [OF to go_resolve] by simp
        qed
      qed
    qed
  qed
qed

section \<open>The operations of the service\<close>

lemma runs_to_reach:
  assumes "reach cap now rows dirs s" and "runs_to settings t p v s"
  shows "\<exists>s'. reach cap now rows dirs s' \<and> view settings v s' \<and> procs s' = (procs s)(t := p)"
proof -
  obtain s' where s': "rtranclp step s s'" "view settings v s'" "procs s' = (procs s)(t := p)"
    using assms(2) unfolding runs_to_def by blast
  have "reach cap now rows dirs s'" using s'(1) assms(1) by induction (auto intro: reach.step)
  then show ?thesis using s' by blast
qed


section \<open>A concrete deletion\<close>

text \<open>The stored file of the lifecycle's examples, on the disk of a gateway.\<close>

definition one_file :: service where
  "one_file = \<lparr>svc_os = \<lparr>nodes = [(data_dir demo_settings @ demo_dir, Dir)], faults = [], rm_faults = [], ctx_polls = None\<rparr>,
     svc_rows = [sample_file], svc_regs = registers_init, svc_submitted = []\<rparr>"

abbreviation booted :: sys where
  "booted \<equiv> demo [sample_file] {demo_dir} registers_init (new_queue 1) (three (Starter [''file_a'']) Idle Idle)"

lemma one_file_view: "view demo_settings one_file booted"
  by (auto simp: view_def one_file_def same_dirs_def node_at_def demo_dir_def)

lemma one_file_deleted:
  "case Delete demo_settings NoFault NoFault NoFault 200 ''file_a'' ''shared'' one_file of (v', r) \<Rightarrow> r = Inr True \<and> svc_rows v' = []"
  by code_simp


end
