(* ===== verification/Spec2Isabelle.thy ===== *)
theory Spec2Isabelle
  imports Work_Queue Shutdown Config_Correct Upload_To_Inference Server_Demo Response_Context Startup_Correct Service_Refinement
begin

text \<open>
  A verified model of the LLM file gateway, an HTTP server in Go that stands in front of a model server:
  it stores files that clients upload, converts them to text and page images in the background, and
  replaces the file parts of inference requests by the converted contents before it forwards them.

  \<^bold>\<open>The parts and how they interact.\<close> \<open>main\<close> reads the settings, cleans up what a crash left, opens the
  SQLite store, and starts the file service and the HTTP server. An upload goes through a handler of
  the Files API to \<open>Service.Create\<close>, which writes the file, adds a row to the store and puts a job in the
  conversion queue. Workers take jobs from the queue, pick a converter by the file's extension, and
  record the outcome in the row. An inference request resolves the files it names, holding a read lease
  on each of them while it reads the artifacts, and converts inline data and the contents of URLs in a
  directory of its own. Deletions and the janitor first hide a row, then wait for the conversion and the
  readers, then remove the directory, then the row.

  \<^bold>\<open>Theories and code.\<close> Definitions carry the names of the Go functions and types they translate.
  \<^item> \<open>Prelude\<close>, \<open>Utf8\<close>, \<open>Json\<close>, \<open>Errors\<close>, \<open>File_System\<close>, \<open>Base64\<close>: Go strings as lists of bytes, UTF-8,
    JSON values, error values with their wrapping chain and \<open>internal/apierror\<close>, the calls of package
    \<open>os\<close> on a tree of directories, \<open>encoding/base64\<close>. Every call to the file system may fail, by a script
    of faults; operations are functions from a state to a state and an error or a value.
  \<^item> \<open>Work_Queue\<close>: \<open>internal/workqueue\<close>, both queues, and the blocking \<open>Get\<close> of the unbounded one as an
    inductive step relation over any number of getters.
  \<^item> \<open>Store\<close>: \<open>internal/store\<close>; the table is the list of its rows, a statement a function on it that a
    fault of the driver may replace.
  \<^item> \<open>Extractor\<close>, \<open>Converter\<close>, \<open>Converter_Correct\<close>, \<open>Conversion_Contract\<close>: \<open>internal/converter\<close> and its
    subpackage \<open>extractor\<close>: text, CSV and HTML extraction, image and document conversion, manifest,
    registry, dispatcher, the validation of uploads.
  \<^item> \<open>Config\<close>, \<open>Config_Correct\<close>: \<open>internal/config\<close> and \<open>internal/logging\<close>, with integers that wrap at 64 bits.
  \<^item> \<open>Lifecycle\<close> and \<open>Lifecycle_Safety\<close>, \<open>_Cleanup\<close>, \<open>_Leases\<close>, \<open>_Conversions\<close>, \<open>_Disk\<close>, \<open>_Status\<close>,
    \<open>_Demo\<close>, \<open>_Theorems\<close>, and \<open>Shutdown\<close>: the concurrency of \<open>internal/files/service.go\<close>. Each goroutine is a program
    counter, each critical section and each blocking call one step of the relation \<open>step\<close>; \<open>reach\<close> are the
    states that some interleaving of any number of uploads, deletions, readers, workers, janitors and
    timers leads to.
  \<^item> \<open>File_Service\<close>, \<open>File_Service_Correct\<close>, \<open>Upload_To_Inference\<close>: the operations of the same file as one
    caller sees them, over the file system: \<open>Create\<close>, \<open>Resolve\<close>, \<open>OpenSource\<close>, \<open>convert\<close>,
    \<open>ReconcileStorage\<close>; and the way of a document through all of them. \<open>Service_Refinement\<close>: each of these
    operations is a sequence of steps of one goroutine of \<open>Lifecycle\<close>.
  \<^item> \<open>Http\<close>, \<open>Server_Files\<close>, \<open>Concurrency_Limit\<close>, \<open>Response_Context\<close>, \<open>Proxy\<close>, \<open>Streaming\<close>, \<open>File_Url\<close>, \<open>Inference\<close>, \<open>Gateway\<close>, with the
    lemmas in \<open>Server_Files_Correct\<close>, \<open>File_Url_Correct\<close>, \<open>Inference_Correct\<close>, \<open>Inference_Resources\<close>,
    \<open>Gateway_Correct\<close> and concrete requests in \<open>Server_Demo\<close>: \<open>internal/server\<close>, from the route of a
    request to its response and what it leaves in the store and on the disk.
  \<^item> \<open>Startup\<close>, \<open>Startup_Correct\<close>: \<open>cmd/llm-file-gateway/main.go\<close>, and the state after a crash.

  \<^bold>\<open>Interfaces.\<close> The locales are \<open>work_queue\<close> (what \<open>Add\<close> and \<open>Get\<close> promise; met by both queues and by
  their sum), \<open>file_store\<close> (what the updates keep; met by the SQLite store), \<open>document_converter\<close> (touches
  only its output directory and its manifest, all or nothing; met by the text and the image converters;
  for the document converter, whose renderer is external, by the same lemmas under the renderer's law)
  and \<open>lease_register\<close> (met by \<open>acquireLease\<close> and \<open>releaseLease\<close>).

  \<^bold>\<open>What the theorems show.\<close>
  \<^item> Concurrency: no artifact is removed while it is read or written; a row outlives its directory and
    neither comes back; one conversion, one cleanup and one queued job per file at most; the status machine;
    a waiting cleanup is never stuck, and from every reachable state the stopped service can run to its end
    with empty registers (a weight on the program counters decreases); the retry schedule; the one race that a reader can meet.
  \<^item> Refinement: what an operation does as its caller sees it is what one goroutine does by steps of the
    lifecycle, with every fault, so the theorems about all interleavings hold for the operations.
  \<^item> Crash: a start after a crash at any reachable moment is a start state of the lifecycle again, with
    every row and its directory kept and all leftovers removed.
  \<^item> Data: uploads are stored whole or not at all and under their digest; what a successful conversion
    writes is what an inference request reads back (JSON, CSV and base64 round trips); text limits are
    exact; hidden HTML text is dropped.
  \<^item> Isolation: tenants do not see each other's rows; no request without the key stores, reads or forwards
    anything; every address that is dialled for a URL is public; credentials and hop-by-hop headers of
    a client are not forwarded; the payload that is forwarded has no file reference left.
  \<^item> Bounds and resources: the accepted settings and where their arithmetic wraps; no more requests than
    slots and each slot given back; request directories and leases given back on every path; polling ends
    at the first lookup that decides; the request timeout bounds the wait for a reply and never the reply, and a streamed reply
    reaches the client chunk by chunk.

  \<^bold>\<open>Bounds and fuel.\<close> No definition has fuel that could run out unnoticed. Redirects are limited to four
  as in the code and the recursion is on what is left; polling is recursion on the script of the
  polls, and its result is None exactly if none of them decides; all other loops recurse on their data. The number of goroutines, of files and of
  requests is not bounded. \<open>int\<close> and \<open>int64\<close> are unbounded integers with the wrap-around written out where
  the code can reach it (settings, limits, deadlines); addresses and base64 groups are words.

  \<^bold>\<open>Parameters and hypotheses.\<close> The record \<open>env\<close> holds what the code calls and the repository does not
  define: SHA-256, JSON text, the HTML parser, the image decoders, the document renderer, Unicode case
  tables, number formatting. \<open>platform\<close> (environment variables, URL and float syntax), \<open>web\<close> (URL syntax,
  DNS, dials and replies), \<open>link\<close> (the model server) and \<open>driver\<close> (failures of SQLite) are of the same
  kind. A theorem that needs a law of a parameter states it as a premise, for instance that parsing inverts
  writing of JSON, that the renderer only writes into its output directory, or that its numbers fit \<open>int\<close>;
  each of these theorems has a witness with a concrete parameter.

  \<^bold>\<open>Not modelled.\<close> Log output, except for its levels and for what is logged of an upstream error; file permissions; the HTTP, multipart and TLS
  implementations of the standard library and its range requests; PDF rendering and LibreOffice, which are external programs; SQL as a language (a statement is
  read as its effect on the table) and the write-ahead log, so a crash falls between two statements. That
  \<open>Stop\<close> waits for the goroutines is the wait for the end that \<open>shutdown_completes\<close> reaches.
\<close>

end
